(* ===== verification/Prelude.thy ===== *)
theory Prelude
  imports Complex_Main "HOL-Library.Multiset" "HOL-Library.Word" "HOL-Library.Product_Lexorder"
begin

text \<open>
  What every component of the development shares: Go's error values and multi-value returns,
  calls to the database and to Redis that may fail, 64-bit integer wrap-around, points in time,
  the order of nullable SQL columns, and the list lemmas behind \<open>UPDATE ... WHERE\<close>,
  \<open>ORDER BY ... LIMIT\<close> and the invariants of state machines.
\<close>

section \<open>Lemma collections\<close>

named_theorems table_simps \<open>facts about the identity columns of updated tables\<close>
named_theorems unchanged \<open>facts saying that an operation leaves a part of the state alone\<close>

section \<open>Types\<close>

text \<open>
  A Go \<^verbatim>\<open>string\<close> and a \<^verbatim>\<open>[]byte\<close> are byte sequences, and so is HOL's
  \<^typ>\<open>string\<close>. A UUID is its 16 bytes, which PostgreSQL compares as an unsigned big-endian number.
  A point in time is a number of nanoseconds; a \<^verbatim>\<open>time.Duration\<close> is the same, at 64 bits.
\<close>

type_synonym bytes = string
type_synonym uuid = "128 word"
type_synonym time = int

abbreviation second :: int where
  "second \<equiv> 1000000000"

text \<open>Go's \<^verbatim>\<open>int\<close> and \<^verbatim>\<open>int64\<close> are two's complement at 64 bits: the result of an
  operation on \<^typ>\<open>int\<close> is brought back into range.\<close>

definition wrap64 :: "int \<Rightarrow> int" where
  "wrap64 x = (x + 2 ^ 63) mod 2 ^ 64 - 2 ^ 63"

lemma wrap64_id [simp]: "- (2 ^ 63) \<le> x \<Longrightarrow> x < 2 ^ 63 \<Longrightarrow> wrap64 x = x"
  by (simp add: wrap64_def)

lemma wrap64_range: "- (2 ^ 63) \<le> wrap64 x \<and> wrap64 x < 2 ^ 63"
  using pos_mod_bound [of "2 ^ 64" "x + 2 ^ 63"] pos_mod_sign [of "2 ^ 64" "x + 2 ^ 63"]
  by (simp add: wrap64_def)

section \<open>Errors and results\<close>

text \<open>
  An error that the database or the Redis driver hands back: an error of the server
  (\<^verbatim>\<open>pgconn.PgError\<close>), a failure of the connection, or the context's deadline.
\<close>

datatype driver_error = PgError string | ConnError string | DeadlineExceeded

text \<open>
  Go errors: sentinels made by \<^verbatim>\<open>errors.New\<close> (their messages are pairwise distinct, so the
  message identifies the value), driver errors, errors of the standard library that the program
  only reports, and the results of \<^verbatim>\<open>fmt.Errorf\<close> with \<open>%w\<close>.
\<close>

datatype go_error =
    Sentinel string
  | Driver driver_error
  | LibError string
  | Wrap "go_error list" string

fun driver_text :: "driver_error \<Rightarrow> string" where
  "driver_text (PgError s) = s"
| "driver_text (ConnError s) = s"
| "driver_text DeadlineExceeded = ''context deadline exceeded''"

fun err_text :: "go_error \<Rightarrow> string" where
  "err_text (Sentinel s) = s"
| "err_text (Driver d) = driver_text d"
| "err_text (LibError s) = s"
| "err_text (Wrap es s) = s"

text \<open>\<^verbatim>\<open>errors.Is\<close> and \<^verbatim>\<open>errors.As(err, &config.ErrPg)\<close> walk the wrapped errors.\<close>

fun errors_is :: "go_error \<Rightarrow> go_error \<Rightarrow> bool" where
  "errors_is (Wrap es s) t = (Wrap es s = t \<or> list_ex (\<lambda>e. errors_is e t) es)"
| "errors_is e t = (e = t)"

fun errors_as_pg :: "go_error \<Rightarrow> bool" where
  "errors_as_pg (Driver (PgError s)) = True"
| "errors_as_pg (Wrap es s) = list_ex errors_as_pg es"
| "errors_as_pg _ = False"

text \<open>\<^verbatim>\<open>fmt.Errorf("%w: %w", a, b)\<close>.\<close>

definition errorf2 :: "go_error \<Rightarrow> go_error \<Rightarrow> go_error" where
  "errorf2 a b = Wrap [a, b] (err_text a @ '': '' @ err_text b)"

lemma errors_is_errorf2 [simp]:
  "errors_is (errorf2 a b) (Sentinel t) \<longleftrightarrow> errors_is a (Sentinel t) \<or> errors_is b (Sentinel t)"
  by (simp add: errorf2_def)

text \<open>
  A Go function that returns \<^verbatim>\<open>(T, error)\<close>: a value, an error, or a run-time panic.
\<close>

datatype 'a res = Ok 'a | Err go_error | Panic

fun res_bind :: "'a res \<Rightarrow> ('a \<Rightarrow> 'b res) \<Rightarrow> 'b res" where
  "res_bind (Ok x) f = f x"
| "res_bind (Err e) f = Err e"
| "res_bind Panic f = Panic"

fun is_ok :: "'a res \<Rightarrow> bool" where
  "is_ok (Ok x) = True"
| "is_ok _ = False"

lemma res_bind_Ok_iff: "res_bind m f = Ok y \<longleftrightarrow> (\<exists>x. m = Ok x \<and> f x = Ok y)"
  by (cases m) auto

lemma is_ok_iff: "is_ok r \<longleftrightarrow> (\<exists>x. r = Ok x)"
  by (cases r) auto

section \<open>Calls that may fail\<close>

text \<open>
  A call to PostgreSQL or Redis can fail in two ways the program cannot tell apart: the statement
  was never executed, or it was and only the reply was lost (a deadline that passed meanwhile).
\<close>

datatype fault = NoFault | Lost driver_error | Unacked driver_error

definition call :: "fault \<Rightarrow> ('s \<Rightarrow> 'a res \<times> 's) \<Rightarrow> 's \<Rightarrow> 'a res \<times> 's" where
  "call ft stmt s = (case ft of
      NoFault \<Rightarrow> stmt s
    | Lost e \<Rightarrow> (Err (Driver e), s)
    | Unacked e \<Rightarrow> (Err (Driver e), snd (stmt s)))"

text \<open>A query changes nothing, so only its answer can be lost.\<close>

definition ask :: "fault \<Rightarrow> ('s \<Rightarrow> 'a res) \<Rightarrow> 's \<Rightarrow> 'a res" where
  "ask ft query s = (case ft of
      NoFault \<Rightarrow> query s
    | Lost e \<Rightarrow> Err (Driver e)
    | Unacked e \<Rightarrow> Err (Driver e))"

lemma call_NoFault [simp]: "call NoFault stmt s = stmt s"
  by (simp add: call_def)

lemma ask_NoFault [simp]: "ask NoFault query s = query s"
  by (simp add: ask_def)

lemma call_cases:
  assumes "call ft stmt s = (r, s')"
  obtains (ran) "ft = NoFault" "stmt s = (r, s')"
    | (lost) e where "ft = Lost e" "r = Err (Driver e)" "s' = s"
    | (unacked) e where "ft = Unacked e" "r = Err (Driver e)" "s' = snd (stmt s)"
  using assms by (cases ft) (auto simp: call_def)

lemma call_state: "snd (call ft stmt s) \<in> {s, snd (stmt s)}"
  by (cases ft) (auto simp: call_def)

lemma call_preserves:
  assumes "P s" and "P (snd (stmt s))"
  shows "P (snd (call ft stmt s))"
  using assms call_state [of ft stmt s] by auto

lemma call_Ok: "call ft stmt s = (Ok x, s') \<longleftrightarrow> ft = NoFault \<and> stmt s = (Ok x, s')"
  by (cases ft) (auto simp: call_def)

lemma ask_Ok: "ask ft query s = Ok x \<longleftrightarrow> ft = NoFault \<and> query s = Ok x"
  by (cases ft) (auto simp: ask_def)

section \<open>Nullable columns in ascending order\<close>

text \<open>PostgreSQL sorts NULL after every value in an ascending \<open>ORDER BY\<close>.\<close>

datatype 'a nulls_last = Val 'a | Null

fun nullable :: "'a option \<Rightarrow> 'a nulls_last" where
  "nullable (Some x) = Val x"
| "nullable None = Null"

instantiation nulls_last :: (linorder) linorder
begin

fun less_eq_nulls_last :: "'a nulls_last \<Rightarrow> 'a nulls_last \<Rightarrow> bool" where
  "less_eq_nulls_last (Val x) (Val y) = (x \<le> y)"
| "less_eq_nulls_last Null (Val y) = False"
| "less_eq_nulls_last x Null = True"

definition less_nulls_last :: "'a nulls_last \<Rightarrow> 'a nulls_last \<Rightarrow> bool" where
  "less_nulls_last x y = (x \<le> y \<and> \<not> y \<le> x)"

instance
proof
  fix x y z :: "'a nulls_last"
  show "(x < y) = (x \<le> y \<and> \<not> y \<le> x)" by (rule less_nulls_last_def)
  show "x \<le> x" by (cases x) auto
  show "x \<le> y \<Longrightarrow> y \<le> z \<Longrightarrow> x \<le> z" by (cases x; cases y; cases z) auto
  show "x \<le> y \<Longrightarrow> y \<le> x \<Longrightarrow> x = y" by (cases x; cases y) auto
  show "x \<le> y \<or> y \<le> x" by (cases x; cases y) auto
qed

end

section \<open>Tables as lists of rows\<close>

text \<open>\<open>UPDATE ... SET f WHERE P\<close>, and the rows that \<open>RETURNING *\<close> hands back.\<close>

definition update_where :: "('r \<Rightarrow> bool) \<Rightarrow> ('r \<Rightarrow> 'r) \<Rightarrow> 'r list \<Rightarrow> 'r list" where
  "update_where P f rows = map (\<lambda>r. if P r then f r else r) rows"

definition returning :: "('r \<Rightarrow> bool) \<Rightarrow> ('r \<Rightarrow> 'r) \<Rightarrow> 'r list \<Rightarrow> 'r list" where
  "returning P f rows = map f (filter P rows)"

text \<open>\<open>ORDER BY key ASC LIMIT n\<close>.\<close>

definition first_by :: "('r \<Rightarrow> 'k::linorder) \<Rightarrow> nat \<Rightarrow> 'r list \<Rightarrow> 'r list" where
  "first_by key n rows = take n (sort_key key rows)"

lemma length_update_where [simp]: "length (update_where P f rows) = length rows"
  by (simp add: update_where_def)

lemma update_where_Nil [simp]: "update_where P f [] = []"
  by (simp add: update_where_def)

lemma map_update_where [table_simps]:
  assumes "\<And>r. k (f r) = k r"
  shows "map k (update_where P f rows) = map k rows"
  using assms by (simp add: update_where_def)

lemma set_update_where:
  "set (update_where P f rows) = f ` {r \<in> set rows. P r} \<union> {r \<in> set rows. \<not> P r}"
  by (auto simp: update_where_def)

lemma list_all_update_where:
  assumes "list_all Q rows" and "\<And>r. r \<in> set rows \<Longrightarrow> P r \<Longrightarrow> Q r \<Longrightarrow> Q (f r)"
  shows "list_all Q (update_where P f rows)"
  using assms by (auto simp: update_where_def list_all_iff)

lemma in_update_where:
  "x \<in> set (update_where P f xs) \<longleftrightarrow> (\<exists>y \<in> set xs. x = (if P y then f y else y))"
  by (auto simp: update_where_def)

lemma filter_update_where_other:
  assumes "\<And>r. k (f r) = k r"
  shows "filter (\<lambda>r. k r \<noteq> u) (update_where (\<lambda>r. k r = u) f rows) = filter (\<lambda>r. k r \<noteq> u) rows"
  using assms by (induction rows) (auto simp: update_where_def)

lemma distinct_map_eq: "distinct (map f xs) \<Longrightarrow> x \<in> set xs \<Longrightarrow> y \<in> set xs \<Longrightarrow> f x = f y \<Longrightarrow> x = y"
  by (auto simp: distinct_map inj_on_def)

lemma set_returning: "set (returning P f rows) = f ` {r \<in> set rows. P r}"
  by (auto simp: returning_def)

lemma first_by_subset: "set (first_by key n rows) \<subseteq> set rows"
  using set_take_subset [of n "sort_key key rows"] by (simp add: first_by_def)

lemma length_first_by: "length (first_by key n rows) = min n (length rows)"
  by (simp add: first_by_def)

lemma distinct_first_by: "distinct (map k rows) \<Longrightarrow> distinct (map k (first_by key n rows))"
proof -
  assume d: "distinct (map k rows)"
  have "mset (map k (sort_key key rows)) = mset (map k rows)" by simp
  with d have "distinct (map k (sort_key key rows))"
    by (metis mset_eq_imp_distinct_iff)
  then show ?thesis
    by (simp add: first_by_def flip: take_map)
qed

text \<open>What a \<open>LIMIT\<close> leaves behind sorts no earlier than anything it takes.\<close>

lemma first_by_least:
  assumes "x \<in> set (first_by key n rows)" and "y \<in> set rows"
    and "y \<notin> set (first_by key n rows)"
  shows "key x \<le> key y"
proof -
  let ?s = "sort_key key rows"
  have "y \<in> set (drop n ?s)"
    using assms(2,3) by (metis append_take_drop_id Un_iff first_by_def set_append set_sort)
  moreover have "sorted (map key (take n ?s) @ map key (drop n ?s))"
    by (simp flip: map_append)
  ultimately show ?thesis
    using assms(1) by (auto simp: sorted_append first_by_def)
qed

lemma first_by_all: "length rows \<le> n \<Longrightarrow> set (first_by key n rows) = set rows"
  by (simp add: first_by_def)

lemma find_SomeD: "find P xs = Some x \<Longrightarrow> x \<in> set xs \<and> P x"
  by (induction xs) (auto split: if_splits)

lemma set_map_filter: "set (List.map_filter f xs) = {y. \<exists>x \<in> set xs. f x = Some y}"
  by (induction xs) (auto simp: List.map_filter_simps split: option.splits)

lemma nth_update_if: "xs[j := v] ! i = (if i = j \<and> j < length xs then v else xs ! i)"
  by (cases "j < length xs") (auto simp: nth_list_update list_update_beyond)

section \<open>Sequences of operations\<close>

text \<open>Operations performed one after another, each with its own result.\<close>

fun run_ops :: "('o \<Rightarrow> 's \<Rightarrow> 'r \<times> 's) \<Rightarrow> 'o list \<Rightarrow> 's \<Rightarrow> 'r list \<times> 's" where
  "run_ops f [] s = ([], s)"
| "run_ops f (x # xs) s =
     (let (r, s') = f x s; (rs, s'') = run_ops f xs s' in (r # rs, s''))"

lemma run_ops_Cons:
  "f x s = (r, s') \<Longrightarrow> run_ops f (x # xs) s = (r # fst (run_ops f xs s'), snd (run_ops f xs s'))"
  by (simp add: split_beta Let_def)

lemma length_run_ops [simp]: "length (fst (run_ops f xs s)) = length xs"
  by (induction xs arbitrary: s) (auto simp: split_beta Let_def)

lemma run_ops_inv:
  assumes "\<And>x s. x \<in> set xs \<Longrightarrow> P s \<Longrightarrow> P (snd (f x s))" and "P s"
  shows "P (snd (run_ops f xs s))"
  using assms by (induction xs arbitrary: s) (auto simp: split_beta Let_def)

lemma run_ops_append:
  "run_ops f (xs @ ys) s =
     (let (rs, t) = run_ops f xs s; (rs', u) = run_ops f ys t in (rs @ rs', u))"
  by (induction xs arbitrary: s) (auto simp: split_beta Let_def)

text \<open>What flows in, in order, is what has flowed out followed by what is still inside.\<close>

lemma run_ops_flow:
  assumes "\<And>x s r s'. f x s = (r, s') \<Longrightarrow> inside s @ flow_in r = flow_out r @ inside s'"
  shows "inside s @ concat (map flow_in (fst (run_ops f xs s))) =
    concat (map flow_out (fst (run_ops f xs s))) @ inside (snd (run_ops f xs s))"
proof (induction xs arbitrary: s)
  case (Cons x xs)
  obtain r s' where f: "f x s = (r, s')" by fastforce
  show ?case
    using assms [OF f] Cons.IH [of s']
    by (simp add: run_ops_Cons [where f = f, OF f] del: run_ops.simps) (metis append.assoc)
qed simp

text \<open>A quantity that every operation adds to, up to wrap-around (at \<open>m = 0\<close>, exactly).\<close>

lemma run_ops_sum:
  fixes amount :: "'s \<Rightarrow> int"
  assumes "\<And>x s r s'. f x s = (r, s') \<Longrightarrow> amount s' mod m = (amount s + gain r) mod m"
  shows "amount (snd (run_ops f xs s)) mod m = (amount s + sum_list (map gain (fst (run_ops f xs s)))) mod m"
proof (induction xs arbitrary: s)
  case (Cons x xs)
  obtain r s' where f: "f x s = (r, s')" by fastforce
  have "(amount s' + t) mod m = (amount s + gain r + t) mod m" for t
    using assms [OF f] by (rule mod_add_cong) simp
  then show ?case
    using Cons.IH [of s'] by (simp add: run_ops_Cons [where f = f, OF f] add.assoc del: run_ops.simps)
qed simp

lemma wrap64_mod: "wrap64 x mod 2 ^ 64 = x mod 2 ^ 64"
  by (simp add: wrap64_def mod_diff_left_eq)

text \<open>The values among the results of a sequence of operations.\<close>

fun oks :: "'r res list \<Rightarrow> 'r list" where
  "oks [] = []"
| "oks (Ok r # rs) = r # oks rs"
| "oks (_ # rs) = oks rs"

lemma set_oks: "r \<in> set (oks rs) \<longleftrightarrow> Ok r \<in> set rs"
  by (induction rs rule: oks.induct) auto

section \<open>Reachable states\<close>

text \<open>
  A component whose operations interleave is a step relation; an invariant that its initial
  states satisfy and every step keeps holds wherever the component can get to.
\<close>

locale invariant_system =
  fixes start :: "'s \<Rightarrow> bool"
    and step :: "'s \<Rightarrow> 's \<Rightarrow> bool"
    and inv :: "'s \<Rightarrow> bool"
  assumes start_inv: "start s \<Longrightarrow> inv s"
    and step_inv: "step s t \<Longrightarrow> inv s \<Longrightarrow> inv t"
begin

lemma steps_inv: "step\<^sup>*\<^sup>* s t \<Longrightarrow> inv s \<Longrightarrow> inv t"
  by (induction rule: rtranclp_induct) (auto intro: step_inv)

lemma reachable_inv: "start s \<Longrightarrow> step\<^sup>*\<^sup>* s t \<Longrightarrow> inv t"
  by (blast intro: start_inv steps_inv)

text \<open>A relation between two states that every step keeps, as an order on runs.\<close>

lemma steps_mono:
  assumes "step\<^sup>*\<^sup>* s t" and "inv s"
    and "\<And>u. R u u" and "\<And>u v w. R u v \<Longrightarrow> R v w \<Longrightarrow> R u w"
    and "\<And>u v. step u v \<Longrightarrow> inv u \<Longrightarrow> R u v"
  shows "R s t"
  using assms(1,2)
proof (induction rule: rtranclp_induct)
  case base
  show ?case by (rule assms(3))
next
  case (step u v)
  from step.hyps(1) step.prems have "inv u" by (rule steps_inv)
  with step show ?case by (blast intro: assms(4,5))
qed

end

end
