(* ===== verification/GoStd.thy ===== *)
theory GoStd
  imports Prelude
begin

text \<open>
  What the program uses of Go's standard library on byte strings: \<^verbatim>\<open>strings.TrimSpace\<close>,
  \<^verbatim>\<open>utf8.RuneCountInString\<close>, \<^verbatim>\<open>strconv.Atoi\<close>, \<^verbatim>\<open>encoding/hex\<close>,
  \<^verbatim>\<open>encoding/base64\<close> and \<^verbatim>\<open>http.Header\<close>.
\<close>

section \<open>Bytes\<close>

abbreviation code :: "char \<Rightarrow> nat" where
  "code c \<equiv> of_char c"

abbreviation byte :: "nat \<Rightarrow> char" where
  "byte n \<equiv> char_of n"

section \<open>White space\<close>

text \<open>
  The UTF-8 encodings of the code points for which \<^verbatim>\<open>unicode.IsSpace\<close> holds: tab, newline,
  vertical tab, form feed, carriage return, space, U+0085, U+00A0, U+1680, U+2000 to U+200A,
  U+2028, U+2029, U+202F, U+205F and U+3000.
\<close>

definition space_runes :: "bytes list" where
  "space_runes =
     map (map byte)
      ([[9], [10], [11], [12], [13], [32], [194, 133], [194, 160], [225, 154, 128]] @
       map (\<lambda>n. [226, 128, n]) [128 ..< 139] @
       [[226, 128, 168], [226, 128, 169], [226, 128, 175], [226, 129, 159], [227, 128, 128]])"

definition strip_prefix :: "bytes \<Rightarrow> bytes option" where
  "strip_prefix s = map_option (\<lambda>p. drop (length p) s) (find (\<lambda>p. take (length p) s = p) space_runes)"

lemma space_runes_nonempty: "p \<in> set space_runes \<Longrightarrow> 0 < length p"
  by (auto simp: space_runes_def)

lemma strip_prefix_shorter:
  assumes "strip_prefix s = Some t"
  shows "length t < length s"
proof -
  from assms obtain p where p: "p \<in> set space_runes" "take (length p) s = p"
    and t: "t = drop (length p) s"
    by (auto simp: strip_prefix_def dest: find_SomeD)
  from p(2) have "length p \<le> length s" by (metis length_take min.cobounded1 min.commute)
  with space_runes_nonempty [OF p(1)] t show ?thesis by (cases s) auto
qed

function trim_left :: "bytes \<Rightarrow> bytes" where
  "trim_left s = (case strip_prefix s of None \<Rightarrow> s | Some t \<Rightarrow> trim_left t)"
  by pat_completeness auto
termination
  by (relation "measure length") (auto dest: strip_prefix_shorter)

declare trim_left.simps [simp del]

text \<open>
  \<^verbatim>\<open>DecodeLastRune\<close> finds a white-space rune at the end exactly when its encoding is a suffix.
\<close>

definition strip_suffix :: "bytes \<Rightarrow> bytes option" where
  "strip_suffix s =
     map_option (\<lambda>p. take (length s - length p) s)
       (find (\<lambda>p. length p \<le> length s \<and> drop (length s - length p) s = p) space_runes)"

lemma strip_suffix_shorter:
  assumes "strip_suffix s = Some t"
  shows "length t < length s"
proof -
  from assms obtain p where p: "p \<in> set space_runes" "length p \<le> length s"
    and t: "t = take (length s - length p) s"
    by (auto simp: strip_suffix_def dest: find_SomeD)
  with space_runes_nonempty [OF p(1)] show ?thesis by (cases s) auto
qed

function trim_right :: "bytes \<Rightarrow> bytes" where
  "trim_right s = (case strip_suffix s of None \<Rightarrow> s | Some t \<Rightarrow> trim_right t)"
  by pat_completeness auto
termination
  by (relation "measure length") (auto dest: strip_suffix_shorter)

declare trim_right.simps [simp del]

definition trim_space :: "bytes \<Rightarrow> bytes" where
  "trim_space s = trim_right (trim_left s)"

lemma trim_left_Nil [simp]: "trim_left [] = []"
  by (simp add: trim_left.simps [of "[]"] strip_prefix_def space_runes_def)

lemma trim_right_Nil [simp]: "trim_right [] = []"
  by (simp add: trim_right.simps [of "[]"] strip_suffix_def space_runes_def)

lemma trim_space_Nil [simp]: "trim_space [] = []"
  by (simp add: trim_space_def)

lemma length_trim_left: "length (trim_left s) \<le> length s"
proof (induction s rule: trim_left.induct)
  case (1 s)
  then show ?case
    by (subst trim_left.simps) (fastforce split: option.splits dest: strip_prefix_shorter)
qed

lemma length_trim_right: "length (trim_right s) \<le> length s"
proof (induction s rule: trim_right.induct)
  case (1 s)
  then show ?case
    by (subst trim_right.simps) (fastforce split: option.splits dest: strip_suffix_shorter)
qed

lemma length_trim_space: "length (trim_space s) \<le> length s"
  unfolding trim_space_def by (rule le_trans [OF length_trim_right length_trim_left])

text \<open>After trimming no white space is left at the end, so trimming at the end again changes nothing.\<close>

lemma trim_right_done: "strip_suffix (trim_right s) = None"
proof (induction s rule: trim_right.induct)
  case (1 s)
  then show ?case by (subst trim_right.simps) (auto split: option.splits)
qed

section \<open>Runes\<close>

text \<open>
  The number of bytes of the first rune, as \<^verbatim>\<open>utf8.DecodeRuneInString\<close> reports it: an invalid
  encoding is one rune of one byte.
\<close>

definition cont :: "char \<Rightarrow> bool" where
  "cont c \<longleftrightarrow> 128 \<le> code c \<and> code c \<le> 191"

definition second_ok :: "nat \<Rightarrow> char \<Rightarrow> bool" where
  "second_ok b c \<longleftrightarrow>
     (if b = 224 then 160 \<le> code c \<and> code c \<le> 191
      else if b = 237 then 128 \<le> code c \<and> code c \<le> 159
      else if b = 240 then 144 \<le> code c \<and> code c \<le> 191
      else if b = 244 then 128 \<le> code c \<and> code c \<le> 143
      else cont c)"

fun rune_size :: "bytes \<Rightarrow> nat" where
  "rune_size [] = 0"
| "rune_size (a # s) =
     (let b = code a in
      if 194 \<le> b \<and> b \<le> 223 \<and> 1 \<le> length s \<and> cont (s ! 0) then 2
      else if 224 \<le> b \<and> b \<le> 239 \<and> 2 \<le> length s \<and> second_ok b (s ! 0) \<and> cont (s ! 1) then 3
      else if 240 \<le> b \<and> b \<le> 244 \<and> 3 \<le> length s \<and> second_ok b (s ! 0) \<and> cont (s ! 1) \<and> cont (s ! 2) then 4
      else 1)"

lemma rune_size_pos: "0 < rune_size (a # s)"
  by (simp add: Let_def)

function rune_count :: "bytes \<Rightarrow> nat" where
  "rune_count s = (if s = [] then 0 else Suc (rune_count (drop (rune_size s) s)))"
  by pat_completeness auto
termination
proof (relation "measure length", goal_cases)
  case (2 s)
  then obtain a t where "s = a # t" by (cases s) auto
  with rune_size_pos [of a t] show ?case by (simp del: rune_size.simps)
qed simp

declare rune_count.simps [simp del]

lemma rune_count_Nil [simp]: "rune_count [] = 0"
  by (simp add: rune_count.simps)

lemma rune_count_le_length: "rune_count s \<le> length s"
proof (induction s rule: rune_count.induct)
  case (1 s)
  show ?case
  proof (cases s)
    case Nil
    then show ?thesis by simp
  next
    case (Cons a t)
    with rune_size_pos [of a t] "1.IH" show ?thesis
      by (subst rune_count.simps) (auto simp del: rune_size.simps)
  qed
qed

section \<open>Integers\<close>

definition is_digit :: "char \<Rightarrow> bool" where
  "is_digit c \<longleftrightarrow> 48 \<le> code c \<and> code c \<le> 57"

definition digits_value :: "bytes \<Rightarrow> int" where
  "digits_value ds = foldl (\<lambda>n c. 10 * n + (int (code c) - 48)) 0 ds"

text \<open>\<^verbatim>\<open>strconv.Atoi\<close>: an optional sign, then decimal digits, within the range of a 64-bit integer.\<close>

definition atoi :: "bytes \<Rightarrow> int option" where
  "atoi s =
     (let neg = (case s of c # _ \<Rightarrow> c = CHR ''-'' | [] \<Rightarrow> False);
          ds = (case s of c # t \<Rightarrow> if c = CHR ''-'' \<or> c = CHR ''+'' then t else s | [] \<Rightarrow> []);
          v = (if neg then - digits_value ds else digits_value ds)
      in if ds \<noteq> [] \<and> list_all is_digit ds \<and> - (2 ^ 63) \<le> v \<and> v < 2 ^ 63 then Some v else None)"

text \<open>\<^verbatim>\<open>strconv.Itoa\<close>.\<close>

fun digits :: "nat \<Rightarrow> string" where
  "digits n = (if n < 10 then [] else digits (n div 10)) @ [byte (48 + n mod 10)]"

declare digits.simps [simp del]

definition itoa :: "int \<Rightarrow> string" where
  "itoa n = (if n < 0 then CHR ''-'' # digits (nat (- n)) else digits (nat n))"

lemma atoi_range: "atoi s = Some v \<Longrightarrow> - (2 ^ 63) \<le> v \<and> v < 2 ^ 63"
  by (auto simp: atoi_def Let_def split: if_splits)

section \<open>Hexadecimal\<close>

definition hex_digit :: "nat \<Rightarrow> char" where
  "hex_digit n = byte (if n < 10 then 48 + n else 87 + n)"

definition from_hex :: "char \<Rightarrow> nat option" where
  "from_hex c =
     (let b = code c in
      if 48 \<le> b \<and> b \<le> 57 then Some (b - 48)
      else if 97 \<le> b \<and> b \<le> 102 then Some (b - 87)
      else if 65 \<le> b \<and> b \<le> 70 then Some (b - 55)
      else None)"

fun hex_encode :: "bytes \<Rightarrow> bytes" where
  "hex_encode [] = []"
| "hex_encode (c # s) = hex_digit (code c div 16) # hex_digit (code c mod 16) # hex_encode s"

text \<open>\<^verbatim>\<open>hex.DecodeString\<close> reports an invalid digit before an odd length.\<close>

fun hex_decode :: "bytes \<Rightarrow> bytes res" where
  "hex_decode [] = Ok []"
| "hex_decode [c] =
     (case from_hex c of
        None \<Rightarrow> Err (LibError ''encoding/hex: invalid byte'')
      | Some _ \<Rightarrow> Err (LibError ''encoding/hex: odd length hex string''))"
| "hex_decode (c # d # s) =
     (case (from_hex c, from_hex d) of
        (Some h, Some l) \<Rightarrow> res_bind (hex_decode s) (\<lambda>t. Ok (byte (16 * h + l) # t))
      | _ \<Rightarrow> Err (LibError ''encoding/hex: invalid byte''))"

lemma from_hex_digit: "n < 16 \<Longrightarrow> from_hex (hex_digit n) = Some n"
  by (simp add: from_hex_def hex_digit_def Let_def)

lemma hex_decode_encode [simp]: "hex_decode (hex_encode s) = Ok s"
proof (induction s)
  case Nil
  show ?case by simp
next
  case (Cons c s)
  have "code c div 16 < 16" using nat_of_char_less_256 [of c] by (simp add: less_mult_imp_div_less)
  then show ?case using Cons by (simp add: from_hex_digit)
qed

lemma length_hex_encode: "length (hex_encode s) = 2 * length s"
  by (induction s) auto

lemma hex_encode_inject: "hex_encode s = hex_encode t \<longleftrightarrow> s = t"
  by (metis hex_decode_encode res.inject(1))

section \<open>Base64\<close>

definition from_b64 :: "char \<Rightarrow> nat option" where
  "from_b64 c =
     (let b = code c in
      if 65 \<le> b \<and> b \<le> 90 then Some (b - 65)
      else if 97 \<le> b \<and> b \<le> 122 then Some (b - 71)
      else if 48 \<le> b \<and> b \<le> 57 then Some (b + 4)
      else if b = 43 then Some 62
      else if b = 47 then Some 63
      else None)"

definition b64_digit :: "nat \<Rightarrow> char" where
  "b64_digit n = byte (if n < 26 then 65 + n else if n < 52 then 71 + n
     else if n < 62 then n - 4 else if n = 62 then 43 else 47)"

text \<open>
  \<^verbatim>\<open>base64.StdEncoding.DecodeString\<close> skips carriage returns and newlines, reads groups of four
  digits, and accepts padding only at the very end; the unused bits of the last digit are not
  checked (\<^verbatim>\<open>Strict\<close> is off).
\<close>

fun b64_quanta :: "bytes \<Rightarrow> bytes option" where
  "b64_quanta [] = Some []"
| "b64_quanta (a # b # c # d # s) =
     (case (from_b64 a, from_b64 b) of
        (Some x, Some y) \<Rightarrow>
          (if c = CHR ''='' then
             (if d = CHR ''='' \<and> s = [] then Some [byte ((x * 4 + y div 16) mod 256)] else None)
           else (case from_b64 c of
               Some z \<Rightarrow>
                 (if d = CHR ''='' then
                    (if s = [] then Some [byte ((x * 4 + y div 16) mod 256), byte ((y * 16 + z div 4) mod 256)]
                     else None)
                  else (case from_b64 d of
                      Some w \<Rightarrow> map_option (\<lambda>t. [byte ((x * 4 + y div 16) mod 256),
                        byte ((y * 16 + z div 4) mod 256), byte ((z * 64 + w) mod 256)] @ t) (b64_quanta s)
                    | None \<Rightarrow> None))
             | None \<Rightarrow> None))
      | _ \<Rightarrow> None)"
| "b64_quanta _ = None"

definition b64_decode :: "bytes \<Rightarrow> bytes option" where
  "b64_decode s = b64_quanta (filter (\<lambda>c. c \<noteq> CHR 0x0D \<and> c \<noteq> CHR 0x0A) s)"

text \<open>The encoder, which a sender of webhooks uses.\<close>

fun b64_encode :: "bytes \<Rightarrow> bytes" where
  "b64_encode [] = []"
| "b64_encode [p] = [b64_digit (code p div 4), b64_digit (code p mod 4 * 16), CHR ''='', CHR ''='']"
| "b64_encode [p, q] =
     [b64_digit (code p div 4), b64_digit (code p mod 4 * 16 + code q div 16),
      b64_digit (code q mod 16 * 4), CHR ''='']"
| "b64_encode (p # q # r # s) =
     b64_digit (code p div 4) # b64_digit (code p mod 4 * 16 + code q div 16) #
     b64_digit (code q mod 16 * 4 + code r div 64) # b64_digit (code r mod 64) # b64_encode s"

text \<open>Decoding undoes encoding.\<close>

lemma less_64_cases: "n < 64 \<Longrightarrow> n < 26 \<or> (26 \<le> n \<and> n < 52) \<or> (52 \<le> n \<and> n < 62) \<or> n = 62 \<or> n = (63::nat)"
  by arith

lemma from_b64_digit [simp]: "n < 64 \<Longrightarrow> from_b64 (b64_digit n) = Some n"
  by (drule less_64_cases) (auto simp: from_b64_def b64_digit_def Let_def)

lemma b64_digit_plain:
  assumes "n < 64"
  shows "b64_digit n \<noteq> CHR ''=''" "b64_digit n \<noteq> CHR 0x0D" "b64_digit n \<noteq> CHR 0x0A"
proof -
  have "from_b64 (CHR ''='') = None" "from_b64 (CHR 0x0D) = None" "from_b64 (CHR 0x0A) = None"
    by (simp_all add: from_b64_def)
  with from_b64_digit [OF assms] show "b64_digit n \<noteq> CHR ''=''" "b64_digit n \<noteq> CHR 0x0D"
    "b64_digit n \<noteq> CHR 0x0A"
    by (metis option.discI)+
qed

lemma code_div: "code p div 4 < 64" "code p div 16 < 16" "code p div 64 < 4"
  "code p div 16 div 16 = 0" "code p div 64 div 4 = 0"
  using nat_of_char_less_256 [of p] by (simp_all add: less_mult_imp_div_less flip: div_mult2_eq)

lemma sextets:
  "code p mod 4 * 16 < 64" "code p mod 4 * 16 + code q div 16 < 64"
  "code q mod 16 * 4 < 64" "code q mod 16 * 4 + code r div 64 < 64" "code r mod 64 < 64"
proof -
  have m: "code p mod 4 < 4" "code q mod 16 < 16" by simp_all
  show "code p mod 4 * 16 + code q div 16 < 64" using m(1) code_div(2) [of q] by linarith
  show "code q mod 16 * 4 + code r div 64 < 64" using m(2) code_div(3) [of r] by linarith
qed simp_all

lemma byte_code_256 [simp]: "byte (code q + 256 * k) = q"
  by (metis char_of_char char_of_mod_256 mod_mult_self2)

lemma b64_quanta_encode: "b64_quanta (b64_encode s) = Some s"
  by (induction s rule: b64_encode.induct) (simp_all add: sextets code_div b64_digit_plain)

lemma b64_encode_plain: "c \<in> set (b64_encode s) \<Longrightarrow> c \<noteq> CHR 0x0D \<and> c \<noteq> CHR 0x0A"
  by (induction s rule: b64_encode.induct) (auto simp: sextets code_div b64_digit_plain)

lemma b64_decode_encode [simp]: "b64_decode (b64_encode s) = Some s"
proof -
  have "filter (\<lambda>c. c \<noteq> CHR 0x0D \<and> c \<noteq> CHR 0x0A) (b64_encode s) = b64_encode s"
    using b64_encode_plain by (auto simp: filter_id_conv)
  then show ?thesis by (simp add: b64_decode_def b64_quanta_encode)
qed

section \<open>HTTP headers\<close>

text \<open>
  A \<^verbatim>\<open>http.Header\<close> is a map from names to lists of values; the list of pairs is the map in
  one of its iteration orders.
\<close>

type_synonym header = "(string \<times> string list) list"

definition is_upper :: "char \<Rightarrow> bool" where
  "is_upper c \<longleftrightarrow> 65 \<le> code c \<and> code c \<le> 90"

definition is_lower :: "char \<Rightarrow> bool" where
  "is_lower c \<longleftrightarrow> 97 \<le> code c \<and> code c \<le> 122"

definition token_char :: "char \<Rightarrow> bool" where
  "token_char c \<longleftrightarrow> is_upper c \<or> is_lower c \<or> is_digit c \<or> c \<in> set ''!#$%&*+-.^_`|~'' \<or> code c = 39"

fun canonicalize :: "bool \<Rightarrow> string \<Rightarrow> string" where
  "canonicalize up [] = []"
| "canonicalize up (c # s) =
     (if up \<and> is_lower c then byte (code c - 32)
      else if \<not> up \<and> is_upper c then byte (code c + 32)
      else c) # canonicalize (c = CHR ''-'') s"

text \<open>\<^verbatim>\<open>http.CanonicalHeaderKey\<close>: a name with a character that may not occur in one stays as it is.\<close>

definition canonical_header_key :: "string \<Rightarrow> string" where
  "canonical_header_key s = (if list_all token_char s then canonicalize True s else s)"

definition header_get :: "header \<Rightarrow> string \<Rightarrow> string" where
  "header_get h k = (case map_of h (canonical_header_key k) of Some (v # _) \<Rightarrow> v | _ \<Rightarrow> [])"

definition header_values :: "header \<Rightarrow> string \<Rightarrow> string list" where
  "header_values h k = (case map_of h k of Some vs \<Rightarrow> vs | None \<Rightarrow> [])"

fun header_append :: "header \<Rightarrow> string \<Rightarrow> string \<Rightarrow> header" where
  "header_append [] k v = [(k, [v])]"
| "header_append ((k', vs) # h) k v =
     (if k' = k then (k, vs @ [v]) # h else (k', vs) # header_append h k v)"

definition header_add :: "header \<Rightarrow> string \<Rightarrow> string \<Rightarrow> header" where
  "header_add h k v = header_append h (canonical_header_key k) v"

lemma header_values_Nil [simp]: "header_values [] k = []"
  by (simp add: header_values_def)

lemma header_values_append:
  "header_values (header_append h k v) k' = (if k' = k then header_values h k @ [v] else header_values h k')"
  by (induction h k v rule: header_append.induct) (auto simp: header_values_def)

lemma header_values_add [simp]:
  "header_values (header_add h k v) k' =
     (if k' = canonical_header_key k then header_values h k' @ [v] else header_values h k')"
  by (auto simp: header_add_def header_values_append)

lemma keys_header_append: "fst ` set (header_append h k v) = insert k (fst ` set h)"
  by (induction h k v rule: header_append.induct) auto

lemma keys_header_add: "fst ` set (header_add h k v) = insert (canonical_header_key k) (fst ` set h)"
  by (simp add: header_add_def keys_header_append)

end
