(* ===== verification/Model.thy ===== *)
theory Model
  imports GoStd
begin

text \<open>
  \<^verbatim>\<open>internal/model\<close> and the schema of \<^verbatim>\<open>migrations/\<close>: providers, webhook events, delivery
  statuses, statistics, search requests and their validation, and the tables of the database.
\<close>

section \<open>Delivery status (model/delivery.go, migrations/00002)\<close>

text \<open>
  The column has the enum type of the migration; the Go type is a string, so a value that the Go
  code writes is cast to the enum by the database, which refuses any other string.
\<close>

datatype delivery_status = Queued | Processing | Delivered | Retrying | Failed | Replaying

abbreviation DeliveryStatusQueued :: string where "DeliveryStatusQueued \<equiv> ''queued''"
abbreviation DeliveryStatusProcessing :: string where "DeliveryStatusProcessing \<equiv> ''processing''"
abbreviation DeliveryStatusDelivered :: string where "DeliveryStatusDelivered \<equiv> ''delivered''"
abbreviation DeliveryStatusRetrying :: string where "DeliveryStatusRetrying \<equiv> ''retrying''"
abbreviation DeliveryStatusFailed :: string where "DeliveryStatusFailed \<equiv> ''failed''"

fun status_text :: "delivery_status \<Rightarrow> string" where
  "status_text Queued = ''queued''"
| "status_text Processing = ''processing''"
| "status_text Delivered = ''delivered''"
| "status_text Retrying = ''retrying''"
| "status_text Failed = ''failed''"
| "status_text Replaying = ''replaying''"

definition enum_in :: "string \<Rightarrow> delivery_status option" where
  "enum_in s = find (\<lambda>d. status_text d = s) [Queued, Processing, Delivered, Retrying, Failed, Replaying]"

lemma enum_in_text [simp]: "enum_in (status_text d) = Some d"
  by (cases d) (simp_all add: enum_in_def)

lemma enum_in_literals [simp]:
  "enum_in ''queued'' = Some Queued" "enum_in ''processing'' = Some Processing"
  "enum_in ''delivered'' = Some Delivered" "enum_in ''retrying'' = Some Retrying"
  "enum_in ''failed'' = Some Failed" "enum_in ''replaying'' = Some Replaying" "enum_in [] = None"
  by (simp_all add: enum_in_def)

lemma enum_in_Some: "enum_in s = Some d \<Longrightarrow> status_text d = s"
  unfolding enum_in_def by (drule find_SomeD) simp

section \<open>Providers (model/provider.go, migrations/00001)\<close>

abbreviation Github :: string where "Github \<equiv> ''Github''"
abbreviation Stripe :: string where "Stripe \<equiv> ''Stripe''"
abbreviation Shopify :: string where "Shopify \<equiv> ''Shopify''"

record provider =
  pr_id :: uuid
  pr_name :: string
  signing_secret :: string
  destination_url :: string
  max_retries :: int
  max_req_second :: int
  is_configured :: bool
  pr_created_at :: time

section \<open>Webhook events (model/webhook.go, migrations/00002)\<close>

record webhook =
  wh_id :: uuid
  provider_id :: uuid
  provider_name :: string
  event_id :: "string option"
  event_type :: string
  headers :: bytes
  payload :: bytes
  status :: delivery_status
  forwarded_to :: string
  response_code :: "int option"
  retry_count :: int
  next_retry_at :: "time option"
  last_error :: "string option"
  received_at :: time
  created_at :: time
  updated_at :: time

text \<open>\<^verbatim>\<open>CreateWebhookParams\<close>.\<close>

record create_params =
  cp_provider_id :: uuid
  cp_provider :: string
  cp_event_id :: "string option"
  cp_event_type :: string
  cp_headers :: bytes
  cp_payload :: bytes
  cp_forwarded_to :: string
  cp_received_at :: time

text \<open>What makes a row the event it is; nothing that happens to a stored event may change it.\<close>

definition identity :: "webhook \<Rightarrow> uuid \<times> uuid \<times> string \<times> string option \<times> string \<times> bytes \<times> bytes \<times> time \<times> time" where
  "identity w = (wh_id w, provider_id w, provider_name w, event_id w, event_type w, headers w, payload w,
     received_at w, created_at w)"

text \<open>The columns of the unique index; a NULL event id conflicts with nothing.\<close>

definition event_key :: "webhook \<Rightarrow> (uuid \<times> string) option" where
  "event_key w = map_option (\<lambda>e. (provider_id w, e)) (event_id w)"

lemma identity_key: "identity v = identity w \<Longrightarrow> event_key v = event_key w \<and> wh_id v = wh_id w"
  by (simp add: identity_def event_key_def)

section \<open>The database\<close>

record token_row =
  tk_id :: uuid
  tk_token :: string
  tk_expires_at :: time
  tk_created_at :: time

record db =
  webhook_events :: "webhook list"
  provider_rows :: "provider list"
  refresh_tokens :: "token_row list"

fun event_keys :: "webhook list \<Rightarrow> (uuid \<times> string) list" where
  "event_keys [] = []"
| "event_keys (w # ws) = (case event_key w of None \<Rightarrow> event_keys ws | Some k \<Rightarrow> k # event_keys ws)"

text \<open>The constraints on refresh tokens: a primary key, and \<open>VARCHAR(255) UNIQUE\<close>.\<close>

definition tokens_ok :: "token_row list \<Rightarrow> bool" where
  "tokens_ok ts \<longleftrightarrow> distinct (map tk_token ts) \<and> distinct (map tk_id ts) \<and>
     list_all (\<lambda>r. rune_count (tk_token r) \<le> 255) ts"

text \<open>
  The constraints of the schema: primary keys, the unique index on \<open>(provider_id, event_id)\<close>, the
  reference to a provider, unique provider names and unique tokens.
\<close>

definition schema_ok :: "db \<Rightarrow> bool" where
  "schema_ok d \<longleftrightarrow>
     distinct (map wh_id (webhook_events d)) \<and>
     distinct (event_keys (webhook_events d)) \<and>
     list_all (\<lambda>w. provider_id w \<in> pr_id ` set (provider_rows d)) (webhook_events d) \<and>
     distinct (map pr_id (provider_rows d)) \<and>
     distinct (map pr_name (provider_rows d)) \<and>
     tokens_ok (refresh_tokens d)"

lemma tokens_ok_Nil [simp]: "tokens_ok []"
  by (simp add: tokens_ok_def)

text \<open>Changing rows without touching their identity keeps the constraints on them.\<close>

lemma event_keys_cong:
  "map event_key rows = map event_key rows' \<Longrightarrow> event_keys rows = event_keys rows'"
proof (induction rows arbitrary: rows')
  case (Cons w ws)
  then obtain v vs where "rows' = v # vs" "event_key w = event_key v" "map event_key ws = map event_key vs"
    by (cases rows') auto
  with Cons.IH [of vs] show ?case by (simp split: option.split)
qed simp

lemma set_event_keys: "k \<in> set (event_keys rows) \<longleftrightarrow> (\<exists>w \<in> set rows. event_key w = Some k)"
  by (induction rows) (auto split: option.splits)

lemma event_keys_append [simp]: "event_keys (xs @ ys) = event_keys xs @ event_keys ys"
  by (induction xs) (auto split: option.splits)

lemma distinct_event_keys_filter: "distinct (event_keys rows) \<Longrightarrow> distinct (event_keys (filter P rows))"
  by (induction rows) (auto simp: set_event_keys split: option.splits)

text \<open>An update of rows that keeps their identity keeps every constraint of the schema.\<close>

lemma map_by_identity:
  assumes "map identity xs = map identity ys" and "\<And>v w. identity v = identity w \<Longrightarrow> g v = g w"
  shows "map g xs = map g ys"
  using assms(1) by (induction xs ys rule: list_induct2') (auto intro: assms(2))

lemma schema_ok_update:
  assumes ok: "schema_ok d" and same: "map identity rows = map identity (webhook_events d)"
  shows "schema_ok (d\<lparr>webhook_events := rows\<rparr>)"
proof -
  have ids: "map wh_id rows = map wh_id (webhook_events d)"
    by (rule map_by_identity [OF same]) (simp add: identity_def)
  have "map event_key rows = map event_key (webhook_events d)"
    by (rule map_by_identity [OF same]) (blast dest: identity_key)
  then have keys: "event_keys rows = event_keys (webhook_events d)" by (rule event_keys_cong)
  have "map provider_id rows = map provider_id (webhook_events d)"
    by (rule map_by_identity [OF same]) (simp add: identity_def)
  then have "provider_id ` set rows = provider_id ` set (webhook_events d)" by (metis set_map)
  then have refs: "list_all (\<lambda>w. provider_id w \<in> R) rows = list_all (\<lambda>w. provider_id w \<in> R) (webhook_events d)" for R
    by (simp add: list_all_iff flip: image_subset_iff)
  show ?thesis using ok by (simp add: schema_ok_def ids keys refs)
qed

section \<open>Statistics (model/stat.go)\<close>

record stats =
  st_delivered :: nat
  st_failed :: nat
  st_retrying :: nat
  st_queued :: nat

section \<open>Search requests (model/search.go)\<close>

definition MaxStringSearchLength :: nat where
  "MaxStringSearchLength = 255"

abbreviation LookUp :: string where "LookUp \<equiv> ''lookup''"
abbreviation Filter :: string where "Filter \<equiv> ''filter''"

record search_request =
  sr_type :: string
  sr_webhook_id :: "string option"
  sr_event_id :: "string option"
  sr_providers :: "string list"
  sr_event_type :: "string option"
  sr_delivery_statuses :: "string list"
  sr_response_code :: "int option"
  sr_from_time :: "string option"
  sr_to_time :: "string option"
  sr_payload_search :: "string option"
  sr_has_retries :: bool
  sr_has_error :: bool
  sr_offset :: int
  sr_limit :: int

record lookup_opts =
  lo_webhook_id :: "string option"
  lo_event_id :: "string option"
  lo_offset :: int
  lo_limit :: int

record filter_opts =
  fo_providers :: "string list"
  fo_event_type :: "string option"
  fo_delivery_statuses :: "string list"
  fo_response_code :: "int option"
  fo_from_time :: "time option"
  fo_to_time :: "time option"
  fo_payload_search :: "string option"
  fo_has_retries :: bool
  fo_has_error :: bool
  fo_offset :: int
  fo_limit :: int

record search_response =
  rs_events :: "webhook list"
  rs_has_more :: bool

definition ErrMissingType :: go_error where
  "ErrMissingType = Sentinel ''search type must be either lookup or filter''"
definition ErrMissingLookup :: go_error where
  "ErrMissingLookup = Sentinel ''either webhook id or event id must be provided''"
definition ErrIDTooLong :: go_error where
  "ErrIDTooLong = Sentinel ''webhook id and event id must be 255 characters or fewer''"
definition ErrNoProviders :: go_error where
  "ErrNoProviders = Sentinel ''at least one provider must be selected''"
definition ErrNoStatuses :: go_error where
  "ErrNoStatuses = Sentinel ''at least one delivery status must be selected''"
definition ErrResponseCodeRange :: go_error where
  "ErrResponseCodeRange = Sentinel ''response code must be between 100 and 511''"
definition ErrDatePairRequired :: go_error where
  "ErrDatePairRequired = Sentinel ''both from time and to time must be set together''"
definition ErrInvalidTime :: go_error where
  "ErrInvalidTime = Sentinel ''from time or to time is not a valid ISO 8601 datetime''"
definition ErrDateOrder :: go_error where
  "ErrDateOrder = Sentinel ''to time must be after from time''"
definition ErrSearchTooLong :: go_error where
  "ErrSearchTooLong = Sentinel ''payload search must be 255 characters or fewer''"
definition ErrEventTypeTooLong :: go_error where
  "ErrEventTypeTooLong = Sentinel ''event type must be 255 characters or fewer''"

definition derefStr :: "string option \<Rightarrow> string" where
  "derefStr s = (case s of None \<Rightarrow> [] | Some t \<Rightarrow> t)"

text \<open>Validation returns the first error, or \<^const>\<open>None\<close> for Go's \<^verbatim>\<open>nil\<close>.\<close>

definition validateLookup :: "search_request \<Rightarrow> go_error option" where
  "validateLookup p =
     (let wid = trim_space (derefStr (sr_webhook_id p)); evid = trim_space (derefStr (sr_event_id p))
      in if wid = [] \<and> evid = [] then Some ErrMissingLookup
         else if 255 < rune_count wid \<or> 255 < rune_count evid then Some ErrIDTooLong
         else None)"

text \<open>\<^verbatim>\<open>time.Parse(time.RFC3339, s)\<close> is the argument \<open>parse\<close>.\<close>

definition validateTimes :: "(string \<Rightarrow> time option) \<Rightarrow> search_request \<Rightarrow> go_error option" where
  "validateTimes parse p =
     (case (sr_from_time p, sr_to_time p) of
        (None, None) \<Rightarrow> None
      | (Some f, Some t) \<Rightarrow>
          (case parse f of
             None \<Rightarrow> Some ErrInvalidTime
           | Some ft \<Rightarrow>
              (case parse t of
                 None \<Rightarrow> Some ErrInvalidTime
               | Some tt \<Rightarrow> if \<not> ft < tt then Some ErrDateOrder else None))
      | _ \<Rightarrow> Some ErrDatePairRequired)"

definition validateFilter :: "(string \<Rightarrow> time option) \<Rightarrow> search_request \<Rightarrow> go_error option" where
  "validateFilter parse p =
     (if sr_providers p = [] then Some ErrNoProviders
      else if sr_delivery_statuses p = [] then Some ErrNoStatuses
      else if (case sr_response_code p of Some c \<Rightarrow> c < 100 \<or> 511 < c | None \<Rightarrow> False)
        then Some ErrResponseCodeRange
      else case validateTimes parse p of
        Some e \<Rightarrow> Some e
      | None \<Rightarrow>
         (if sr_payload_search p \<noteq> None \<and> MaxStringSearchLength < rune_count (derefStr (sr_payload_search p))
            then Some ErrSearchTooLong
          else if sr_event_type p \<noteq> None \<and> MaxStringSearchLength < rune_count (derefStr (sr_event_type p))
            then Some ErrEventTypeTooLong
          else None))"

definition Validate :: "(string \<Rightarrow> time option) \<Rightarrow> search_request \<Rightarrow> go_error option" where
  "Validate parse p =
     (if sr_type p = LookUp then validateLookup p
      else if sr_type p = Filter then validateFilter parse p
      else Some ErrMissingType)"

lemma validateLookup_None:
  assumes "validateLookup p = None"
  shows "derefStr (sr_webhook_id p) \<noteq> [] \<or> derefStr (sr_event_id p) \<noteq> []"
  using assms by (auto simp: validateLookup_def Let_def split: if_splits)

lemma validateFilter_None:
  assumes "validateFilter parse p = None"
  shows "sr_providers p \<noteq> []" "sr_delivery_statuses p \<noteq> []"
    and "\<And>c. sr_response_code p = Some c \<Longrightarrow> 100 \<le> c \<and> c \<le> 511"
    and "\<And>f t. sr_from_time p = Some f \<Longrightarrow> sr_to_time p = Some t \<Longrightarrow>
           \<exists>ft tt. parse f = Some ft \<and> parse t = Some tt \<and> ft < tt"
    and "sr_from_time p = None \<longleftrightarrow> sr_to_time p = None"
  using assms by (auto simp: validateFilter_def validateTimes_def split: if_splits option.splits)

end
