(* ===== verification/Auth.thy ===== *)
theory Auth
  imports Model
begin

text \<open>
  \<^verbatim>\<open>internal/auth/{service,refresh_token}.go\<close>: the table of refresh tokens, the issuing and
  checking of JSON web tokens, login and the rotation of refresh tokens. The JWT library is a
  parameter (\<open>jwt_lib\<close>); what the program relies on is \<open>jwt_laws\<close>.
\<close>

section \<open>The JWT library\<close>

text \<open>\<^verbatim>\<open>jwt.MapClaims\<close> as an association list; a claim is a text, a whole number or something else.\<close>

datatype claim_value = Text string | Number int | OtherValue bytes

type_synonym claims = "(string \<times> claim_value) list"

text \<open>
  \<open>jwt_sign\<close> is \<^verbatim>\<open>NewWithClaims(SigningMethodHS256, claims).SignedString(secret)\<close> and \<open>jwt_parse\<close>
  is \<^verbatim>\<open>Parse\<close> restricted to HS256, at a point in time.
\<close>

record jwt_lib =
  jwt_sign :: "bytes \<Rightarrow> claims \<Rightarrow> string res"
  jwt_parse :: "bytes \<Rightarrow> time \<Rightarrow> string \<Rightarrow> claims res"

definition ErrTokenExpired :: go_error where
  "ErrTokenExpired = Sentinel ''token is expired''"

text \<open>Claims that survive JSON: printable texts, and numbers that a \<^verbatim>\<open>float64\<close> holds exactly.\<close>

definition printable :: "string \<Rightarrow> bool" where
  "printable s \<longleftrightarrow> list_all (\<lambda>c. c = CHR '' '' \<or> (33 \<le> code c \<and> code c < 127)) s"

fun plain_claim :: "claim_value \<Rightarrow> bool" where
  "plain_claim (Text s) = printable s"
| "plain_claim (Number n) = (\<bar>n\<bar> < 2 ^ 53)"
| "plain_claim (OtherValue b) = False"

text \<open>
  The library's documented behaviour: a token it signed is accepted under the same secret before the
  second of its \<open>exp\<close> claim and yields its claims; from then on it is expired. Signing is
  deterministic and keeps whole numbers apart: one token is signed for one value of each of them.
\<close>

definition jwt_laws :: "jwt_lib \<Rightarrow> bool" where
  "jwt_laws lib \<longleftrightarrow>
     (\<forall>secret c t e now. jwt_sign lib secret c = Ok t \<longrightarrow> list_all (plain_claim \<circ> snd) c \<longrightarrow>
        map_of c ''exp'' = Some (Number e) \<longrightarrow> map_of c ''nbf'' = None \<longrightarrow>
        (if now < e * second
         then \<exists>c'. jwt_parse lib secret now t = Ok c' \<and> map_of c' = map_of c
         else \<exists>err. jwt_parse lib secret now t = Err err \<and> errors_is err ErrTokenExpired)) \<and>
     (\<forall>secret c c' t k m n. jwt_sign lib secret c = Ok t \<longrightarrow> jwt_sign lib secret c' = Ok t \<longrightarrow>
        map_of c k = Some (Number m) \<longrightarrow> map_of c' k = Some (Number n) \<longrightarrow> m = n)"

section \<open>The table of refresh tokens\<close>

type_synonym tokens = "token_row list"

definition AccessTokenTTL :: int where
  "AccessTokenTTL = 10"

definition RefreshTokenTTL :: int where
  "RefreshTokenTTL = 24"

text \<open>The column is \<open>VARCHAR(255) UNIQUE\<close>, the id a random primary key.\<close>

definition create_stmt :: "uuid \<Rightarrow> string \<Rightarrow> time \<Rightarrow> time \<Rightarrow> tokens \<Rightarrow> token_row res \<times> tokens" where
  "create_stmt i t ex iat ts =
     (if 255 < rune_count t
        then (Err (Driver (PgError ''value too long for type character varying(255)'')), ts)
      else if t \<in> tk_token ` set ts \<or> i \<in> tk_id ` set ts
        then (Err (Driver (PgError ''duplicate key value violates unique constraint'')), ts)
      else let r = \<lparr>tk_id = i, tk_token = t, tk_expires_at = ex, tk_created_at = iat\<rparr> in (Ok r, ts @ [r]))"

definition Create :: "fault \<Rightarrow> uuid \<Rightarrow> string \<Rightarrow> time \<Rightarrow> time \<Rightarrow> tokens \<Rightarrow> token_row res \<times> tokens" where
  "Create ft i t ex iat ts = call ft (create_stmt i t ex iat) ts"

definition Delete :: "fault \<Rightarrow> string \<Rightarrow> tokens \<Rightarrow> unit res \<times> tokens" where
  "Delete ft t ts = call ft (\<lambda>ts. (Ok (), filter (\<lambda>r. tk_token r \<noteq> t) ts)) ts"

definition token_exists :: "fault \<Rightarrow> string \<Rightarrow> tokens \<Rightarrow> bool res" where
  "token_exists ft t ts = ask ft (\<lambda>ts. Ok (t \<in> tk_token ` set ts)) ts"

section \<open>The service\<close>

definition ErrInvalidToken :: go_error where
  "ErrInvalidToken = Sentinel ''[Auth] invalid token''"

definition ErrInvalidCredentials :: go_error where
  "ErrInvalidCredentials = Sentinel ''[Auth] invalid email or password''"

definition ErrTokenNotFound :: go_error where
  "ErrTokenNotFound = Sentinel ''[Auth] token not found''"

definition ErrTokenKeyMissing :: go_error where
  "ErrTokenKeyMissing = Sentinel ''[Auth] missing key in token claims''"

record auth_service =
  jwtSecret :: bytes
  accessTokenTTL :: int
  refreshTokenTTL :: int

definition NewAuthService :: "string \<Rightarrow> int \<Rightarrow> int \<Rightarrow> auth_service" where
  "NewAuthService secret access refresh =
     \<lparr>jwtSecret = secret, accessTokenTTL = wrap64 (access * (60 * second)),
      refreshTokenTTL = wrap64 (refresh * (3600 * second))\<rparr>"

text \<open>
  What happens to one call: the clock when a token is parsed and when new ones are issued, the id the
  database draws, and the faults of the three statements.
\<close>

record auth_env =
  ae_parsed_at :: time
  ae_now :: time
  ae_id :: uuid
  ae_exists :: fault
  ae_delete :: fault
  ae_create :: fault

definition unix :: "time \<Rightarrow> int" where
  "unix t = t div second"

definition session_claims :: "string \<Rightarrow> string \<Rightarrow> time \<Rightarrow> time \<Rightarrow> claims" where
  "session_claims sub email ex iat =
     [(''sub'', Text (sub @ '' | '' @ email)), (''email'', Text email),
      (''exp'', Number (unix ex)), (''iat'', Number (unix iat))]"

definition GenerateAccessToken :: "jwt_lib \<Rightarrow> auth_service \<Rightarrow> string \<Rightarrow> time \<Rightarrow> time \<Rightarrow> string res" where
  "GenerateAccessToken lib s email ex iat =
     jwt_sign lib (jwtSecret s) (session_claims ''access token'' email ex iat)"

definition GenerateRefreshToken :: "jwt_lib \<Rightarrow> auth_service \<Rightarrow> string \<Rightarrow> time \<Rightarrow> time \<Rightarrow> string res" where
  "GenerateRefreshToken lib s email ex iat =
     jwt_sign lib (jwtSecret s) (session_claims ''refresh token'' email ex iat)"

definition ValidateAccessToken :: "jwt_lib \<Rightarrow> auth_service \<Rightarrow> time \<Rightarrow> string \<Rightarrow> claims res" where
  "ValidateAccessToken lib s now t =
     (case jwt_parse lib (jwtSecret s) now t of
        Err e \<Rightarrow> Err (if errors_is e ErrTokenExpired then ErrTokenExpired else ErrInvalidToken)
      | r \<Rightarrow> r)"

definition validateRefreshToken :: "jwt_lib \<Rightarrow> auth_service \<Rightarrow> auth_env \<Rightarrow> string \<Rightarrow> tokens \<Rightarrow> claims res" where
  "validateRefreshToken lib s env t ts =
     (case token_exists (ae_exists env) t ts of
        Ok True \<Rightarrow>
          (case jwt_parse lib (jwtSecret s) (ae_parsed_at env) t of
             Err e \<Rightarrow> Err (if errors_is e ErrTokenExpired then ErrTokenExpired else ErrInvalidToken)
           | r \<Rightarrow> r)
      | Ok False \<Rightarrow> Err ErrTokenNotFound
      | Err e \<Rightarrow> Err e
      | Panic \<Rightarrow> Panic)"

text \<open>The common end of login and refresh: a new pair, whose refresh token is stored.\<close>

definition issue_pair :: "jwt_lib \<Rightarrow> auth_service \<Rightarrow> auth_env \<Rightarrow> string \<Rightarrow> tokens \<Rightarrow> (string \<times> string) res \<times> tokens" where
  "issue_pair lib s env email ts =
     (let now = ae_now env in
      case GenerateAccessToken lib s email (now + accessTokenTTL s) now of
        Err e \<Rightarrow> (Err e, ts)
      | Panic \<Rightarrow> (Panic, ts)
      | Ok access \<Rightarrow>
     (case GenerateRefreshToken lib s email (now + refreshTokenTTL s) now of
        Err e \<Rightarrow> (Err e, ts)
      | Panic \<Rightarrow> (Panic, ts)
      | Ok refresh \<Rightarrow>
     (case Create (ae_create env) (ae_id env) refresh (now + refreshTokenTTL s) now ts of
        (Ok _, ts') \<Rightarrow> (Ok (access, refresh), ts')
      | (Err e, ts') \<Rightarrow> (Err e, ts')
      | (Panic, ts') \<Rightarrow> (Panic, ts'))))"

text \<open>The operator's credentials, \<^verbatim>\<open>config.Envs.UserEmail\<close> and \<^verbatim>\<open>config.Envs.UserPassword\<close>.\<close>

record credentials =
  UserEmail :: string
  UserPassword :: string

definition Login ::
  "jwt_lib \<Rightarrow> auth_service \<Rightarrow> credentials \<Rightarrow> auth_env \<Rightarrow> string \<Rightarrow> string \<Rightarrow> tokens \<Rightarrow> (string \<times> string) res \<times> tokens" where
  "Login lib s cr env email password ts =
     (if email \<noteq> UserEmail cr \<or> password \<noteq> UserPassword cr then (Err ErrInvalidCredentials, ts)
      else issue_pair lib s env email ts)"

text \<open>
  \<^verbatim>\<open>RefreshToken\<close> up to the point where the old token is deleted: the e-mail of a valid token; an
  invalid one is deleted, whatever becomes of that statement.
\<close>

definition refresh_check :: "jwt_lib \<Rightarrow> auth_service \<Rightarrow> auth_env \<Rightarrow> string \<Rightarrow> tokens \<Rightarrow> string res \<times> tokens" where
  "refresh_check lib s env t ts =
     (case validateRefreshToken lib s env t ts of
        Panic \<Rightarrow> (Panic, ts)
      | Err e \<Rightarrow>
          (if errors_is e ErrTokenNotFound then (Err ErrTokenNotFound, ts)
           else (Err e, snd (Delete (ae_delete env) t ts)))
      | Ok c \<Rightarrow>
          (case map_of c ''email'' of
             Some (Text email) \<Rightarrow> (Ok email, ts)
           | _ \<Rightarrow> (Err ErrTokenKeyMissing, ts)))"

definition refresh_rotate :: "jwt_lib \<Rightarrow> auth_service \<Rightarrow> auth_env \<Rightarrow> string \<Rightarrow> string \<Rightarrow> tokens \<Rightarrow> (string \<times> string) res \<times> tokens" where
  "refresh_rotate lib s env t email ts =
     (case Delete (ae_delete env) t ts of
        (Ok _, ts') \<Rightarrow> issue_pair lib s env email ts'
      | (Err e, ts') \<Rightarrow> (Err e, ts')
      | (Panic, ts') \<Rightarrow> (Panic, ts'))"

definition RefreshToken :: "jwt_lib \<Rightarrow> auth_service \<Rightarrow> auth_env \<Rightarrow> string \<Rightarrow> tokens \<Rightarrow> (string \<times> string) res \<times> tokens" where
  "RefreshToken lib s env t ts =
     (case refresh_check lib s env t ts of
        (Ok email, ts') \<Rightarrow> refresh_rotate lib s env t email ts'
      | (Err e, ts') \<Rightarrow> (Err e, ts')
      | (Panic, ts') \<Rightarrow> (Panic, ts'))"

definition DeleteRefreshToken :: "auth_env \<Rightarrow> string \<Rightarrow> tokens \<Rightarrow> unit res \<times> tokens" where
  "DeleteRefreshToken env t ts = Delete (ae_delete env) t ts"

section \<open>The operations as a sequence\<close>

datatype auth_op = LoginOp string string | RefreshOp string | LogoutOp string

definition auth_step ::
  "jwt_lib \<Rightarrow> auth_service \<Rightarrow> credentials \<Rightarrow> auth_env \<times> auth_op \<Rightarrow> tokens \<Rightarrow> (string \<times> string) option res \<times> tokens" where
  "auth_step lib s cr x ts =
     (case snd x of
        LoginOp email password \<Rightarrow>
          (case Login lib s cr (fst x) email password ts of (r, ts') \<Rightarrow> (res_bind r (\<lambda>p. Ok (Some p)), ts'))
      | RefreshOp t \<Rightarrow>
          (case RefreshToken lib s (fst x) t ts of (r, ts') \<Rightarrow> (res_bind r (\<lambda>p. Ok (Some p)), ts'))
      | LogoutOp t \<Rightarrow>
          (case DeleteRefreshToken (fst x) t ts of (r, ts') \<Rightarrow> (res_bind r (\<lambda>_. Ok None), ts')))"

section \<open>What the operations do to the table\<close>

abbreviation stored_tokens :: "tokens \<Rightarrow> string set" where
  "stored_tokens ts \<equiv> tk_token ` set ts"

lemma Delete_cases:
  assumes "Delete ft t ts = (r, ts')"
  obtains (deleted) "ft = NoFault" "r = Ok ()" "ts' = filter (\<lambda>r. tk_token r \<noteq> t) ts"
    | (failed) e where "r = Err (Driver e)" "ts' = ts \<or> ts' = filter (\<lambda>r. tk_token r \<noteq> t) ts"
  using assms by (cases ft) (auto simp: Delete_def call_def)

lemma Delete_state:
  "snd (Delete ft t ts) = ts \<or> snd (Delete ft t ts) = filter (\<lambda>r. tk_token r \<noteq> t) ts"
  by (cases ft) (auto simp: Delete_def call_def)

lemma create_stmt_cases:
  obtains (failed) e where "create_stmt i t ex iat ts = (Err e, ts)"
    | (created) "rune_count t \<le> 255" "t \<notin> stored_tokens ts" "i \<notin> tk_id ` set ts"
        "create_stmt i t ex iat ts =
           (Ok \<lparr>tk_id = i, tk_token = t, tk_expires_at = ex, tk_created_at = iat\<rparr>,
            ts @ [\<lparr>tk_id = i, tk_token = t, tk_expires_at = ex, tk_created_at = iat\<rparr>])"
  by (cases "255 < rune_count t"; cases "t \<in> stored_tokens ts \<or> i \<in> tk_id ` set ts")
    (auto simp: create_stmt_def Let_def)

lemma tokens_ok_create: "tokens_ok ts \<Longrightarrow> tokens_ok (snd (Create ft i t ex iat ts))"
  unfolding Create_def
proof (rule call_preserves)
  assume "tokens_ok ts"
  then show "tokens_ok (snd (create_stmt i t ex iat ts))"
    by (cases rule: create_stmt_cases [of i t ex iat ts]) (auto simp: tokens_ok_def)
qed

lemma tokens_ok_filter: "tokens_ok ts \<Longrightarrow> tokens_ok (filter P ts)"
  by (auto simp: tokens_ok_def distinct_map_filter list_all_iff)

lemma tokens_ok_delete: "tokens_ok ts \<Longrightarrow> tokens_ok (snd (Delete ft t ts))"
  using Delete_state [of ft t ts] by (auto simp: tokens_ok_filter)

text \<open>Issuing a pair either leaves the table alone or adds the new refresh token.\<close>

lemma issue_pair_state:
  obtains (unchanged) "snd (issue_pair lib s env email ts) = ts"
    | (added) refresh where
        "GenerateRefreshToken lib s email (ae_now env + refreshTokenTTL s) (ae_now env) = Ok refresh"
        "snd (issue_pair lib s env email ts) =
           snd (Create (ae_create env) (ae_id env) refresh (ae_now env + refreshTokenTTL s) (ae_now env) ts)"
  by (cases "GenerateAccessToken lib s email (ae_now env + accessTokenTTL s) (ae_now env)";
      cases "GenerateRefreshToken lib s email (ae_now env + refreshTokenTTL s) (ae_now env)")
    (auto simp: issue_pair_def Let_def split: prod.splits res.splits)

lemma issue_pair_Ok:
  assumes "issue_pair lib s env email ts = (Ok (access, refresh), ts')"
  shows "GenerateAccessToken lib s email (ae_now env + accessTokenTTL s) (ae_now env) = Ok access"
    and "GenerateRefreshToken lib s email (ae_now env + refreshTokenTTL s) (ae_now env) = Ok refresh"
    and "refresh \<notin> stored_tokens ts"
    and "ts' = ts @ [\<lparr>tk_id = ae_id env, tk_token = refresh, tk_expires_at = ae_now env + refreshTokenTTL s, tk_created_at = ae_now env\<rparr>]"
  using assms
  by (auto simp: issue_pair_def Let_def Create_def call_Ok create_stmt_def split: res.splits prod.splits if_splits)

lemma stored_after_create:
  "stored_tokens (snd (Create ft i t ex iat ts)) \<subseteq> insert t (stored_tokens ts)"
  using call_state [of ft "create_stmt i t ex iat" ts]
  by (cases rule: create_stmt_cases [of i t ex iat ts]) (auto simp: Create_def)

lemma stored_after_issue:
  assumes "x \<in> stored_tokens (snd (issue_pair lib s env email ts))"
  shows "x \<in> stored_tokens ts \<or>
    GenerateRefreshToken lib s email (ae_now env + refreshTokenTTL s) (ae_now env) = Ok x"
proof (cases rule: issue_pair_state [of lib s env email ts])
  case unchanged
  with assms show ?thesis by simp
next
  case (added refresh)
  from assms have "x \<in> insert refresh (stored_tokens ts)"
    unfolding added(2) by (rule subsetD [OF stored_after_create])
  with added(1) show ?thesis by auto
qed

lemma tokens_ok_issue: "tokens_ok ts \<Longrightarrow> tokens_ok (snd (issue_pair lib s env email ts))"
  by (cases rule: issue_pair_state [of lib s env email ts]) (auto simp: tokens_ok_create)

text \<open>The check changes the table only by deleting the token it looked at.\<close>

lemma refresh_check_state:
  "snd (refresh_check lib s env t ts) = ts \<or> snd (refresh_check lib s env t ts) = snd (Delete (ae_delete env) t ts)"
  by (auto simp: refresh_check_def split: res.splits option.splits claim_value.splits)

lemma refresh_rotate_state:
  "\<exists>ts'. (ts' = ts \<or> ts' = filter (\<lambda>r. tk_token r \<noteq> t) ts) \<and>
     (snd (refresh_rotate lib s env t email ts) = ts' \<or>
      snd (refresh_rotate lib s env t email ts) = snd (issue_pair lib s env email ts'))"
proof -
  obtain r ts' where d: "Delete (ae_delete env) t ts = (r, ts')" by fastforce
  then have "ts' = ts \<or> ts' = filter (\<lambda>r. tk_token r \<noteq> t) ts"
    using Delete_state [of "ae_delete env" t ts] by simp
  moreover have "snd (refresh_rotate lib s env t email ts) \<in> {ts', snd (issue_pair lib s env email ts')}"
    by (cases r) (simp_all add: refresh_rotate_def d)
  ultimately show ?thesis by blast
qed

lemma RefreshToken_state:
  "(\<exists>email. snd (RefreshToken lib s env t ts) = snd (refresh_rotate lib s env t email ts)) \<or>
   snd (RefreshToken lib s env t ts) = ts \<or> snd (RefreshToken lib s env t ts) = snd (Delete (ae_delete env) t ts)"
proof -
  obtain r ts' where c: "refresh_check lib s env t ts = (r, ts')" by fastforce
  have "ts' = ts" if "r = Ok email" for email
    using c that by (auto simp: refresh_check_def split: res.splits option.splits claim_value.splits if_splits)
  moreover have "ts' = ts \<or> ts' = snd (Delete (ae_delete env) t ts)"
    using refresh_check_state [of lib s env t ts] c by simp
  ultimately show ?thesis
    by (cases r) (auto simp: RefreshToken_def c)
qed

lemma tokens_ok_rotate: "tokens_ok ts \<Longrightarrow> tokens_ok (snd (refresh_rotate lib s env t email ts))"
  using refresh_rotate_state [of ts t lib s env email]
  by (elim exE conjE disjE) (simp_all add: tokens_ok_issue tokens_ok_filter)

lemma tokens_ok_step:
  assumes "tokens_ok ts"
  shows "tokens_ok (snd (auth_step lib s cr x ts))"
proof (cases "snd x")
  case (LoginOp e p)
  with assms show ?thesis
    by (auto simp: auth_step_def Login_def tokens_ok_issue split_beta)
next
  case (RefreshOp t)
  with assms show ?thesis
    using RefreshToken_state [of lib s "fst x" t ts]
    by (auto simp: auth_step_def split_beta tokens_ok_rotate tokens_ok_delete)
next
  case (LogoutOp t)
  with assms show ?thesis
    by (auto simp: auth_step_def DeleteRefreshToken_def split_beta tokens_ok_delete)
qed

section \<open>A refresh token that is gone stays gone\<close>

text \<open>\<open>issues x t\<close>: the refresh token of some pair issued at the time of \<open>x\<close> is \<open>t\<close>.\<close>

definition issues :: "jwt_lib \<Rightarrow> auth_service \<Rightarrow> auth_env \<Rightarrow> string \<Rightarrow> bool" where
  "issues lib s env t \<longleftrightarrow>
     (\<exists>email. GenerateRefreshToken lib s email (ae_now env + refreshTokenTTL s) (ae_now env) = Ok t)"

lemma jwt_numbers:
  assumes "jwt_laws lib" and "jwt_sign lib secret c = Ok t" and "jwt_sign lib secret c' = Ok t"
    and "map_of c k = Some (Number m)" and "map_of c' k = Some (Number n)"
  shows "m = n"
  using assms unfolding jwt_laws_def by blast

lemma later_token_differs:
  assumes "jwt_laws lib" and "GenerateRefreshToken lib s email ex t0 = Ok t" and "unix t0 \<noteq> unix (ae_now env)"
  shows "\<not> issues lib s env t"
proof
  assume "issues lib s env t"
  then obtain email' where "GenerateRefreshToken lib s email' (ae_now env + refreshTokenTTL s) (ae_now env) = Ok t"
    by (auto simp: issues_def)
  moreover have "map_of (session_claims ''refresh token'' e x i) ''iat'' = Some (Number (unix i))" for e x i
    by (simp add: session_claims_def)
  ultimately have "unix t0 = unix (ae_now env)"
    using assms(2) unfolding GenerateRefreshToken_def by (blast intro: jwt_numbers [OF assms(1)])
  with assms(3) show False ..
qed

lemma absent_issue:
  "t \<notin> stored_tokens ts \<Longrightarrow> \<not> issues lib s env t \<Longrightarrow> t \<notin> stored_tokens (snd (issue_pair lib s env email ts))"
  using stored_after_issue [of t lib s env email ts] by (auto simp: issues_def)

lemma absent_filter: "t \<notin> stored_tokens ts \<Longrightarrow> t \<notin> stored_tokens (filter P ts)"
  by auto

lemma absent_rotate:
  "t \<notin> stored_tokens ts \<Longrightarrow> \<not> issues lib s env t \<Longrightarrow> t \<notin> stored_tokens (snd (refresh_rotate lib s env u email ts))"
  using refresh_rotate_state [of ts u lib s env email]
  by (elim exE conjE disjE) (simp_all add: absent_issue absent_filter del: set_filter)

lemma absent_delete: "t \<notin> stored_tokens ts \<Longrightarrow> t \<notin> stored_tokens (snd (Delete ft u ts))"
  using Delete_state [of ft u ts] by auto

lemma absent_step:
  assumes "t \<notin> stored_tokens ts" and "\<not> issues lib s (fst x) t"
  shows "t \<notin> stored_tokens (snd (auth_step lib s cr x ts))"
proof (cases "snd x")
  case (LoginOp e p)
  with assms show ?thesis by (auto simp: auth_step_def Login_def split_beta dest: absent_issue)
next
  case (RefreshOp u)
  with assms show ?thesis
    using RefreshToken_state [of lib s "fst x" u ts]
    by (elim disjE exE) (simp_all add: auth_step_def split_beta absent_rotate absent_delete)
next
  case (LogoutOp u)
  with assms show ?thesis
    using absent_delete [OF assms(1)] by (auto simp: auth_step_def DeleteRefreshToken_def split_beta)
qed

lemma absent_refused:
  assumes "t \<notin> stored_tokens ts"
  shows "fst (RefreshToken lib s env t ts) = Err (case ae_exists env of NoFault \<Rightarrow> ErrTokenNotFound | Lost e \<Rightarrow> Driver e | Unacked e \<Rightarrow> Driver e)"
  using assms
  by (cases "ae_exists env")
    (auto simp: RefreshToken_def refresh_check_def validateRefreshToken_def token_exists_def ask_def ErrTokenNotFound_def)

lemma rotate_removes:
  assumes "refresh_rotate lib s env t email ts = (Ok p, ts')" and "\<not> issues lib s env t"
  shows "t \<notin> stored_tokens ts'"
proof -
  obtain r u where d: "Delete (ae_delete env) t ts = (r, u)" by fastforce
  with assms(1) have "r = Ok ()" "issue_pair lib s env email u = (Ok p, ts')"
    by (cases r; simp add: refresh_rotate_def)+
  moreover from d \<open>r = Ok ()\<close> have "u = filter (\<lambda>r. tk_token r \<noteq> t) ts"
    by (cases rule: Delete_cases) auto
  then have "t \<notin> stored_tokens u" by auto
  ultimately show ?thesis
    using absent_issue [OF _ assms(2), of u email] by simp
qed

section \<open>Tokens and the clock\<close>

text \<open>Times and e-mails that the claims of a token carry exactly.\<close>

definition carries :: "auth_service \<Rightarrow> string \<Rightarrow> time \<Rightarrow> bool" where
  "carries s email now \<longleftrightarrow> printable email \<and> \<bar>unix now\<bar> < 2 ^ 53 \<and>
     \<bar>unix (now + accessTokenTTL s)\<bar> < 2 ^ 53 \<and> \<bar>unix (now + refreshTokenTTL s)\<bar> < 2 ^ 53"

lemma session_parse:
  assumes "jwt_laws lib" and "jwt_sign lib secret (session_claims sub email ex iat) = Ok t"
    and "printable sub" and "printable email" and "\<bar>unix ex\<bar> < 2 ^ 53" and "\<bar>unix iat\<bar> < 2 ^ 53"
  shows "now < unix ex * second \<Longrightarrow>
      \<exists>c. jwt_parse lib secret now t = Ok c \<and> map_of c = map_of (session_claims sub email ex iat)"
    and "\<not> now < unix ex * second \<Longrightarrow>
      \<exists>err. jwt_parse lib secret now t = Err err \<and> errors_is err ErrTokenExpired"
proof -
  have "list_all (plain_claim \<circ> snd) (session_claims sub email ex iat)"
    "map_of (session_claims sub email ex iat) ''exp'' = Some (Number (unix ex))"
    "map_of (session_claims sub email ex iat) ''nbf'' = None"
    using assms(3-6) by (auto simp: session_claims_def printable_def)
  note law = conjunct1 [OF assms(1) [unfolded jwt_laws_def], rule_format, OF assms(2) this]
  show "now < unix ex * second \<Longrightarrow>
      \<exists>c. jwt_parse lib secret now t = Ok c \<and> map_of c = map_of (session_claims sub email ex iat)"
    using law [of now] by simp
  show "\<not> now < unix ex * second \<Longrightarrow>
      \<exists>err. jwt_parse lib secret now t = Err err \<and> errors_is err ErrTokenExpired"
    using law [of now] by simp
qed

lemma printable_subs [simp]: "printable ''access token''" "printable ''refresh token''"
  by code_simp+

text \<open>Until when a token is accepted, and what is answered afterwards.\<close>

definition valid_until :: "jwt_lib \<Rightarrow> auth_service \<Rightarrow> string \<Rightarrow> time \<Rightarrow> bool" where
  "valid_until lib s t ex \<longleftrightarrow>
     (\<forall>now. if now < unix ex * second then is_ok (ValidateAccessToken lib s now t)
            else ValidateAccessToken lib s now t = Err ErrTokenExpired)"

lemma valid_untilI:
  assumes "jwt_laws lib" and "jwt_sign lib (jwtSecret s) (session_claims sub email ex iat) = Ok t"
    and "printable sub" and "printable email" and "\<bar>unix ex\<bar> < 2 ^ 53" and "\<bar>unix iat\<bar> < 2 ^ 53"
  shows "valid_until lib s t ex"
  unfolding valid_until_def
proof
  fix now
  show "if now < unix ex * second then is_ok (ValidateAccessToken lib s now t)
        else ValidateAccessToken lib s now t = Err ErrTokenExpired"
    using session_parse [OF assms, of now] by (cases "now < unix ex * second") (auto simp: ValidateAccessToken_def)
qed

lemma stored_token_checks:
  assumes "jwt_laws lib" and "GenerateRefreshToken lib s email ex iat = Ok t"
    and "printable email" and "\<bar>unix ex\<bar> < 2 ^ 53" and "\<bar>unix iat\<bar> < 2 ^ 53"
    and "t \<in> stored_tokens ts" and "ae_exists env = NoFault" and "ae_parsed_at env < unix ex * second"
  shows "refresh_check lib s env t ts = (Ok email, ts)"
proof -
  obtain c where "jwt_parse lib (jwtSecret s) (ae_parsed_at env) t = Ok c"
    "map_of c = map_of (session_claims ''refresh token'' email ex iat)"
    using session_parse(1) [OF assms(1) assms(2) [unfolded GenerateRefreshToken_def] printable_subs(2) assms(3-5) assms(8)]
    by blast
  then show ?thesis
    using assms(6,7) by (simp add: refresh_check_def validateRefreshToken_def token_exists_def session_claims_def)
qed

section \<open>Properties\<close>

text \<open>
  C17. Login refuses every pair other than the operator's credentials and then leaves the table
  alone. When it succeeds, it has added the new refresh token to the table, once; the access token
  is accepted until the second in which its lifetime ends and is answered as expired from then on;
  and the refresh token can be exchanged, for the operator's e-mail, until its own lifetime ends.
\<close>

theorem login_opens_session:
  assumes "jwt_laws lib" and "carries s (UserEmail cr) (ae_now env)"
  shows "(email \<noteq> UserEmail cr \<or> password \<noteq> UserPassword cr \<longrightarrow>
       Login lib s cr env email password ts = (Err ErrInvalidCredentials, ts)) \<and>
    (\<forall>access refresh ts'. Login lib s cr env email password ts = (Ok (access, refresh), ts') \<longrightarrow>
       email = UserEmail cr \<and> password = UserPassword cr \<and>
       map tk_token ts' = map tk_token ts @ [refresh] \<and> refresh \<notin> stored_tokens ts \<and>
       valid_until lib s access (ae_now env + accessTokenTTL s) \<and>
       (\<forall>env'. ae_exists env' = NoFault \<longrightarrow> ae_parsed_at env' < unix (ae_now env + refreshTokenTTL s) * second \<longrightarrow>
          refresh_check lib s env' refresh ts' = (Ok email, ts')))"
proof (intro conjI allI impI)
  show "Login lib s cr env email password ts = (Err ErrInvalidCredentials, ts)"
    if "email \<noteq> UserEmail cr \<or> password \<noteq> UserPassword cr"
    using that by (simp add: Login_def)
next
  fix access refresh ts'
  assume L: "Login lib s cr env email password ts = (Ok (access, refresh), ts')"
  then show e: "email = UserEmail cr" and "password = UserPassword cr"
    by (simp_all add: Login_def split: if_splits)
  from L have "issue_pair lib s env email ts = (Ok (access, refresh), ts')"
    by (simp add: Login_def split: if_splits)
  note issued = issue_pair_Ok [OF this]
  from issued(3,4) show "map tk_token ts' = map tk_token ts @ [refresh]" "refresh \<notin> stored_tokens ts" by simp_all
  show "valid_until lib s access (ae_now env + accessTokenTTL s)"
    using assms e issued(1) by (auto simp: carries_def GenerateAccessToken_def intro!: valid_untilI)
  show "refresh_check lib s env' refresh ts' = (Ok email, ts')"
    if "ae_exists env' = NoFault" "ae_parsed_at env' < unix (ae_now env + refreshTokenTTL s) * second" for env'
    using assms e issued(2,4) that
    by (intro stored_token_checks [where ex = "ae_now env + refreshTokenTTL s" and iat = "ae_now env"])
      (auto simp: carries_def)
qed

text \<open>
  C16. A refresh token is exchanged at most once. Once a token issued in second \<open>unix t0\<close> has been
  exchanged for a new pair in a later second, then after any later sequence of logins, refreshes and
  logouts, with any faults, presenting it again is refused: it is answered as not found, or the
  database fails. The table keeps its constraints all along.
\<close>

theorem refresh_token_used_once:
  assumes "jwt_laws lib"
    and "GenerateRefreshToken lib s email (t0 + refreshTokenTTL s) t0 = Ok t"
    and "RefreshToken lib s env t ts = (Ok pair, ts')"
    and "unix t0 < unix (ae_now env)"
    and "list_all (\<lambda>x. unix t0 < unix (ae_now (fst x))) ops"
    and "tokens_ok ts"
    and "ts'' = snd (run_ops (auth_step lib s cr) ops ts')"
  shows "tokens_ok ts'' \<and> t \<notin> stored_tokens ts'' \<and>
    (\<forall>env'. \<exists>e. fst (RefreshToken lib s env' t ts'') = Err e \<and> (ae_exists env' = NoFault \<longrightarrow> e = ErrTokenNotFound))"
proof -
  have new: "\<not> issues lib s e t" if "unix t0 < unix (ae_now e)" for e
    using later_token_differs [OF assms(1,2)] that by fastforce
  obtain em u where "refresh_rotate lib s env t em u = (Ok pair, ts')"
    using assms(3) by (auto simp: RefreshToken_def split: prod.splits res.splits)
  then have "t \<notin> stored_tokens ts'" by (rule rotate_removes [OF _ new [OF assms(4)]])
  moreover have "t \<notin> stored_tokens (snd (auth_step lib s cr x us))"
    if "x \<in> set ops" "t \<notin> stored_tokens us" for x us
    using that assms(5) by (intro absent_step new) (simp_all add: list_all_iff)
  ultimately have gone: "t \<notin> stored_tokens ts''"
    unfolding assms(7) by (rule run_ops_inv [where P = "\<lambda>us. t \<notin> stored_tokens us", rotated])
  have "tokens_ok (snd (RefreshToken lib s env t ts))"
    using tokens_ok_step [OF assms(6), of lib s cr "(env, RefreshOp t)"] by (simp add: auth_step_def split_beta)
  then have "tokens_ok ts'" using assms(3) by simp
  then have "tokens_ok ts''"
    unfolding assms(7) by (rule run_ops_inv [where P = tokens_ok, rotated]) (rule tokens_ok_step)
  with gone show ?thesis by (auto simp: absent_refused)
qed

text \<open>
  C33. The exchange is not atomic: two refreshes that present the same token and both check it before
  either deletes it both succeed when they fall into different seconds. Both new refresh tokens are
  then stored, so one token has become two sessions.
\<close>

theorem refresh_race_forks_session:
  assumes "jwt_laws lib"
    and "refresh_check lib s env1 t ts = (Ok email, ts)" and "refresh_check lib s env2 t ts = (Ok email, ts)"
    and "refresh_rotate lib s env1 t email ts = (Ok (access1, refresh1), ts1)"
    and "unix (ae_now env1) \<noteq> unix (ae_now env2)"
    and "ae_delete env2 = NoFault" and "ae_create env2 = NoFault"
    and "GenerateAccessToken lib s email (ae_now env2 + accessTokenTTL s) (ae_now env2) = Ok access2"
    and "GenerateRefreshToken lib s email (ae_now env2 + refreshTokenTTL s) (ae_now env2) = Ok refresh2"
    and "rune_count refresh2 \<le> 255" and "refresh2 \<notin> stored_tokens ts" and "refresh1 \<noteq> t"
    and "ae_id env2 \<notin> tk_id ` set ts1"
  shows "\<exists>ts2. refresh_rotate lib s env2 t email ts1 = (Ok (access2, refresh2), ts2) \<and>
    {refresh1, refresh2} \<subseteq> stored_tokens ts2 \<and> refresh1 \<noteq> refresh2"
proof -
  obtain r u where d: "Delete (ae_delete env1) t ts = (r, u)" by fastforce
  with assms(4) have r: "r = Ok ()" and i: "issue_pair lib s env1 email u = (Ok (access1, refresh1), ts1)"
    by (cases r; simp add: refresh_rotate_def)+
  from d r have u: "u = filter (\<lambda>r. tk_token r \<noteq> t) ts" by (cases rule: Delete_cases) auto
  note issued = issue_pair_Ok [OF i]
  have ne: "refresh1 \<noteq> refresh2"
    using later_token_differs [OF assms(1) issued(2) assms(5)] assms(9) by (auto simp: issues_def)
  define v where "v = filter (\<lambda>r. tk_token r \<noteq> t) ts1"
  have "refresh2 \<notin> stored_tokens v" "ae_id env2 \<notin> tk_id ` set v" "refresh1 \<in> stored_tokens v"
    using assms(11,12,13) ne issued(4) u by (auto simp: v_def)
  with assms(6-10) ne show ?thesis
    by (simp add: refresh_rotate_def Delete_def issue_pair_def Create_def create_stmt_def Let_def flip: v_def)
qed

section \<open>A library that satisfies the laws\<close>

text \<open>
  A stand-in for the JWT library that the witnesses evaluate. It signs the session claims of one
  e-mail under one secret: a token is a letter for the subject and the two times in unary.
\<close>

definition unary :: "int \<Rightarrow> string" where
  "unary n = replicate (nat n) CHR ''1''"

fun sample_sign :: "bytes \<Rightarrow> claims \<Rightarrow> string res" where
  "sample_sign secret [(a, Text sub), (b, Text email), (c, Number e), (d, Number i)] =
     (if [a, b, c, d] = [''sub'', ''email'', ''exp'', ''iat''] \<and> 0 \<le> e \<and> 0 \<le> i \<and> secret = ''k'' \<and> email = ''a@b'' \<and>
         (sub = ''access token | a@b'' \<or> sub = ''refresh token | a@b'')
      then Ok ((if sub = ''access token | a@b'' then ''A'' else ''R'') @ unary e @ ''.'' @ unary i)
      else Err (LibError ''unsupported''))"
| "sample_sign secret _ = Err (LibError ''unsupported'')"

definition sample_parse :: "bytes \<Rightarrow> time \<Rightarrow> string \<Rightarrow> claims res" where
  "sample_parse secret now t =
     (let e = int (length (takeWhile (\<lambda>c. c = CHR ''1'') (tl t)));
          i = int (length (tl (dropWhile (\<lambda>c. c = CHR ''1'') (tl t))))
      in if secret \<noteq> ''k'' then Err (LibError ''signature is invalid'')
         else if e * second \<le> now then Err (Wrap [ErrTokenExpired] ''token has invalid claims'')
         else Ok [(''sub'', Text (if hd t = CHR ''A'' then ''access token | a@b'' else ''refresh token | a@b'')),
                  (''email'', Text ''a@b''), (''exp'', Number e), (''iat'', Number i)])"

definition sample_jwt :: jwt_lib where
  "sample_jwt = \<lparr>jwt_sign = sample_sign, jwt_parse = sample_parse\<rparr>"

lemma unary_times:
  assumes "0 \<le> e" and "0 \<le> i"
  shows "int (length (takeWhile (\<lambda>c. c = CHR ''1'') (unary e @ CHR ''.'' # unary i))) = e"
    and "int (length (tl (dropWhile (\<lambda>c. c = CHR ''1'') (unary e @ CHR ''.'' # unary i)))) = i"
proof -
  have all: "\<forall>x \<in> set (unary e). x = CHR ''1''" by (simp add: unary_def)
  show "int (length (takeWhile (\<lambda>c. c = CHR ''1'') (unary e @ CHR ''.'' # unary i))) = e"
    "int (length (tl (dropWhile (\<lambda>c. c = CHR ''1'') (unary e @ CHR ''.'' # unary i)))) = i"
    using all assms by (simp_all add: takeWhile_append2 dropWhile_append2) (simp_all add: unary_def)
qed

lemma sample_sign_cases:
  assumes "sample_sign secret c = Ok t"
  obtains sub e i where "secret = ''k''" "sub = ''access token | a@b'' \<or> sub = ''refresh token | a@b''"
    "c = [(''sub'', Text sub), (''email'', Text ''a@b''), (''exp'', Number e), (''iat'', Number i)]"
    "0 \<le> e" "0 \<le> i" "t = (if sub = ''access token | a@b'' then CHR ''A'' else CHR ''R'') # unary e @ CHR ''.'' # unary i"
proof (cases "(secret, c)" rule: sample_sign.cases)
  case (1 secret' a sub b email c' e d i)
  with assms show ?thesis by (intro that [of sub e i]) (auto split: if_splits)
qed (use assms in simp_all)

lemma sample_parse_signed:
  assumes "sample_sign secret c = Ok t"
  shows "\<exists>e i. map_of c ''exp'' = Some (Number e) \<and>
    sample_parse secret now t = (if e * second \<le> now then Err (Wrap [ErrTokenExpired] ''token has invalid claims'') else Ok c) \<and>
    (\<forall>k n. map_of c k = Some (Number n) \<longrightarrow> (k = ''exp'' \<and> n = e) \<or> (k = ''iat'' \<and> n = i)) \<and>
    int (length (takeWhile (\<lambda>c. c = CHR ''1'') (tl t))) = e \<and>
    int (length (tl (dropWhile (\<lambda>c. c = CHR ''1'') (tl t)))) = i"
proof -
  obtain sub e i where s: "secret = ''k''" "sub = ''access token | a@b'' \<or> sub = ''refresh token | a@b''"
    and c: "c = [(''sub'', Text sub), (''email'', Text ''a@b''), (''exp'', Number e), (''iat'', Number i)]"
    and n: "0 \<le> e" "0 \<le> i"
    and t: "t = (if sub = ''access token | a@b'' then CHR ''A'' else CHR ''R'') # unary e @ CHR ''.'' # unary i"
    by (rule sample_sign_cases [OF assms])
  have tl: "tl t = unary e @ CHR ''.'' # unary i" by (simp add: t)
  have "Text (if hd t = CHR ''A'' then ''access token | a@b'' else ''refresh token | a@b'') = Text sub"
    using s(2) by (auto simp: t)
  then show ?thesis
    by (rule_tac x = e in exI, rule_tac x = i in exI)
      (auto simp: sample_parse_def Let_def tl unary_times [OF n] s(1) c simp del: length_tl split: if_splits)
qed

lemma sample_jwt_laws: "jwt_laws sample_jwt"
  unfolding jwt_laws_def
proof (intro conjI allI impI)
  fix secret c t e now
  assume "jwt_sign sample_jwt secret c = Ok t" and "map_of c ''exp'' = Some (Number e)"
  then show "if now < e * second then \<exists>c'. jwt_parse sample_jwt secret now t = Ok c' \<and> map_of c' = map_of c
      else \<exists>err. jwt_parse sample_jwt secret now t = Err err \<and> errors_is err ErrTokenExpired"
    using sample_parse_signed [of secret c t now] by (auto simp: sample_jwt_def ErrTokenExpired_def)
next
  fix secret c c' t k m n
  assume "jwt_sign sample_jwt secret c = Ok t" "jwt_sign sample_jwt secret c' = Ok t"
    and k: "map_of c k = Some (Number m)" "map_of c' k = Some (Number n)"
  then have "sample_sign secret c = Ok t" "sample_sign secret c' = Ok t" by (simp_all add: sample_jwt_def)
  from sample_parse_signed [OF this(1), of 0] sample_parse_signed [OF this(2), of 0] k show "m = n" by auto
qed

definition sample_auth :: auth_service where
  "sample_auth = \<lparr>jwtSecret = ''k'', accessTokenTTL = 2 * second, refreshTokenTTL = 4 * second\<rparr>"

definition sample_credentials :: credentials where
  "sample_credentials = \<lparr>UserEmail = ''a@b'', UserPassword = ''pw''\<rparr>"

definition sample_at :: "time \<Rightarrow> auth_env" where
  "sample_at n = \<lparr>ae_parsed_at = n * second, ae_now = n * second, ae_id = word_of_int n,
     ae_exists = NoFault, ae_delete = NoFault, ae_create = NoFault\<rparr>"

definition sample_refresh :: "time \<Rightarrow> string" where
  "sample_refresh n = ''R'' @ unary (n + 4) @ ''.'' @ unary n"

definition sample_access :: "time \<Rightarrow> string" where
  "sample_access n = ''A'' @ unary (n + 2) @ ''.'' @ unary n"

definition sample_token :: "time \<Rightarrow> token_row" where
  "sample_token n = \<lparr>tk_id = word_of_int n, tk_token = sample_refresh n, tk_expires_at = (n + 4) * second, tk_created_at = n * second\<rparr>"

lemma sample_generates:
  "GenerateRefreshToken sample_jwt sample_auth ''a@b'' (1 * second + refreshTokenTTL sample_auth) (1 * second) = Ok (sample_refresh 1)"
  by code_simp

lemma sample_login: "Login sample_jwt sample_auth sample_credentials (sample_at 1) ''a@b'' ''pw'' [] =
    (Ok (sample_access 1, sample_refresh 1), [sample_token 1])"
  by code_simp

lemma sample_rotation:
  "RefreshToken sample_jwt sample_auth (sample_at 2) (sample_refresh 1) [sample_token 1] =
     (Ok (sample_access 2, sample_refresh 2), [sample_token 2])"
  by code_simp

theorem login_opens_session_witness:
  "valid_until sample_jwt sample_auth (sample_access 1) (3 * second) \<and>
   refresh_check sample_jwt sample_auth (sample_at 3) (sample_refresh 1) [sample_token 1] = (Ok ''a@b'', [sample_token 1])"
proof -
  have "carries sample_auth (UserEmail sample_credentials) (ae_now (sample_at 1))" by code_simp
  from conjunct2 [OF login_opens_session [OF sample_jwt_laws this], rule_format, OF sample_login]
  have "valid_until sample_jwt sample_auth (sample_access 1) (ae_now (sample_at 1) + accessTokenTTL sample_auth)"
    and "\<And>env'. ae_exists env' = NoFault \<Longrightarrow>
      ae_parsed_at env' < unix (ae_now (sample_at 1) + refreshTokenTTL sample_auth) * second \<Longrightarrow>
      refresh_check sample_jwt sample_auth env' (sample_refresh 1) [sample_token 1] = (Ok ''a@b'', [sample_token 1])"
    by blast+
  from this(1) this(2) [of "sample_at 3"] show ?thesis
    by (simp add: sample_at_def sample_auth_def unix_def)
qed

theorem refresh_token_used_once_witness:
  "fst (RefreshToken sample_jwt sample_auth (sample_at 4) (sample_refresh 1)
     (snd (run_ops (auth_step sample_jwt sample_auth sample_credentials) [(sample_at 3, LoginOp ''a@b'' ''pw'')] [sample_token 2]))) =
   Err ErrTokenNotFound"
proof -
  have "tokens_ok [sample_token 1]" "unix (1 * second) < unix (ae_now (sample_at 2))"
    "list_all (\<lambda>x. unix (1 * second) < unix (ae_now (fst x))) [(sample_at 3, LoginOp ''a@b'' ''pw'')]"
    "ae_exists (sample_at 4) = NoFault"
    by code_simp+
  then show ?thesis
    using refresh_token_used_once [where cr = sample_credentials, OF sample_jwt_laws sample_generates sample_rotation _ _ _ refl]
    by blast
qed

theorem refresh_race_forks_session_witness:
  "\<exists>ts2. refresh_rotate sample_jwt sample_auth (sample_at 3) (sample_refresh 1) ''a@b'' [sample_token 2] =
       (Ok (sample_access 3, sample_refresh 3), ts2) \<and>
     {sample_refresh 2, sample_refresh 3} \<subseteq> tk_token ` set ts2 \<and> sample_refresh 2 \<noteq> sample_refresh 3"
proof (rule refresh_race_forks_session [OF sample_jwt_laws])
  show "refresh_check sample_jwt sample_auth (sample_at 2) (sample_refresh 1) [sample_token 1] = (Ok ''a@b'', [sample_token 1])"
    by code_simp
  show "refresh_check sample_jwt sample_auth (sample_at 3) (sample_refresh 1) [sample_token 1] = (Ok ''a@b'', [sample_token 1])"
    by code_simp
  show "refresh_rotate sample_jwt sample_auth (sample_at 2) (sample_refresh 1) ''a@b'' [sample_token 1] =
      (Ok (sample_access 2, sample_refresh 2), [sample_token 2])"
    by code_simp
  show "unix (ae_now (sample_at 2)) \<noteq> unix (ae_now (sample_at 3))" by code_simp
  show "ae_delete (sample_at 3) = NoFault" "ae_create (sample_at 3) = NoFault" by (simp_all add: sample_at_def)
  show "GenerateAccessToken sample_jwt sample_auth ''a@b'' (ae_now (sample_at 3) + accessTokenTTL sample_auth) (ae_now (sample_at 3)) = Ok (sample_access 3)"
    by code_simp
  show "GenerateRefreshToken sample_jwt sample_auth ''a@b'' (ae_now (sample_at 3) + refreshTokenTTL sample_auth) (ae_now (sample_at 3)) = Ok (sample_refresh 3)"
    by code_simp
  show "rune_count (sample_refresh 3) \<le> 255" by code_simp
  show "sample_refresh 3 \<notin> tk_token ` set [sample_token 1]" by code_simp
  show "sample_refresh 2 \<noteq> sample_refresh 1" by code_simp
  show "ae_id (sample_at 3) \<notin> tk_id ` set [sample_token 2]" by code_simp
qed

text \<open>
  Two logins in the same second sign the same claims, hence the same refresh token, and the second
  one violates the uniqueness of the column.
\<close>

lemma login_twice_in_a_second:
  assumes "Login lib s cr env1 email password ts = (Ok (access, refresh), ts')"
    and "unix (ae_now env2) = unix (ae_now env1)"
    and "unix (ae_now env2 + accessTokenTTL s) = unix (ae_now env1 + accessTokenTTL s)"
    and "unix (ae_now env2 + refreshTokenTTL s) = unix (ae_now env1 + refreshTokenTTL s)"
    and "ae_create env2 = NoFault"
  shows "\<exists>msg. Login lib s cr env2 email password ts' = (Err (Driver (PgError msg)), ts')"
proof -
  have c: "email = UserEmail cr" "password = UserPassword cr" "issue_pair lib s env1 email ts = (Ok (access, refresh), ts')"
    using assms(1) by (simp_all add: Login_def split: if_splits)
  note issued = issue_pair_Ok [OF c(3)]
  have "GenerateAccessToken lib s email (ae_now env2 + accessTokenTTL s) (ae_now env2) = Ok access"
    "GenerateRefreshToken lib s email (ae_now env2 + refreshTokenTTL s) (ae_now env2) = Ok refresh"
    using issued(1,2) assms(2-4) by (simp_all add: GenerateAccessToken_def GenerateRefreshToken_def session_claims_def)
  then show ?thesis
    using c(1,2) assms(5) issued(4)
    by (auto simp: Login_def issue_pair_def Create_def create_stmt_def Let_def)
qed

end
