(* ===== verification/Http.thy ===== *)
theory Http
  imports GoStd
begin

text \<open>
  What the handlers use of \<^verbatim>\<open>net/http\<close>: requests and their cookies, reading a body up to a limit,
  responses; and \<^verbatim>\<open>internal/helpers/helpers.go\<close>, which decodes a JSON body. The JSON decoder is an
  argument: what the helper sees of it is its error, or a value and whether anything follows.
\<close>

section \<open>Requests and responses\<close>

text \<open>\<open>rq_broken\<close>: reading the body fails.\<close>

record request =
  rq_header :: header
  rq_body :: bytes
  rq_broken :: bool

abbreviation StatusOK :: nat where "StatusOK \<equiv> 200"
abbreviation StatusBadRequest :: nat where "StatusBadRequest \<equiv> 400"
abbreviation StatusUnauthorized :: nat where "StatusUnauthorized \<equiv> 401"
abbreviation StatusRequestEntityTooLarge :: nat where "StatusRequestEntityTooLarge \<equiv> 413"
abbreviation StatusUnsupportedMediaType :: nat where "StatusUnsupportedMediaType \<equiv> 415"
abbreviation StatusInternalServerError :: nat where "StatusInternalServerError \<equiv> 500"
abbreviation StatusServiceUnavailable :: nat where "StatusServiceUnavailable \<equiv> 503"

text \<open>\<^verbatim>\<open>io.ReadAll\<close> on a \<^verbatim>\<open>http.MaxBytesReader\<close>: a body over the limit is an error.\<close>

definition read_body :: "nat \<Rightarrow> request \<Rightarrow> bytes option" where
  "read_body n rq = (if rq_broken rq \<or> n < length (rq_body rq) then None else Some (rq_body rq))"

text \<open>A \<^verbatim>\<open>http.Cookie\<close> to be set; every cookie of the program is \<open>HttpOnly\<close> and \<open>SameSite=Lax\<close>.\<close>

record cookie =
  ck_name :: string
  ck_value :: string
  ck_max_age :: int
  ck_http_only :: bool
  ck_secure :: bool
  ck_same_site_lax :: bool

record http_response =
  ht_code :: nat
  ht_cookies :: "cookie list"
  ht_body :: bytes

definition write_header :: "nat \<Rightarrow> http_response" where
  "write_header c = \<lparr>ht_code = c, ht_cookies = [], ht_body = []\<rparr>"

definition http_error :: "string \<Rightarrow> nat \<Rightarrow> http_response" where
  "http_error msg c = \<lparr>ht_code = c, ht_cookies = [], ht_body = msg @ [CHR 0x0A]\<rparr>"

section \<open>Cookies of a request\<close>

text \<open>\<^verbatim>\<open>strings.Cut\<close> and \<^verbatim>\<open>textproto.TrimString\<close>.\<close>

definition cut_at :: "char \<Rightarrow> string \<Rightarrow> string \<times> string" where
  "cut_at sep s = (takeWhile (\<lambda>c. c \<noteq> sep) s, tl (dropWhile (\<lambda>c. c \<noteq> sep) s))"

definition http_space :: "char \<Rightarrow> bool" where
  "http_space c \<longleftrightarrow> c \<in> {CHR '' '', CHR 0x09, CHR 0x0A, CHR 0x0D}"

definition trim_string :: "string \<Rightarrow> string" where
  "trim_string s = rev (dropWhile http_space (rev (dropWhile http_space s)))"

lemma length_snd_cut: "s \<noteq> [] \<Longrightarrow> length (snd (cut_at sep s)) < length s"
proof -
  assume "s \<noteq> []"
  then have "0 < length s" by simp
  then show ?thesis
    using length_dropWhile_le [of "\<lambda>c. c \<noteq> sep" s] unfolding cut_at_def snd_conv length_tl by linarith
qed

function cookie_parts :: "string \<Rightarrow> string list" where
  "cookie_parts line =
     (if line = [] then [] else trim_string (fst (cut_at (CHR '';'') line)) # cookie_parts (snd (cut_at (CHR '';'') line)))"
  by auto
termination by (relation "measure length") (auto simp: length_snd_cut)

declare cookie_parts.simps [simp del]

text \<open>\<^verbatim>\<open>parseCookieValue\<close>: a pair of quotes is dropped, and every byte must be allowed.\<close>

definition cookie_byte :: "char \<Rightarrow> bool" where
  "cookie_byte c \<longleftrightarrow> 32 \<le> code c \<and> code c < 127 \<and> c \<notin> {CHR 0x22, CHR '';'', CHR 0x5C}"

definition cookie_value :: "string \<Rightarrow> string option" where
  "cookie_value v =
     (let w = (if 1 < length v \<and> hd v = CHR 0x22 \<and> last v = CHR 0x22 then butlast (tl v) else v)
      in if list_all cookie_byte w then Some w else None)"

text \<open>
  \<^verbatim>\<open>Request.Cookie(name)\<close>, for a name that is a valid token: the first readable cookie of that name.
\<close>

definition request_cookie :: "request \<Rightarrow> string \<Rightarrow> string option" where
  "request_cookie rq name =
     (case List.map_filter (\<lambda>part. case cut_at (CHR ''='') part of
             (k, v) \<Rightarrow> if part \<noteq> [] \<and> trim_string k = name then cookie_value v else None)
           (concat (map (\<lambda>line. cookie_parts (trim_string line)) (header_values (rq_header rq) ''Cookie''))) of
        v # _ \<Rightarrow> Some v
      | [] \<Rightarrow> None)"

definition ErrNoCookie :: go_error where
  "ErrNoCookie = Sentinel ''http: named cookie not present''"

section \<open>Decoding a JSON body\<close>

datatype json_error =
    SyntaxError int
  | ErrUnexpectedEOF
  | UnmarshalTypeError string int
  | UnknownField string
  | ErrEOF
  | MaxBytesError int
  | OtherError string

datatype 'a json_outcome = Decoded 'a bool | NotDecoded json_error

record malformed_request =
  mr_status :: nat
  mr_message :: string

definition MaxBodyBytes :: nat where
  "MaxBodyBytes = 1048576"

text \<open>
  \<^verbatim>\<open>strings.ToLower\<close>, as far as its result is ASCII: beside the capital letters, the dotted capital I
  (bytes C4 B0) becomes an i and the Kelvin sign (E2 84 AA) a k. Every other character outside ASCII
  stays outside, and the program only compares the result with an ASCII text.
\<close>

fun to_lower :: "string \<Rightarrow> string" where
  "to_lower [] = []"
| "to_lower (c # s) =
     (if is_upper c then byte (code c + 32) # to_lower s
      else case s of
        d # t \<Rightarrow>
          (if c = CHR 0xC4 \<and> d = CHR 0xB0 then CHR ''i'' # to_lower t
           else case t of
             e # u \<Rightarrow> if c = CHR 0xE2 \<and> d = CHR 0x84 \<and> e = CHR 0xAA then CHR ''k'' # to_lower u else c # to_lower s
           | [] \<Rightarrow> c # to_lower s)
      | [] \<Rightarrow> [c])"

text \<open>The media type: the part of the header before the first semicolon, trimmed, in lower case.\<close>

definition media_type :: "string \<Rightarrow> string" where
  "media_type ct = to_lower (trim_space (fst (cut_at (CHR '';'') ct)))"

fun malformed :: "json_error \<Rightarrow> malformed_request" where
  "malformed (SyntaxError off) = \<lparr>mr_status = StatusBadRequest,
     mr_message = ''Request body contains badly-formed JSON (at position '' @ itoa off @ '')''\<rparr>"
| "malformed ErrUnexpectedEOF = \<lparr>mr_status = StatusBadRequest, mr_message = ''Request body contains badly-formed JSON''\<rparr>"
| "malformed (UnmarshalTypeError field off) = \<lparr>mr_status = StatusBadRequest,
     mr_message = ''Request body contains an invalid value for the '' @ [CHR 0x22] @ field @ [CHR 0x22] @
       '' field (at position '' @ itoa off @ '')''\<rparr>"
| "malformed (UnknownField field) = \<lparr>mr_status = StatusBadRequest,
     mr_message = ''Request body contains unknown field '' @ field\<rparr>"
| "malformed ErrEOF = \<lparr>mr_status = StatusBadRequest, mr_message = ''Request body must not be empty''\<rparr>"
| "malformed (MaxBytesError n) = \<lparr>mr_status = StatusRequestEntityTooLarge,
     mr_message = ''Request body must not be larger than '' @ itoa n @ '' bytes''\<rparr>"
| "malformed (OtherError msg) = \<lparr>mr_status = StatusBadRequest, mr_message = msg\<rparr>"

text \<open>The decoder reads the request's body through the limit of \<open>MaxBodyBytes\<close>.\<close>

type_synonym 'a json_decoder = "nat \<Rightarrow> request \<Rightarrow> 'a json_outcome"

definition DecodeBodyJSON :: "'a json_decoder \<Rightarrow> request \<Rightarrow> malformed_request + 'a" where
  "DecodeBodyJSON dec rq =
     (let ct = header_get (rq_header rq) ''Content-Type'' in
      if ct \<noteq> [] \<and> media_type ct \<noteq> ''application/json''
      then Inl \<lparr>mr_status = StatusUnsupportedMediaType, mr_message = ''Content-Type header is not application/json''\<rparr>
      else case dec MaxBodyBytes rq of
        NotDecoded e \<Rightarrow> Inl (malformed e)
      | Decoded v at_end \<Rightarrow>
          (if at_end then Inr v
           else Inl \<lparr>mr_status = StatusBadRequest, mr_message = ''Request body must only contain a single JSON object''\<rparr>))"

lemma malformed_status: "mr_status (malformed e) \<in> {400, 413}"
  by (cases e) auto

lemma DecodeBodyJSON_status:
  "DecodeBodyJSON dec rq = Inl m \<Longrightarrow> mr_status m \<in> {400, 413, 415}"
  using malformed_status by (fastforce simp: DecodeBodyJSON_def Let_def split: json_outcome.splits if_splits)

end
