(* ===== verification/AuthHandler.thy ===== *)
theory AuthHandler
  imports Auth Http
begin

text \<open>
  \<^verbatim>\<open>internal/auth/{cookie,middleware}.go\<close> and \<^verbatim>\<open>internal/api/handler/auth.go\<close>: the session cookies,
  the middleware in front of the protected routes, and the endpoints for login, logout, refresh and
  the check of a session.
\<close>

section \<open>Cookies\<close>

definition accessCookieName :: string where
  "accessCookieName = ''access_token''"

definition refreshCookieName :: string where
  "refreshCookieName = ''refresh_token''"

definition NewAccessCookie :: "string \<Rightarrow> int \<Rightarrow> bool \<Rightarrow> cookie" where
  "NewAccessCookie v maxAge secure =
     \<lparr>ck_name = accessCookieName, ck_value = v, ck_max_age = maxAge, ck_http_only = True,
      ck_secure = secure, ck_same_site_lax = True\<rparr>"

definition NewRefreshCookie :: "string \<Rightarrow> int \<Rightarrow> bool \<Rightarrow> cookie" where
  "NewRefreshCookie v maxAge secure =
     \<lparr>ck_name = refreshCookieName, ck_value = v, ck_max_age = maxAge, ck_http_only = True,
      ck_secure = secure, ck_same_site_lax = True\<rparr>"

definition ExpiredAccessCookie :: "bool \<Rightarrow> cookie" where
  "ExpiredAccessCookie secure = NewAccessCookie [] (- 1) secure"

definition ExpiredRefreshCookie :: "bool \<Rightarrow> cookie" where
  "ExpiredRefreshCookie secure = NewRefreshCookie [] (- 1) secure"

section \<open>The middleware\<close>

text \<open>\<open>next\<close> is the handler behind the middleware, on whatever state it works.\<close>

definition Jwt ::
  "jwt_lib \<Rightarrow> auth_service \<Rightarrow> time \<Rightarrow> (request \<Rightarrow> 's \<Rightarrow> http_response res \<times> 's) \<Rightarrow> request \<Rightarrow> 's \<Rightarrow> http_response res \<times> 's" where
  "Jwt lib s now nxt rq st =
     (case request_cookie rq accessCookieName of
        None \<Rightarrow> (Ok (http_error (err_text ErrNoCookie) StatusUnauthorized), st)
      | Some t \<Rightarrow>
          (case ValidateAccessToken lib s now t of
             Err e \<Rightarrow> (Ok (http_error (err_text e) StatusUnauthorized), st)
           | Panic \<Rightarrow> (Panic, st)
           | Ok _ \<Rightarrow> nxt rq st))"

section \<open>The endpoints\<close>

record login_body =
  lb_email :: string
  lb_password :: string

text \<open>\<open>secure\<close> is \<^verbatim>\<open>!config.Envs.IsDevelopment\<close>.\<close>

definition session_response :: "bool \<Rightarrow> string \<Rightarrow> string \<Rightarrow> http_response" where
  "session_response secure access refresh =
     \<lparr>ht_code = StatusOK,
      ht_cookies = [NewAccessCookie access (AccessTokenTTL * 60) secure,
                    NewRefreshCookie refresh (RefreshTokenTTL * (60 * 60)) secure],
      ht_body = []\<rparr>"

definition login ::
  "login_body json_decoder \<Rightarrow> jwt_lib \<Rightarrow> auth_service \<Rightarrow> credentials \<Rightarrow> bool \<Rightarrow> auth_env \<Rightarrow> request \<Rightarrow> tokens \<Rightarrow>
   http_response res \<times> tokens" where
  "login dec lib s cr secure env rq ts =
     (case DecodeBodyJSON dec rq of
        Inl m \<Rightarrow> (Ok (http_error (mr_message m) (mr_status m)), ts)
      | Inr body \<Rightarrow>
          (case Login lib s cr env (lb_email body) (lb_password body) ts of
             (Ok (access, refresh), ts') \<Rightarrow> (Ok (session_response secure access refresh), ts')
           | (Err e, ts') \<Rightarrow>
               (if errors_is e ErrInvalidCredentials then (Ok (http_error (err_text e) StatusUnauthorized), ts')
                else (Ok (http_error (err_text e) StatusInternalServerError), ts'))
           | (Panic, ts') \<Rightarrow> (Panic, ts')))"

definition logout :: "bool \<Rightarrow> auth_env \<Rightarrow> request \<Rightarrow> tokens \<Rightarrow> http_response res \<times> tokens" where
  "logout secure env rq ts =
     (case request_cookie rq ''refresh_token'' of
        None \<Rightarrow> (Ok (http_error ''missing refresh token cookie'' StatusBadRequest), ts)
      | Some t \<Rightarrow>
          (case DeleteRefreshToken env t ts of
             (Err e, ts') \<Rightarrow> (Ok (http_error ''error occurred logging out'' StatusInternalServerError), ts')
           | (Panic, ts') \<Rightarrow> (Panic, ts')
           | (Ok _, ts') \<Rightarrow>
               (Ok \<lparr>ht_code = StatusOK, ht_cookies = [ExpiredAccessCookie secure, ExpiredRefreshCookie secure], ht_body = []\<rparr>, ts')))"

definition refresh_handler ::
  "jwt_lib \<Rightarrow> auth_service \<Rightarrow> bool \<Rightarrow> auth_env \<Rightarrow> request \<Rightarrow> tokens \<Rightarrow> http_response res \<times> tokens" where
  "refresh_handler lib s secure env rq ts =
     (case request_cookie rq ''refresh_token'' of
        None \<Rightarrow> (Ok (http_error (err_text ErrNoCookie) StatusBadRequest), ts)
      | Some t \<Rightarrow>
          (case RefreshToken lib s env t ts of
             (Ok (access, refresh), ts') \<Rightarrow> (Ok (session_response secure access refresh), ts')
           | (Err e, ts') \<Rightarrow>
               (if errors_is e ErrTokenExpired \<or> errors_is e ErrInvalidToken \<or> errors_is e ErrTokenNotFound \<or> errors_is e ErrTokenKeyMissing
                then (Ok (http_error (err_text e) StatusUnauthorized), ts')
                else (Ok (http_error (err_text e) StatusInternalServerError), ts'))
           | (Panic, ts') \<Rightarrow> (Panic, ts')))"

definition me :: "jwt_lib \<Rightarrow> auth_service \<Rightarrow> time \<Rightarrow> request \<Rightarrow> http_response res" where
  "me lib s now rq =
     (case request_cookie rq ''access_token'' of
        None \<Rightarrow> Ok (write_header StatusUnauthorized)
      | Some t \<Rightarrow>
          (case ValidateAccessToken lib s now t of
             Err e \<Rightarrow> Ok (write_header StatusUnauthorized)
           | Panic \<Rightarrow> Panic
           | Ok _ \<Rightarrow> Ok (write_header StatusOK)))"

section \<open>Cookies that a browser sends back\<close>

text \<open>The \<open>Cookie\<close> header of a browser that holds the two cookies of a session response.\<close>

definition cookie_line :: "cookie list \<Rightarrow> string" where
  "cookie_line cs = (case map (\<lambda>c. ck_name c @ ''='' @ ck_value c) cs of
     [] \<Rightarrow> [] | p # ps \<Rightarrow> p @ concat (map (\<lambda>q. ''; '' @ q) ps))"

definition with_cookies :: "http_response \<Rightarrow> request \<Rightarrow> request" where
  "with_cookies rsp rq = rq\<lparr>rq_header := [(''Cookie'', [cookie_line (ht_cookies rsp)])]\<rparr>"

text \<open>The characters of a token (base64url and dots, or more) that need no quoting.\<close>

definition token_text :: "string \<Rightarrow> bool" where
  "token_text t \<longleftrightarrow> list_all (\<lambda>c. 33 \<le> code c \<and> code c < 127 \<and> c \<notin> {CHR 0x22, CHR '';'', CHR 0x5C}) t"

lemma code_space: "code (CHR '' '') = 32" "code (CHR 0x09) = 9" "code (CHR 0x0A) = 10" "code (CHR 0x0D) = 13"
  by simp_all

lemma token_text_no_space: "token_text t \<Longrightarrow> c \<in> set t \<Longrightarrow> \<not> http_space c \<and> c \<noteq> CHR '';''"
proof -
  assume "token_text t" "c \<in> set t"
  then have "33 \<le> code c" "c \<noteq> CHR '';''" by (auto simp: token_text_def list_all_iff)
  then show ?thesis using code_space unfolding http_space_def by fastforce
qed

lemma trim_string_id:
  assumes "s \<noteq> [] \<Longrightarrow> \<not> http_space (hd s)" and "s \<noteq> [] \<Longrightarrow> \<not> http_space (last s)"
  shows "trim_string s = s"
proof (cases "s = []")
  case False
  with assms have "dropWhile http_space s = s" "dropWhile http_space (rev s) = rev s"
    by (simp_all add: dropWhile_eq_self_iff hd_rev)
  then show ?thesis by (simp add: trim_string_def)
qed (simp add: trim_string_def)

lemma cut_at_append: "sep \<notin> set a \<Longrightarrow> cut_at sep (a @ sep # b) = (a, b)"
  by (induction a) (auto simp: cut_at_def)

lemma cut_at_absent: "sep \<notin> set a \<Longrightarrow> cut_at sep a = (a, [])"
  by (induction a) (auto simp: cut_at_def)

lemma cookie_value_token: "token_text v \<Longrightarrow> cookie_value v = Some v"
proof -
  assume t: "token_text v"
  then have "CHR 0x22 \<notin> set v" by (auto simp: token_text_def list_all_iff)
  then have "\<not> (1 < length v \<and> hd v = CHR 0x22 \<and> last v = CHR 0x22)"
    by (cases v) auto
  moreover have "list_all cookie_byte v"
    using t unfolding token_text_def by (rule list.pred_mono_strong) (simp add: cookie_byte_def)
  ultimately show ?thesis unfolding cookie_value_def Let_def by (simp only: if_False if_True)
qed

lemma cookie_parts_Nil [simp]: "cookie_parts [] = []"
  by (simp add: cookie_parts.simps)

lemma cookie_parts_append: "CHR '';'' \<notin> set a \<Longrightarrow> cookie_parts (a @ CHR '';'' # b) = trim_string a # cookie_parts b"
  by (subst cookie_parts.simps) (simp add: cut_at_append)

lemma cookie_parts_single: "CHR '';'' \<notin> set a \<Longrightarrow> a \<noteq> [] \<Longrightarrow> cookie_parts a = [trim_string a]"
  by (subst cookie_parts.simps) (simp add: cut_at_absent)

lemma trim_named:
  assumes "token_text v"
  shows "trim_string (''access_token='' @ v) = ''access_token='' @ v"
    and "trim_string (''refresh_token='' @ v) = ''refresh_token='' @ v"
    and "trim_string ('' refresh_token='' @ v) = ''refresh_token='' @ v"
proof -
  have l: "\<not> http_space (last (p @ v))" if "p \<noteq> []" "\<not> http_space (last p)" for p
    using that token_text_no_space [OF assms, of "last v"] by (cases "v = []") auto
  show "trim_string (''access_token='' @ v) = ''access_token='' @ v"
    by (rule trim_string_id) (use l [of "''access_token=''"] in \<open>simp_all add: http_space_def\<close>)
  show r: "trim_string (''refresh_token='' @ v) = ''refresh_token='' @ v"
    by (rule trim_string_id) (use l [of "''refresh_token=''"] in \<open>simp_all add: http_space_def\<close>)
  have "trim_string ('' refresh_token='' @ v) = trim_string (''refresh_token='' @ v)"
    by (simp add: trim_string_def http_space_def)
  with r show "trim_string ('' refresh_token='' @ v) = ''refresh_token='' @ v" by simp
qed

lemma names_trimmed: "trim_string ''access_token'' = ''access_token''" "trim_string ''refresh_token'' = ''refresh_token''"
  by (simp_all add: trim_string_def http_space_def)

lemma session_cookies:
  assumes "token_text a" and "token_text r"
  shows "request_cookie (with_cookies (session_response secure a r) rq) ''access_token'' = Some a"
    and "request_cookie (with_cookies (session_response secure a r) rq) ''refresh_token'' = Some r"
proof -
  have semi: "CHR '';'' \<notin> set (''access_token='' @ a)" "CHR '';'' \<notin> set ('' refresh_token='' @ r)"
    using token_text_no_space [OF assms(1)] token_text_no_space [OF assms(2)] by auto
  have line: "cookie_line (ht_cookies (session_response secure a r)) = (''access_token='' @ a) @ CHR '';'' # '' refresh_token='' @ r"
    by (simp add: cookie_line_def session_response_def NewAccessCookie_def NewRefreshCookie_def accessCookieName_def refreshCookieName_def)
  have tr: "trim_string ((''access_token='' @ a) @ CHR '';'' # '' refresh_token='' @ r) = (''access_token='' @ a) @ CHR '';'' # '' refresh_token='' @ r"
    using token_text_no_space [OF assms(2), of "last r"]
    by (intro trim_string_id) (cases "r = []"; simp add: http_space_def)+
  have ne: "'' refresh_token='' @ r \<noteq> []" by simp
  have parts: "cookie_parts (trim_string (cookie_line (ht_cookies (session_response secure a r)))) =
      [''access_token='' @ a, ''refresh_token='' @ r]"
    unfolding line tr cookie_parts_append [OF semi(1)] cookie_parts_single [OF semi(2) ne]
      trim_named(1) [OF assms(1)] trim_named(3) [OF assms(2)] by (rule refl)
  have cuts: "cut_at (CHR ''='') (''access_token='' @ a) = (''access_token'', a)"
    "cut_at (CHR ''='') (''refresh_token='' @ r) = (''refresh_token'', r)"
    using cut_at_append [of "CHR ''=''" "''access_token''" a] cut_at_append [of "CHR ''=''" "''refresh_token''" r] by simp_all
  have lines: "header_values (rq_header (with_cookies (session_response secure a r) rq)) ''Cookie'' =
      [cookie_line (ht_cookies (session_response secure a r))]"
    by (simp add: header_values_def with_cookies_def)
  show "request_cookie (with_cookies (session_response secure a r) rq) ''access_token'' = Some a"
    "request_cookie (with_cookies (session_response secure a r) rq) ''refresh_token'' = Some r"
    unfolding request_cookie_def lines list.map concat.simps append_Nil2 parts map_filter_simps cuts
    by (simp_all add: cookie_value_token assms names_trimmed)
qed

section \<open>The middleware lets nothing else through\<close>

definition admitted :: "jwt_lib \<Rightarrow> auth_service \<Rightarrow> time \<Rightarrow> request \<Rightarrow> bool" where
  "admitted lib s now rq =
     (case request_cookie rq accessCookieName of None \<Rightarrow> False | Some t \<Rightarrow> is_ok (ValidateAccessToken lib s now t))"

lemma Jwt_admitted: "admitted lib s now rq \<Longrightarrow> Jwt lib s now nxt rq st = nxt rq st"
  by (auto simp: admitted_def Jwt_def is_ok_iff split: option.splits)

lemma Jwt_refused:
  "\<not> admitted lib s now rq \<Longrightarrow>
     snd (Jwt lib s now nxt rq st) = st \<and> (case fst (Jwt lib s now nxt rq st) of Ok rsp \<Rightarrow> ht_code rsp = 401 | r \<Rightarrow> r = Panic)"
  by (auto simp: admitted_def Jwt_def http_error_def split: option.splits res.splits)

lemma login_success:
  assumes "login dec lib s cr secure env rq ts = (Ok rsp, ts')" and "ht_code rsp = 200"
  obtains body access refresh where "DecodeBodyJSON dec rq = Inr body"
    "Login lib s cr env (lb_email body) (lb_password body) ts = (Ok (access, refresh), ts')"
    "rsp = session_response secure access refresh"
proof (cases "DecodeBodyJSON dec rq")
  case (Inl m)
  with assms show ?thesis using DecodeBodyJSON_status [OF Inl] by (auto simp: login_def http_error_def)
next
  case (Inr body)
  obtain r u where l: "Login lib s cr env (lb_email body) (lb_password body) ts = (r, u)" by fastforce
  with assms Inr have "is_ok r"
    by (cases r) (auto simp: login_def http_error_def split: if_splits)
  then obtain access refresh where "r = Ok (access, refresh)" by (auto simp: is_ok_iff)
  with assms Inr l show ?thesis by (intro that [of body access refresh]) (simp_all add: login_def)
qed

section \<open>Properties\<close>

text \<open>
  C18. A session in the browser: the cookies that a successful login sets, sent back with a later
  request, open the protected routes until the second in which the access token's lifetime ends, and
  are answered with 401 from then on. Logging out with them succeeds, leaves the table as it was
  before the login, and a refresh with them is then answered with 401.
\<close>

theorem login_cookies_open_session:
  assumes "jwt_laws lib" and "carries s (UserEmail cr) (ae_now env)"
    and "login dec lib s cr secure env rq ts = (Ok rsp, ts')" and "ht_code rsp = 200"
    and "list_all (token_text \<circ> ck_value) (ht_cookies rsp)"
    and "ae_delete env1 = NoFault" and "ae_exists env2 = NoFault"
  shows "Jwt lib s now nxt (with_cookies rsp rq') st =
      (if now < unix (ae_now env + accessTokenTTL s) * second then nxt (with_cookies rsp rq') st
       else (Ok (http_error ''token is expired'' 401), st)) \<and>
    (case logout secure env1 (with_cookies rsp rq') ts' of (out, ts'') \<Rightarrow>
       out = Ok \<lparr>ht_code = 200, ht_cookies = [ExpiredAccessCookie secure, ExpiredRefreshCookie secure], ht_body = []\<rparr> \<and>
       ts'' = ts \<and>
       refresh_handler lib s secure env2 (with_cookies rsp rq') ts'' = (Ok (http_error ''[Auth] token not found'' 401), ts''))"
proof -
  obtain body access refresh where "DecodeBodyJSON dec rq = Inr body"
    and l: "Login lib s cr env (lb_email body) (lb_password body) ts = (Ok (access, refresh), ts')"
    and rsp: "rsp = session_response secure access refresh"
    by (rule login_success [OF assms(3,4)])
  have tt: "token_text access" "token_text refresh"
    using assms(5) by (simp_all add: rsp session_response_def NewAccessCookie_def NewRefreshCookie_def)
  note cookies = session_cookies [OF tt, of secure rq', folded rsp]
  from l have "issue_pair lib s env (UserEmail cr) ts = (Ok (access, refresh), ts')"
    by (simp add: Login_def split: if_splits)
  note issued = issue_pair_Ok [OF this]
  have v: "valid_until lib s access (ae_now env + accessTokenTTL s)"
    using assms(1,2) issued(1) by (auto simp: carries_def GenerateAccessToken_def intro!: valid_untilI)
  have "Jwt lib s now nxt (with_cookies rsp rq') st =
      (if now < unix (ae_now env + accessTokenTTL s) * second then nxt (with_cookies rsp rq') st
       else (Ok (http_error ''token is expired'' 401), st))"
    using v [unfolded valid_until_def, rule_format, of now] cookies(1)
    by (auto simp: Jwt_def accessCookieName_def is_ok_iff ErrTokenExpired_def split: if_splits)
  moreover have gone: "filter (\<lambda>r. tk_token r \<noteq> refresh) ts' = ts"
    using issued(3,4) by (auto simp: filter_id_conv)
  moreover have "fst (RefreshToken lib s env2 refresh ts) = Err ErrTokenNotFound"
    "snd (RefreshToken lib s env2 refresh ts) = ts"
    using issued(3) assms(7) by (simp_all add: absent_refused RefreshToken_def refresh_check_def validateRefreshToken_def
        token_exists_def ErrTokenNotFound_def)
  then have "RefreshToken lib s env2 refresh ts = (Err ErrTokenNotFound, ts)" by (simp add: prod_eq_iff)
  ultimately show ?thesis
    using cookies(2) assms(6)
    by (simp add: logout_def refresh_handler_def DeleteRefreshToken_def Delete_def ErrTokenNotFound_def)
qed

definition sample_decoder :: "login_body json_decoder" where
  "sample_decoder n rq = Decoded \<lparr>lb_email = ''a@b'', lb_password = ''pw''\<rparr> True"

definition sample_request :: request where
  "sample_request = \<lparr>rq_header = [], rq_body = [], rq_broken = False\<rparr>"

lemma sample_login_response:
  "login sample_decoder sample_jwt sample_auth sample_credentials True (sample_at 1) sample_request [] =
     (Ok (session_response True (sample_access 1) (sample_refresh 1)), [sample_token 1])"
  unfolding login_def
  by (simp add: DecodeBodyJSON_def sample_decoder_def sample_request_def header_get_def sample_login)

theorem login_cookies_open_session_witness:
  "me sample_jwt sample_auth (2 * second) (with_cookies (session_response True (sample_access 1) (sample_refresh 1)) sample_request) =
     Ok (write_header 200) \<and>
   Jwt sample_jwt sample_auth (3 * second) (\<lambda>rq st. (Panic, st)) (with_cookies (session_response True (sample_access 1) (sample_refresh 1)) sample_request) () =
     (Ok (http_error ''token is expired'' 401), ()) \<and>
   snd (logout True (sample_at 2) (with_cookies (session_response True (sample_access 1) (sample_refresh 1)) sample_request) [sample_token 1]) = []"
proof -
  have "carries sample_auth (UserEmail sample_credentials) (ae_now (sample_at 1))"
    "ht_code (session_response True (sample_access 1) (sample_refresh 1)) = 200"
    "list_all (token_text \<circ> ck_value) (ht_cookies (session_response True (sample_access 1) (sample_refresh 1)))"
    "ae_delete (sample_at 2) = NoFault" "ae_exists (sample_at 3) = NoFault"
    "unix (ae_now (sample_at 1) + accessTokenTTL sample_auth) = 3"
    by code_simp+
  note t = login_cookies_open_session [OF sample_jwt_laws this(1) sample_login_response this(2-5), where rq' = sample_request,
      unfolded this(6)]
  have "me sample_jwt sample_auth (2 * second) (with_cookies (session_response True (sample_access 1) (sample_refresh 1)) sample_request) =
     Ok (write_header 200)" by code_simp
  then show ?thesis
    using t [of "3 * second" "\<lambda>rq st. (Panic, st)" "()"] by (auto split: prod.splits)
qed

text \<open>
  The secret and the checks of both kinds of tokens are the same, so a refresh token in the place of
  the access token opens the protected routes, for as long as the refresh token lives.
\<close>

lemma refresh_token_opens_routes:
  assumes "jwt_laws lib" and "carries s email iat"
    and "GenerateRefreshToken lib s email (iat + refreshTokenTTL s) iat = Ok t"
    and "request_cookie rq accessCookieName = Some t" and "now < unix (iat + refreshTokenTTL s) * second"
  shows "Jwt lib s now nxt rq st = nxt rq st"
proof -
  have "valid_until lib s t (iat + refreshTokenTTL s)"
    using assms(1-3) by (auto simp: carries_def GenerateRefreshToken_def intro!: valid_untilI)
  with assms(4,5) show ?thesis by (intro Jwt_admitted) (simp add: admitted_def valid_until_def split: if_splits)
qed

end
