(* ===== verification/StdCrypto.thy ===== *)
theory StdCrypto
  imports GoStd
begin

unbundle bit_operations_syntax

text \<open>
  The cryptographic primitives of Go's standard library that the program calls:
  \<^verbatim>\<open>crypto/sha256\<close> (FIPS 180-4), \<^verbatim>\<open>crypto/hmac\<close> (FIPS 198-1),
  \<^verbatim>\<open>crypto/aes\<close> (FIPS 197, keys of 16, 24 and 32 bytes) and \<^verbatim>\<open>cipher.NewGCM\<close>
  (SP 800-38D, nonces of 12 bytes, tags of 16 bytes, no additional data). All of it computes.
\<close>

type_synonym byte8 = "8 word"
type_synonym w32 = "32 word"
type_synonym block = "128 word"

definition b8 :: "char \<Rightarrow> byte8" where
  "b8 c = of_nat (code c)"

definition c8 :: "byte8 \<Rightarrow> char" where
  "c8 w = byte (unat w)"

lemma c8_b8 [simp]: "c8 (b8 c) = c"
  by (simp add: c8_def b8_def unat_of_nat)

lemma map_c8_b8 [simp]: "map c8 (map b8 s) = s"
  by (simp add: comp_def)

lemma c8_o_b8 [simp]: "c8 \<circ> b8 = id"
  by (simp add: fun_eq_iff)

section \<open>SHA-256 and HMAC\<close>

text \<open>
  The constants are the first 32 fractional bits of the cube roots of the first 64 primes, and of
  the square roots of the first 8: \<open>root_bits\<close> finds an integer root bit by bit.
\<close>

definition small_primes :: "nat list" where
  "small_primes = filter (\<lambda>n. list_all (\<lambda>d. n mod d \<noteq> 0) [2 ..< n]) [2 ..< 312]"

fun root_bits :: "nat \<Rightarrow> nat \<Rightarrow> nat \<Rightarrow> nat \<Rightarrow> nat" where
  "root_bits k n 0 r = r"
| "root_bits k n (Suc b) r = root_bits k n b (if (r + 2 ^ b) ^ k \<le> n then r + 2 ^ b else r)"

definition root_fraction :: "nat \<Rightarrow> nat \<Rightarrow> w32" where
  "root_fraction k p = of_nat (root_bits k (p * 2 ^ (32 * k)) 40 0)"

definition sha_k :: "w32 list" where
  "sha_k = map (root_fraction 3) small_primes"

definition sha_h0 :: "w32 list" where
  "sha_h0 = map (root_fraction 2) (take 8 small_primes)"

definition be_bytes :: "nat \<Rightarrow> nat \<Rightarrow> byte8 list" where
  "be_bytes n v = map (\<lambda>i. of_nat (v div 256 ^ (n - 1 - i))) [0 ..< n]"

definition be32 :: "byte8 list \<Rightarrow> w32" where
  "be32 bs = foldl (\<lambda>a b. push_bit 8 a OR ucast b) 0 bs"

fun chunks :: "nat \<Rightarrow> nat \<Rightarrow> 'a list \<Rightarrow> 'a list list" where
  "chunks 0 k xs = []"
| "chunks (Suc n) k xs = take k xs # chunks n k (drop k xs)"

definition sha_pad :: "byte8 list \<Rightarrow> byte8 list" where
  "sha_pad m = m @ [0x80] @ replicate ((119 - length m mod 64) mod 64) 0 @ be_bytes 8 (8 * length m)"

definition sha_s0 :: "w32 \<Rightarrow> w32" where
  "sha_s0 x = word_rotr 7 x XOR word_rotr 18 x XOR drop_bit 3 x"

definition sha_s1 :: "w32 \<Rightarrow> w32" where
  "sha_s1 x = word_rotr 17 x XOR word_rotr 19 x XOR drop_bit 10 x"

fun sha_schedule :: "nat \<Rightarrow> w32 list \<Rightarrow> w32 list" where
  "sha_schedule 0 w = w"
| "sha_schedule (Suc n) w =
     (let t = length w in
      sha_schedule n (w @ [sha_s1 (w ! (t - 2)) + w ! (t - 7) + sha_s0 (w ! (t - 15)) + w ! (t - 16)]))"

fun sha_round :: "w32 list \<Rightarrow> w32 \<times> w32 \<Rightarrow> w32 list" where
  "sha_round [a, b, c, d, e, f, g, h] (k, w) =
     (let t1 = h + (word_rotr 6 e XOR word_rotr 11 e XOR word_rotr 25 e) +
               ((e AND f) XOR (NOT e AND g)) + k + w;
          t2 = (word_rotr 2 a XOR word_rotr 13 a XOR word_rotr 22 a) +
               ((a AND b) XOR (a AND c) XOR (b AND c))
      in [t1 + t2, a, b, c, d + t1, e, f, g])"
| "sha_round s _ = s"

definition sha_block :: "w32 list \<Rightarrow> byte8 list \<Rightarrow> w32 list" where
  "sha_block hs bs =
     map2 (+) hs (foldl sha_round hs (zip sha_k (sha_schedule 48 (map be32 (chunks 16 4 bs)))))"

definition sha256 :: "byte8 list \<Rightarrow> byte8 list" where
  "sha256 m = (let p = sha_pad m in
     concat (map (\<lambda>w. be_bytes 4 (unat w)) (foldl sha_block sha_h0 (chunks (length p div 64) 64 p))))"

definition hmac_key :: "byte8 list \<Rightarrow> byte8 list" where
  "hmac_key k = (let k' = (if 64 < length k then sha256 k else k) in k' @ replicate (64 - length k') 0)"

definition hmac_sha256 :: "byte8 list \<Rightarrow> byte8 list \<Rightarrow> byte8 list" where
  "hmac_sha256 k m =
     sha256 (map (\<lambda>b. b XOR 0x5c) (hmac_key k) @ sha256 (map (\<lambda>b. b XOR 0x36) (hmac_key k) @ m))"

text \<open>\<^verbatim>\<open>mac := hmac.New(sha256.New, []byte(key)); mac.Write(msg); mac.Sum(nil)\<close>.\<close>

definition hmac_sum :: "bytes \<Rightarrow> bytes \<Rightarrow> bytes" where
  "hmac_sum key msg = map c8 (hmac_sha256 (map b8 key) (map b8 msg))"

section \<open>AES\<close>

definition aes_sbox :: "byte8 list" where
  "aes_sbox = [
     0x63, 0x7c, 0x77, 0x7b, 0xf2, 0x6b, 0x6f, 0xc5, 0x30, 0x1, 0x67, 0x2b, 0xfe, 0xd7, 0xab, 0x76,
     0xca, 0x82, 0xc9, 0x7d, 0xfa, 0x59, 0x47, 0xf0, 0xad, 0xd4, 0xa2, 0xaf, 0x9c, 0xa4, 0x72, 0xc0,
     0xb7, 0xfd, 0x93, 0x26, 0x36, 0x3f, 0xf7, 0xcc, 0x34, 0xa5, 0xe5, 0xf1, 0x71, 0xd8, 0x31, 0x15,
     0x4, 0xc7, 0x23, 0xc3, 0x18, 0x96, 0x5, 0x9a, 0x7, 0x12, 0x80, 0xe2, 0xeb, 0x27, 0xb2, 0x75,
     0x9, 0x83, 0x2c, 0x1a, 0x1b, 0x6e, 0x5a, 0xa0, 0x52, 0x3b, 0xd6, 0xb3, 0x29, 0xe3, 0x2f, 0x84,
     0x53, 0xd1, 0x0, 0xed, 0x20, 0xfc, 0xb1, 0x5b, 0x6a, 0xcb, 0xbe, 0x39, 0x4a, 0x4c, 0x58, 0xcf,
     0xd0, 0xef, 0xaa, 0xfb, 0x43, 0x4d, 0x33, 0x85, 0x45, 0xf9, 0x2, 0x7f, 0x50, 0x3c, 0x9f, 0xa8,
     0x51, 0xa3, 0x40, 0x8f, 0x92, 0x9d, 0x38, 0xf5, 0xbc, 0xb6, 0xda, 0x21, 0x10, 0xff, 0xf3, 0xd2,
     0xcd, 0xc, 0x13, 0xec, 0x5f, 0x97, 0x44, 0x17, 0xc4, 0xa7, 0x7e, 0x3d, 0x64, 0x5d, 0x19, 0x73,
     0x60, 0x81, 0x4f, 0xdc, 0x22, 0x2a, 0x90, 0x88, 0x46, 0xee, 0xb8, 0x14, 0xde, 0x5e, 0xb, 0xdb,
     0xe0, 0x32, 0x3a, 0xa, 0x49, 0x6, 0x24, 0x5c, 0xc2, 0xd3, 0xac, 0x62, 0x91, 0x95, 0xe4, 0x79,
     0xe7, 0xc8, 0x37, 0x6d, 0x8d, 0xd5, 0x4e, 0xa9, 0x6c, 0x56, 0xf4, 0xea, 0x65, 0x7a, 0xae, 0x8,
     0xba, 0x78, 0x25, 0x2e, 0x1c, 0xa6, 0xb4, 0xc6, 0xe8, 0xdd, 0x74, 0x1f, 0x4b, 0xbd, 0x8b, 0x8a,
     0x70, 0x3e, 0xb5, 0x66, 0x48, 0x3, 0xf6, 0xe, 0x61, 0x35, 0x57, 0xb9, 0x86, 0xc1, 0x1d, 0x9e,
     0xe1, 0xf8, 0x98, 0x11, 0x69, 0xd9, 0x8e, 0x94, 0x9b, 0x1e, 0x87, 0xe9, 0xce, 0x55, 0x28, 0xdf,
     0x8c, 0xa1, 0x89, 0xd, 0xbf, 0xe6, 0x42, 0x68, 0x41, 0x99, 0x2d, 0xf, 0xb0, 0x54, 0xbb, 0x16]"

definition sub_byte :: "byte8 \<Rightarrow> byte8" where
  "sub_byte b = aes_sbox ! unat b"

definition xtime :: "byte8 \<Rightarrow> byte8" where
  "xtime b = push_bit 1 b XOR (if bit b 7 then 0x1b else 0)"

fun rcon :: "nat \<Rightarrow> byte8" where
  "rcon 0 = 0x8d"
| "rcon (Suc n) = xtime (rcon n)"

text \<open>Key expansion over four-byte words: \<open>n\<close> more words are appended to the schedule.\<close>

definition next_key_word :: "nat \<Rightarrow> byte8 list list \<Rightarrow> byte8 list" where
  "next_key_word nk ws =
     (let i = length ws; t = ws ! (i - 1);
          t' = (if i mod nk = 0 then map2 (XOR) (map sub_byte (rotate1 t)) [rcon (i div nk), 0, 0, 0]
                else if 6 < nk \<and> i mod nk = 4 then map sub_byte t else t)
      in map2 (XOR) (ws ! (i - nk)) t')"

fun expand_key :: "nat \<Rightarrow> nat \<Rightarrow> byte8 list list \<Rightarrow> byte8 list list" where
  "expand_key 0 nk ws = ws"
| "expand_key (Suc n) nk ws = expand_key n nk (ws @ [next_key_word nk ws])"

definition round_keys :: "byte8 list \<Rightarrow> byte8 list list" where
  "round_keys key =
     (let nk = length key div 4; nr = nk + 6;
          ws = expand_key (4 * (nr + 1) - nk) nk (chunks nk 4 key)
      in map concat (chunks (nr + 1) 4 ws))"

definition shift_rows :: "byte8 list \<Rightarrow> byte8 list" where
  "shift_rows s = map (\<lambda>i. s ! i) [0, 5, 10, 15, 4, 9, 14, 3, 8, 13, 2, 7, 12, 1, 6, 11]"

fun mix_column :: "byte8 list \<Rightarrow> byte8 list" where
  "mix_column [a, b, c, d] =
     [xtime a XOR (xtime b XOR b) XOR c XOR d, a XOR xtime b XOR (xtime c XOR c) XOR d,
      a XOR b XOR xtime c XOR (xtime d XOR d), (xtime a XOR a) XOR b XOR c XOR xtime d]"
| "mix_column s = s"

definition mix_columns :: "byte8 list \<Rightarrow> byte8 list" where
  "mix_columns s = concat (map mix_column (chunks 4 4 s))"

fun aes_rounds :: "byte8 list list \<Rightarrow> byte8 list \<Rightarrow> byte8 list" where
  "aes_rounds [] s = s"
| "aes_rounds [k] s = map2 (XOR) (shift_rows (map sub_byte s)) k"
| "aes_rounds (k # ks) s = aes_rounds ks (map2 (XOR) (mix_columns (shift_rows (map sub_byte s))) k)"

definition aes_encrypt :: "byte8 list \<Rightarrow> byte8 list \<Rightarrow> byte8 list" where
  "aes_encrypt key s = (let ks = round_keys key in aes_rounds (tl ks) (map2 (XOR) s (hd ks)))"

section \<open>Galois/counter mode\<close>

definition block_bytes :: "block \<Rightarrow> byte8 list" where
  "block_bytes w = map (\<lambda>i. ucast (drop_bit (8 * (15 - i)) w)) [0 ..< 16]"

definition bytes_block :: "byte8 list \<Rightarrow> block" where
  "bytes_block bs = foldl (\<lambda>a b. push_bit 8 a OR ucast b) 0 bs"

definition aes_block :: "byte8 list \<Rightarrow> block \<Rightarrow> block" where
  "aes_block key w = bytes_block (aes_encrypt key (block_bytes w))"

text \<open>Multiplication in the field with \<open>2 ^ 128\<close> elements; the top bit is the coefficient of 1.\<close>

fun gf_mult :: "nat \<Rightarrow> block \<Rightarrow> block \<Rightarrow> block \<Rightarrow> block" where
  "gf_mult 0 x v z = z"
| "gf_mult (Suc n) x v z =
     gf_mult n x (drop_bit 1 v XOR (if bit v 0 then push_bit 120 0xe1 else 0))
       (if bit x n then z XOR v else z)"

definition ghash :: "block \<Rightarrow> block list \<Rightarrow> block" where
  "ghash h xs = foldl (\<lambda>y x. gf_mult 128 (y XOR x) h 0) 0 xs"

definition pad16 :: "byte8 list \<Rightarrow> byte8 list" where
  "pad16 bs = bs @ replicate ((16 - length bs mod 16) mod 16) 0"

definition blocks_of :: "byte8 list \<Rightarrow> block list" where
  "blocks_of bs = (let p = pad16 bs in map bytes_block (chunks (length p div 16) 16 p))"

text \<open>The counter is the low 32 bits of the block.\<close>

definition counter :: "block \<Rightarrow> nat \<Rightarrow> block" where
  "counter j n = (j AND NOT 0xffffffff) OR ((j + of_nat n) AND 0xffffffff)"

definition keystream :: "(block \<Rightarrow> block) \<Rightarrow> block \<Rightarrow> nat \<Rightarrow> byte8 list" where
  "keystream E j n = concat (map (\<lambda>i. block_bytes (E (counter j (Suc i)))) [0 ..< n])"

definition ctr_crypt :: "(block \<Rightarrow> block) \<Rightarrow> block \<Rightarrow> byte8 list \<Rightarrow> byte8 list" where
  "ctr_crypt E j bs = map2 (XOR) bs (keystream E j ((length bs + 15) div 16))"

definition gcm_tag :: "(block \<Rightarrow> block) \<Rightarrow> block \<Rightarrow> byte8 list \<Rightarrow> byte8 list" where
  "gcm_tag E j ct =
     block_bytes (ghash (E 0) (blocks_of ct @ [of_nat (8 * length ct)]) XOR E j)"

definition j0 :: "byte8 list \<Rightarrow> block" where
  "j0 nonce = bytes_block (nonce @ [0, 0, 0, 1])"

text \<open>
  \<^verbatim>\<open>gcm.Seal(nil, nonce, plaintext, nil)\<close> and \<^verbatim>\<open>gcm.Open(nil, nonce, ciphertext, nil)\<close>.
  Both bound the length of the message; \<^verbatim>\<open>Seal\<close> panics beyond the bound.
\<close>

definition gcm_max :: nat where
  "gcm_max = (2 ^ 32 - 2) * 16"

definition gcm_seal :: "bytes \<Rightarrow> bytes \<Rightarrow> bytes \<Rightarrow> bytes res" where
  "gcm_seal key nonce plaintext =
     (if gcm_max < length plaintext then Panic
      else let E = aes_block (map b8 key); j = j0 (map b8 nonce); ct = ctr_crypt E j (map b8 plaintext)
        in Ok (map c8 (ct @ gcm_tag E j ct)))"

definition gcm_open :: "bytes \<Rightarrow> bytes \<Rightarrow> bytes \<Rightarrow> bytes res" where
  "gcm_open key nonce sealed =
     (if length sealed < 16 \<or> gcm_max + 16 < length sealed
      then Err (LibError ''cipher: message authentication failed'')
      else let E = aes_block (map b8 key); j = j0 (map b8 nonce);
               n = length sealed - 16; ct = map b8 (take n sealed)
        in if map c8 (gcm_tag E j ct) = drop n sealed then Ok (map c8 (ctr_crypt E j ct))
           else Err (LibError ''cipher: message authentication failed''))"

section \<open>Authenticated encryption\<close>

text \<open>
  What a client of an AEAD mode relies on: opening accepts exactly what sealing produces, the
  sealed message is longer by a fixed overhead, and short messages can be sealed. The framing
  that puts the nonce in front of the sealed message is justified once from these laws.
\<close>

locale aead =
  fixes seal :: "bytes \<Rightarrow> bytes \<Rightarrow> bytes \<Rightarrow> bytes res"
    and open_sealed :: "bytes \<Rightarrow> bytes \<Rightarrow> bytes \<Rightarrow> bytes res"
    and overhead :: nat
    and limit :: nat
  assumes open_iff_seal: "open_sealed k n c = Ok p \<longleftrightarrow> seal k n p = Ok c"
    and length_seal: "seal k n p = Ok c \<Longrightarrow> length c = length p + overhead"
    and seal_total: "length p \<le> limit \<Longrightarrow> \<exists>c. seal k n p = Ok c"
    and open_no_panic: "open_sealed k n c \<noteq> Panic"
begin

lemma seal_inj: "seal k n p = Ok c \<Longrightarrow> seal k n q = Ok c \<Longrightarrow> p = q"
  by (metis open_iff_seal res.inject(1))

lemma framed_open:
  assumes "length f = nl + m"
  shows "open_sealed k (take nl f) (drop nl f) = Ok p \<longleftrightarrow>
    (\<exists>n c. f = n @ c \<and> length n = nl \<and> seal k n p = Ok c)" (is "?L \<longleftrightarrow> ?R")
proof
  assume ?L
  then have "seal k (take nl f) p = Ok (drop nl f)" by (simp add: open_iff_seal)
  moreover have "f = take nl f @ drop nl f" "length (take nl f) = nl" using assms by simp_all
  ultimately show ?R by blast
next
  assume ?R
  then show ?L by (auto simp: open_iff_seal)
qed

lemma short_rejected: "length c < overhead \<Longrightarrow> open_sealed k n c \<noteq> Ok p"
  using length_seal [of k n p c] by (auto simp: open_iff_seal)

end

lemma length_block_bytes [simp]: "length (block_bytes w) = 16"
  by (simp add: block_bytes_def)

lemma length_keystream: "length (keystream E j n) = 16 * n"
  by (induction n) (simp_all add: keystream_def)

lemma length_ctr_crypt [simp]: "length (ctr_crypt E j bs) = length bs"
proof -
  have "length bs \<le> 16 * ((length bs + 15) div 16)" by arith
  then show ?thesis by (simp add: ctr_crypt_def length_keystream)
qed

lemma xor_twice: "length xs \<le> length ks \<Longrightarrow> map2 (XOR) (map2 (XOR) xs ks) ks = (xs :: byte8 list)"
proof (induction xs arbitrary: ks)
  case Nil
  show ?case by simp
next
  case (Cons x xs)
  then obtain k ks' where "ks = k # ks'" by (cases ks) auto
  with Cons show ?case by (simp add: xor.assoc)
qed

lemma ctr_crypt_twice [simp]: "ctr_crypt E j (ctr_crypt E j bs) = bs"
proof -
  have "length bs \<le> length (keystream E j ((length bs + 15) div 16))"
    by (simp add: length_keystream)
  then have "map2 (XOR) (ctr_crypt E j bs) (keystream E j ((length bs + 15) div 16)) = bs"
    by (simp add: ctr_crypt_def xor_twice)
  then show ?thesis by (simp add: ctr_crypt_def [of E j "ctr_crypt E j bs"])
qed

lemma length_gcm_tag [simp]: "length (gcm_tag E j ct) = 16"
  by (simp add: gcm_tag_def)

lemma b8_c8 [simp]: "b8 (c8 w) = w"
proof -
  have "code (byte (unat w)) = unat w mod 256" by simp
  also have "\<dots> = unat w" using unsigned_less [of w, where 'a = nat] by simp
  finally show ?thesis by (simp add: b8_def c8_def)
qed

lemma map_b8_c8 [simp]: "map (b8 \<circ> c8) ws = ws"
  by (simp add: comp_def)

lemma gcm_seal_Ok:
  "gcm_seal key nonce p = Ok c \<longleftrightarrow>
     length p \<le> gcm_max \<and>
     (let E = aes_block (map b8 key); j = j0 (map b8 nonce); ct = ctr_crypt E j (map b8 p)
      in c = map c8 ct @ map c8 (gcm_tag E j ct))"
  by (auto simp: gcm_seal_def Let_def)

lemma gcm_open_seal: "gcm_seal key nonce p = Ok c \<Longrightarrow> gcm_open key nonce c = Ok p"
  by (auto simp: gcm_seal_Ok gcm_open_def Let_def)

lemma gcm_seal_open:
  assumes "gcm_open key nonce c = Ok p"
  shows "gcm_seal key nonce p = Ok c"
proof -
  define n E j where "n = length c - 16" and "E = aes_block (map b8 key)" and "j = j0 (map b8 nonce)"
  define ct where "ct = map b8 (take n c)"
  have len: "16 \<le> length c" "length c \<le> gcm_max + 16"
    and tag: "map c8 (gcm_tag E j ct) = drop n c" and p: "p = map c8 (ctr_crypt E j ct)"
    using assms by (auto simp: gcm_open_def Let_def n_def E_def j_def ct_def split: if_splits)
  have "map b8 p = ctr_crypt E j ct" using p by simp
  moreover have "map c8 ct = take n c" by (simp add: ct_def)
  moreover have "length p \<le> gcm_max" using len p by (simp add: ct_def n_def)
  ultimately show ?thesis
    using tag by (simp add: gcm_seal_Ok Let_def E_def j_def)
qed

interpretation gcm: aead gcm_seal gcm_open 16 gcm_max
proof
  fix k n c p :: bytes
  show "gcm_open k n c = Ok p \<longleftrightarrow> gcm_seal k n p = Ok c"
    by (blast intro: gcm_open_seal gcm_seal_open)
  show "gcm_seal k n p = Ok c \<Longrightarrow> length c = length p + 16"
    by (auto simp: gcm_seal_Ok Let_def)
  show "length p \<le> gcm_max \<Longrightarrow> \<exists>c. gcm_seal k n p = Ok c"
    by (simp add: gcm_seal_def Let_def)
  show "gcm_open k n c \<noteq> Panic"
    by (simp add: gcm_open_def Let_def)
qed

end
