(* ===== verification/Crypto.thy ===== *)
theory Crypto
  imports StdCrypto
begin

text \<open>
  \<^verbatim>\<open>internal/crypto/crypto.go\<close>: the encryption of provider signing secrets at rest. The master
  key (\<^verbatim>\<open>config.Envs.MasterKey\<close>) and the bytes read from \<^verbatim>\<open>rand.Reader\<close> are arguments.
\<close>

definition ErrEncryption :: go_error where
  "ErrEncryption = Sentinel ''error encrypting provider signing key''"

definition ErrDecryption :: go_error where
  "ErrDecryption = Sentinel ''error decrypting provider signing key''"

text \<open>\<^verbatim>\<open>aes.NewCipher\<close> accepts keys for AES-128, AES-192 and AES-256.\<close>

definition aes_new_cipher :: "bytes \<Rightarrow> unit res" where
  "aes_new_cipher key =
     (if length key \<in> {16, 24, 32} then Ok () else Err (LibError ''crypto/aes: invalid key size''))"

abbreviation nonce_size :: nat where
  "nonce_size \<equiv> 12"

definition EncryptSigningKey :: "bytes \<Rightarrow> bytes res \<Rightarrow> bytes \<Rightarrow> bytes res" where
  "EncryptSigningKey masterKey randRead plaintext =
     (case aes_new_cipher masterKey of
        Err e \<Rightarrow> Err (errorf2 ErrEncryption e)
      | Panic \<Rightarrow> Panic
      | Ok _ \<Rightarrow>
         (case randRead of
            Err e \<Rightarrow> Err (errorf2 ErrEncryption e)
          | Panic \<Rightarrow> Panic
          | Ok nonce \<Rightarrow> res_bind (gcm_seal masterKey nonce plaintext) (\<lambda>c. Ok (hex_encode (nonce @ c)))))"

text \<open>The slice expressions panic on fewer than \<^const>\<open>nonce_size\<close> decoded bytes.\<close>

definition DecryptSigningKey :: "bytes \<Rightarrow> bytes \<Rightarrow> bytes res" where
  "DecryptSigningKey masterKey encoded =
     (if encoded = [] then Ok []
      else case hex_decode encoded of
        Err e \<Rightarrow> Err (errorf2 ErrDecryption e)
      | Panic \<Rightarrow> Panic
      | Ok decoded \<Rightarrow>
         (case aes_new_cipher masterKey of
            Err e \<Rightarrow> Err (errorf2 ErrDecryption e)
          | Panic \<Rightarrow> Panic
          | Ok _ \<Rightarrow>
             (if length decoded < nonce_size then Panic
              else case gcm_open masterKey (take nonce_size decoded) (drop nonce_size decoded) of
                Err e \<Rightarrow> Err (errorf2 ErrDecryption e)
              | Panic \<Rightarrow> Panic
              | Ok plaintext \<Rightarrow> Ok plaintext)))"

lemma aes_new_cipher_Ok [simp]: "aes_new_cipher key = Ok u \<longleftrightarrow> length key \<in> {16, 24, 32}"
  by (cases u) (simp add: aes_new_cipher_def)

lemma aes_new_cipher_no_panic [simp]: "aes_new_cipher key \<noteq> Panic"
  by (simp add: aes_new_cipher_def)

lemma hex_decode_no_panic [simp]: "hex_decode s \<noteq> Panic"
proof (induction s rule: hex_decode.induct)
  case (3 c d s)
  then show ?case by (cases "from_hex c"; cases "from_hex d"; cases "hex_decode s") auto
qed (auto split: option.splits)

lemma EncryptSigningKey_Ok:
  "EncryptSigningKey mk rd p = Ok enc \<longleftrightarrow>
     length mk \<in> {16, 24, 32} \<and> (\<exists>n c. rd = Ok n \<and> gcm_seal mk n p = Ok c \<and> enc = hex_encode (n @ c))"
  by (cases "aes_new_cipher mk"; cases rd; cases "gcm_seal mk (case rd of Ok n \<Rightarrow> n) p")
    (auto simp: EncryptSigningKey_def aes_new_cipher_def split: if_splits)

lemma DecryptSigningKey_Nil [simp]: "DecryptSigningKey mk [] = Ok []"
  by (simp add: DecryptSigningKey_def)

lemma DecryptSigningKey_Ok:
  assumes "enc \<noteq> []"
  shows "DecryptSigningKey mk enc = Ok p \<longleftrightarrow>
    length mk \<in> {16, 24, 32} \<and>
    (\<exists>n c. hex_decode enc = Ok (n @ c) \<and> length n = nonce_size \<and> gcm_seal mk n p = Ok c)"
proof (cases "hex_decode enc")
  case (Ok d)
  show ?thesis
  proof (cases "length d < nonce_size")
    case True
    with Ok assms show ?thesis
      by (auto simp: DecryptSigningKey_def aes_new_cipher_def split: res.splits)
  next
    case False
    then obtain m where m: "length d = nonce_size + m" by (metis add_diff_inverse)
    from False Ok assms
    have "DecryptSigningKey mk enc = Ok p \<longleftrightarrow>
      length mk \<in> {16, 24, 32} \<and> gcm_open mk (take nonce_size d) (drop nonce_size d) = Ok p"
      by (auto simp: DecryptSigningKey_def aes_new_cipher_def split: res.splits)
    also have "\<dots> \<longleftrightarrow> length mk \<in> {16, 24, 32} \<and>
      (\<exists>n c. d = n @ c \<and> length n = nonce_size \<and> gcm_seal mk n p = Ok c)"
      using gcm.framed_open [OF m, of mk p] by simp
    finally show ?thesis using Ok by auto
  qed
qed (use assms in \<open>simp_all add: DecryptSigningKey_def\<close>)

text \<open>The errors of both operations carry their sentinel.\<close>

lemma DecryptSigningKey_Err: "DecryptSigningKey mk enc = Err e \<Longrightarrow> errors_is e ErrDecryption"
  by (auto simp: DecryptSigningKey_def ErrDecryption_def split: if_splits res.splits)

lemma EncryptSigningKey_total:
  assumes "length mk \<in> {16, 24, 32}" and "length p \<le> gcm_max"
  shows "\<exists>enc. EncryptSigningKey mk (Ok n) p = Ok enc"
  using assms gcm.seal_total [OF assms(2), of mk n] by (auto simp: EncryptSigningKey_Ok)

lemma EncryptSigningKey_decrypts:
  assumes "EncryptSigningKey mk rd p = Ok enc" and "rd = Ok n" and "length n = nonce_size"
  shows "DecryptSigningKey mk enc = Ok p"
proof -
  obtain c where c: "length mk \<in> {16, 24, 32}" "gcm_seal mk n p = Ok c" "enc = hex_encode (n @ c)"
    using assms by (auto simp: EncryptSigningKey_Ok)
  have "enc \<noteq> []" using assms(3) c(3) length_hex_encode [of "n @ c"] by auto
  then show ?thesis using c assms(3) by (auto simp: DecryptSigningKey_Ok)
qed

section \<open>Properties\<close>

text \<open>
  C27. A signing secret that was encrypted is returned unchanged by decryption under the same master
  key, whatever nonce was drawn: for every key that \<^verbatim>\<open>aes.NewCipher\<close> accepts and every secret
  within the message limit of GCM, encryption succeeds and decrypting its result gives the secret.
\<close>

theorem decrypt_encrypt:
  assumes "length mk \<in> {16, 24, 32}" and "length n = nonce_size" and "length p \<le> gcm_max"
  shows "\<exists>enc. EncryptSigningKey mk (Ok n) p = Ok enc \<and> enc \<noteq> [] \<and> DecryptSigningKey mk enc = Ok p"
proof -
  obtain enc where enc: "EncryptSigningKey mk (Ok n) p = Ok enc"
    using EncryptSigningKey_total [OF assms(1,3)] by blast
  then obtain c where "enc = hex_encode (n @ c)" by (auto simp: EncryptSigningKey_Ok)
  then have "enc \<noteq> []" using assms(2) length_hex_encode [of "n @ c"] by auto
  moreover have "DecryptSigningKey mk enc = Ok p"
    by (rule EncryptSigningKey_decrypts [OF enc refl assms(2)])
  ultimately show ?thesis using enc by blast
qed

theorem decrypt_encrypt_witness:
  "\<exists>enc. EncryptSigningKey (replicate 32 CHR ''k'') (Ok (replicate 12 CHR ''n'')) ''whsec_test_secret'' = Ok enc
     \<and> enc \<noteq> [] \<and> DecryptSigningKey (replicate 32 CHR ''k'') enc = Ok ''whsec_test_secret''"
  by (rule decrypt_encrypt) (simp_all add: gcm_max_def)


end
