(* ===== verification/EventsRepo.thy ===== *)
theory EventsRepo
  imports Model
begin

text \<open>
  \<^verbatim>\<open>internal/events/repository.go\<close>: the statements on the table of webhook events that the API
  uses. Each SQL statement is an operation on the rows. The faults of the calls, the clock of the
  database, generated identifiers, PostgreSQL's \<open>jsonb\<close> conversion, the text form of a UUID and
  \<open>ILIKE\<close> are arguments.
\<close>

definition ErrInvalidUUID :: go_error where
  "ErrInvalidUUID = Sentinel ''invalid uuid received''"

definition ErrHookExists :: go_error where
  "ErrHookExists = Sentinel ''webhook already exists''"

text \<open>\<^verbatim>\<open>pgx.ErrNoRows\<close>, which \<^verbatim>\<open>QueryRow(...).Scan\<close> returns when there is no row.\<close>

definition ErrNoRows :: go_error where
  "ErrNoRows = Sentinel ''no rows in result set''"

lemmas repo_errors = ErrInvalidUUID_def ErrHookExists_def ErrNoRows_def

section \<open>Inserting and looking for an event\<close>

record insert_env =
  ie_fault :: fault
  ie_jsonb :: "bytes \<Rightarrow> bytes option"
  ie_new_id :: uuid
  ie_now :: time

definition new_row :: "insert_env \<Rightarrow> create_params \<Rightarrow> bytes \<Rightarrow> bytes \<Rightarrow> webhook" where
  "new_row ie p h b = \<lparr>wh_id = ie_new_id ie, provider_id = cp_provider_id p, provider_name = cp_provider p,
     event_id = cp_event_id p, event_type = cp_event_type p, headers = h, payload = b,
     status = Queued, forwarded_to = cp_forwarded_to p, response_code = None, retry_count = 0,
     next_retry_at = None, last_error = None, received_at = cp_received_at p,
     created_at = ie_now ie, updated_at = ie_now ie\<rparr>"

definition has_event :: "uuid \<Rightarrow> string \<Rightarrow> db \<Rightarrow> bool" where
  "has_event pid ev d \<longleftrightarrow> list_ex (\<lambda>w. provider_id w = pid \<and> event_id w = Some ev) (webhook_events d)"

text \<open>
  \<open>INSERT ... ON CONFLICT (provider_id, event_id) DO NOTHING RETURNING ...\<close>: the parameters are
  converted first, then the unique index decides, then the primary key and the reference to the
  provider are checked.
\<close>

definition insert_stmt :: "insert_env \<Rightarrow> create_params \<Rightarrow> db \<Rightarrow> webhook res \<times> db" where
  "insert_stmt ie p d =
     (case (ie_jsonb ie (cp_headers p), ie_jsonb ie (cp_payload p)) of
        (Some h, Some b) \<Rightarrow>
          (if (case cp_event_id p of Some ev \<Rightarrow> has_event (cp_provider_id p) ev d | None \<Rightarrow> False)
             then (Err ErrNoRows, d)
           else if ie_new_id ie \<in> wh_id ` set (webhook_events d)
             then (Err (Driver (PgError ''duplicate key value violates unique constraint'')), d)
           else if cp_provider_id p \<notin> pr_id ` set (provider_rows d)
             then (Err (Driver (PgError ''insert or update violates foreign key constraint'')), d)
           else let w = new_row ie p h b in (Ok w, d\<lparr>webhook_events := webhook_events d @ [w]\<rparr>))
      | _ \<Rightarrow> (Err (Driver (PgError ''invalid input syntax for type json'')), d))"

definition InsertWebhook :: "insert_env \<Rightarrow> create_params \<Rightarrow> db \<Rightarrow> webhook res \<times> db" where
  "InsertWebhook ie p d =
     (case call (ie_fault ie) (insert_stmt ie p) d of
        (Err e, d') \<Rightarrow> (if errors_is e ErrNoRows then (Err ErrHookExists, d') else (Err e, d'))
      | (r, d') \<Rightarrow> (r, d'))"

definition Exists :: "fault \<Rightarrow> uuid \<Rightarrow> string \<Rightarrow> db \<Rightarrow> bool res" where
  "Exists ft pid ev d = ask ft (\<lambda>d. Ok (has_event pid ev d)) d"

section \<open>Replay, listing and statistics\<close>

text \<open>The trigger \<open>set_updated_at\<close> runs on every update of a row.\<close>

definition touch :: "time \<Rightarrow> webhook \<Rightarrow> webhook" where
  "touch now w = w\<lparr>updated_at := now\<rparr>"

definition set_status :: "time \<Rightarrow> delivery_status \<Rightarrow> webhook \<Rightarrow> webhook" where
  "set_status now st w = touch now (w\<lparr>status := st\<rparr>)"

definition replay_stmt :: "time \<Rightarrow> uuid \<Rightarrow> db \<Rightarrow> unit res \<times> db" where
  "replay_stmt now i d =
     (Ok (), d\<lparr>webhook_events := update_where (\<lambda>w. wh_id w = i) (set_status now Replaying) (webhook_events d)\<rparr>)"

definition replayEvent :: "fault \<Rightarrow> time \<Rightarrow> uuid \<Rightarrow> db \<Rightarrow> unit res \<times> db" where
  "replayEvent ft now i d = call ft (replay_stmt now i) d"

definition getAll :: "fault \<Rightarrow> time option \<Rightarrow> db \<Rightarrow> webhook list res" where
  "getAll ft createdAt d = ask ft (\<lambda>d.
     Ok (case createdAt of
       Some t \<Rightarrow> first_by (\<lambda>w. - created_at w) 5 (filter (\<lambda>w. created_at w < t) (webhook_events d))
     | None \<Rightarrow> first_by (\<lambda>w. - created_at w) 25 (webhook_events d))) d"

definition days :: "int \<Rightarrow> int" where
  "days n = n * 24 * 3600 * second"

definition count_status :: "time \<Rightarrow> delivery_status \<Rightarrow> db \<Rightarrow> nat" where
  "count_status now st d =
     length (filter (\<lambda>w. now - days 7 < created_at w \<and> status w = st) (webhook_events d))"

definition getStats :: "fault \<Rightarrow> time \<Rightarrow> db \<Rightarrow> stats res" where
  "getStats ft now d = ask ft (\<lambda>d.
     Ok \<lparr>st_delivered = count_status now Delivered d, st_failed = count_status now Failed d,
         st_retrying = count_status now Retrying d, st_queued = count_status now Queued d\<rparr>) d"

section \<open>Queries built from search options\<close>

text \<open>
  \<open>lookup\<close> and \<open>filter\<close> assemble the text of a query from conditions that refer to positional
  arguments. A condition is represented by its form and the number of its placeholder; the
  arguments are values of the Go types that are appended to \<^verbatim>\<open>args\<close>.
\<close>

datatype sql_cond =
    IdTextEq nat
  | EventIdEq nat
  | ProviderAny nat
  | EventTypeEq nat
  | StatusAny nat
  | ResponseCodeEq nat
  | CreatedGe nat
  | CreatedLe nat
  | PayloadILike nat
  | RetryCountPos
  | LastErrorNotNull

datatype sql_arg = AStr string | AStrs "string list" | AInt int | ATime time

datatype junction = JOr | JAnd

record query =
  q_conds :: "sql_cond list"
  q_join :: junction
  q_limit :: nat
  q_offset :: nat
  q_args :: "sql_arg list"

type_synonym builder = "sql_cond list \<times> sql_arg list \<times> nat"

text \<open>\<^verbatim>\<open>conditions = append(conditions, ...$argIdx...); args = append(args, a); argIdx++\<close>.\<close>

fun add_cond :: "(nat \<Rightarrow> sql_cond) \<Rightarrow> sql_arg \<Rightarrow> builder \<Rightarrow> builder" where
  "add_cond c a (conds, args, argIdx) = (conds @ [c argIdx], args @ [a], argIdx + 1)"

fun add_plain :: "sql_cond \<Rightarrow> builder \<Rightarrow> builder" where
  "add_plain c (conds, args, argIdx) = (conds @ [c], args, argIdx)"

definition add_if :: "bool \<Rightarrow> (builder \<Rightarrow> builder) \<Rightarrow> builder \<Rightarrow> builder" where
  "add_if b f x = (if b then f x else x)"

fun finish_query :: "junction \<Rightarrow> int \<Rightarrow> int \<Rightarrow> builder \<Rightarrow> query" where
  "finish_query j lmt off (conds, args, argIdx) =
     \<lparr>q_conds = conds, q_join = j, q_limit = argIdx, q_offset = argIdx + 1, q_args = args @ [AInt lmt, AInt off]\<rparr>"

definition some_text :: "string option \<Rightarrow> bool" where
  "some_text s \<longleftrightarrow> s \<noteq> None \<and> s \<noteq> Some []"

definition lookup_query :: "lookup_opts \<Rightarrow> query" where
  "lookup_query opts =
     finish_query JOr (lo_limit opts) (lo_offset opts)
      (add_if (some_text (lo_event_id opts)) (add_cond EventIdEq (AStr (the (lo_event_id opts))))
      (add_if (some_text (lo_webhook_id opts)) (add_cond IdTextEq (AStr (the (lo_webhook_id opts))))
      ([], [], 1)))"

definition filter_query :: "filter_opts \<Rightarrow> query" where
  "filter_query opts =
     finish_query JAnd (fo_limit opts) (fo_offset opts)
      (add_if (fo_has_error opts) (add_plain LastErrorNotNull)
      (add_if (fo_has_retries opts) (add_plain RetryCountPos)
      (add_if (some_text (fo_payload_search opts)) (add_cond PayloadILike (AStr (the (fo_payload_search opts))))
      (add_if (fo_from_time opts \<noteq> None \<and> fo_to_time opts \<noteq> None)
         (\<lambda>x. add_cond CreatedLe (ATime (the (fo_to_time opts))) (add_cond CreatedGe (ATime (the (fo_from_time opts))) x))
      (add_if (fo_response_code opts \<noteq> None) (add_cond ResponseCodeEq (AInt (the (fo_response_code opts))))
      (add_if (fo_delivery_statuses opts \<noteq> []) (add_cond StatusAny (AStrs (fo_delivery_statuses opts)))
      (add_if (some_text (fo_event_type opts)) (add_cond EventTypeEq (AStr (the (fo_event_type opts))))
      (add_if (fo_providers opts \<noteq> []) (add_cond ProviderAny (AStrs (fo_providers opts)))
      ([], [], 1)))))))))"

text \<open>
  What PostgreSQL does with such a query. A placeholder without an argument, or with one of the
  wrong type, is an error, as is a string that is not in the enum, an empty \<open>WHERE\<close> clause, or a
  negative \<open>LIMIT\<close> or \<open>OFFSET\<close>.
\<close>

definition arg :: "sql_arg list \<Rightarrow> nat \<Rightarrow> sql_arg option" where
  "arg args n = (if 1 \<le> n \<and> n \<le> length args then Some (args ! (n - 1)) else None)"

record pg =
  pg_uuid_text :: "uuid \<Rightarrow> string"
  pg_ilike :: "string \<Rightarrow> string \<Rightarrow> bool"

fun cond_sem :: "pg \<Rightarrow> sql_arg list \<Rightarrow> sql_cond \<Rightarrow> (webhook \<Rightarrow> bool) option" where
  "cond_sem pg as (IdTextEq n) =
     (case arg as n of Some (AStr s) \<Rightarrow> Some (\<lambda>w. pg_uuid_text pg (wh_id w) = s) | _ \<Rightarrow> None)"
| "cond_sem pg as (EventIdEq n) = (case arg as n of Some (AStr s) \<Rightarrow> Some (\<lambda>w. event_id w = Some s) | _ \<Rightarrow> None)"
| "cond_sem pg as (ProviderAny n) = (case arg as n of Some (AStrs ss) \<Rightarrow> Some (\<lambda>w. provider_name w \<in> set ss) | _ \<Rightarrow> None)"
| "cond_sem pg as (EventTypeEq n) = (case arg as n of Some (AStr s) \<Rightarrow> Some (\<lambda>w. event_type w = s) | _ \<Rightarrow> None)"
| "cond_sem pg as (StatusAny n) =
     (case arg as n of Some (AStrs ss) \<Rightarrow>
        (if list_all (\<lambda>s. enum_in s \<noteq> None) ss then Some (\<lambda>w. status_text (status w) \<in> set ss) else None)
      | _ \<Rightarrow> None)"
| "cond_sem pg as (ResponseCodeEq n) = (case arg as n of Some (AInt c) \<Rightarrow> Some (\<lambda>w. response_code w = Some c) | _ \<Rightarrow> None)"
| "cond_sem pg as (CreatedGe n) = (case arg as n of Some (ATime t) \<Rightarrow> Some (\<lambda>w. t \<le> created_at w) | _ \<Rightarrow> None)"
| "cond_sem pg as (CreatedLe n) = (case arg as n of Some (ATime t) \<Rightarrow> Some (\<lambda>w. created_at w \<le> t) | _ \<Rightarrow> None)"
| "cond_sem pg as (PayloadILike n) =
     (case arg as n of Some (AStr s) \<Rightarrow> Some (\<lambda>w. pg_ilike pg (payload w) (''%'' @ s @ ''%'')) | _ \<Rightarrow> None)"
| "cond_sem pg as RetryCountPos = Some (\<lambda>w. 0 < retry_count w)"
| "cond_sem pg as LastErrorNotNull = Some (\<lambda>w. last_error w \<noteq> None)"

definition junct :: "junction \<Rightarrow> bool list \<Rightarrow> bool" where
  "junct j bs = (case j of JOr \<Rightarrow> list_ex (\<lambda>b. b) bs | JAnd \<Rightarrow> list_all (\<lambda>b. b) bs)"

definition where_sem :: "pg \<Rightarrow> query \<Rightarrow> (webhook \<Rightarrow> bool) option" where
  "where_sem pg q =
     (let sems = map (cond_sem pg (q_args q)) (q_conds q) in
      if sems = [] \<or> None \<in> set sems then None
      else Some (\<lambda>w. junct (q_join q) (map (\<lambda>f. the f w) sems)))"

definition page :: "int \<Rightarrow> int \<Rightarrow> webhook list \<Rightarrow> webhook list" where
  "page lmt off rows = take (nat lmt) (drop (nat off) (sort_key (\<lambda>w. - created_at w) rows))"

definition query_sem :: "pg \<Rightarrow> query \<Rightarrow> db \<Rightarrow> webhook list res" where
  "query_sem pg q d =
     (case (where_sem pg q, arg (q_args q) (q_limit q), arg (q_args q) (q_offset q)) of
        (Some P, Some (AInt lmt), Some (AInt off)) \<Rightarrow>
          (if lmt < 0 then Err (Driver (PgError ''LIMIT must not be negative''))
           else if off < 0 then Err (Driver (PgError ''OFFSET must not be negative''))
           else Ok (page lmt off (filter P (webhook_events d))))
      | _ \<Rightarrow> Err (Driver (PgError ''syntax error'')))"

definition lookup :: "fault \<Rightarrow> pg \<Rightarrow> lookup_opts \<Rightarrow> db \<Rightarrow> webhook list res" where
  "lookup ft pg opts d = ask ft (query_sem pg (lookup_query opts)) d"

definition filter_events :: "fault \<Rightarrow> pg \<Rightarrow> filter_opts \<Rightarrow> db \<Rightarrow> webhook list res" where
  "filter_events ft pg opts d = ask ft (query_sem pg (filter_query opts)) d"

section \<open>Inserting: what the ingestion relies on\<close>

lemma has_event_key: "has_event pid ev d \<longleftrightarrow> (pid, ev) \<in> set (event_keys (webhook_events d))"
  by (auto simp: has_event_def set_event_keys event_key_def list_ex_iff)

lemma new_row_key: "event_key (new_row ie p h b) = map_option (\<lambda>e. (cp_provider_id p, e)) (cp_event_id p)"
  by (simp add: new_row_def event_key_def)

text \<open>The statement either changes nothing and fails, or appends one new row and returns it.\<close>

lemma insert_stmt_cases:
  obtains (failed) e where "insert_stmt ie p d = (Err e, d)"
    | (inserted) h b where "ie_jsonb ie (cp_headers p) = Some h" "ie_jsonb ie (cp_payload p) = Some b"
        "\<And>ev. cp_event_id p = Some ev \<Longrightarrow> \<not> has_event (cp_provider_id p) ev d"
        "ie_new_id ie \<notin> wh_id ` set (webhook_events d)"
        "cp_provider_id p \<in> pr_id ` set (provider_rows d)"
        "insert_stmt ie p d =
           (Ok (new_row ie p h b), d\<lparr>webhook_events := webhook_events d @ [new_row ie p h b]\<rparr>)"
proof (cases "\<exists>e. insert_stmt ie p d = (Err e, d)")
  case True
  then show ?thesis using failed by blast
next
  case False
  then obtain h b where hb: "ie_jsonb ie (cp_headers p) = Some h" "ie_jsonb ie (cp_payload p) = Some b"
    by (auto simp: insert_stmt_def split: option.splits)
  with False have "\<not> (case cp_event_id p of Some ev \<Rightarrow> has_event (cp_provider_id p) ev d | None \<Rightarrow> False)"
    "ie_new_id ie \<notin> wh_id ` set (webhook_events d)" "cp_provider_id p \<in> pr_id ` set (provider_rows d)"
    by (simp_all add: insert_stmt_def Let_def split: if_splits)
  with hb show ?thesis
    by (intro inserted [of h b]) (auto simp: insert_stmt_def Let_def)
qed

lemma insert_stmt_schema: "schema_ok d \<Longrightarrow> schema_ok (snd (insert_stmt ie p d))"
proof (cases rule: insert_stmt_cases [of ie p d])
  case (inserted h b)
  assume "schema_ok d"
  with inserted show ?thesis
    by (auto simp: schema_ok_def has_event_key event_key_def new_row_def split: option.splits)
qed simp

lemma insert_stmt_keeps: "webhook_events d = take (length (webhook_events d)) (webhook_events (snd (insert_stmt ie p d)))"
  by (cases rule: insert_stmt_cases [of ie p d]) simp_all

lemma InsertWebhook_state: "snd (InsertWebhook ie p d) = snd (call (ie_fault ie) (insert_stmt ie p) d)"
  by (auto simp: InsertWebhook_def split: prod.splits res.splits)

lemma InsertWebhook_schema: "schema_ok d \<Longrightarrow> schema_ok (snd (InsertWebhook ie p d))"
  unfolding InsertWebhook_state by (rule call_preserves) (auto intro: insert_stmt_schema)

lemma InsertWebhook_Ok:
  "InsertWebhook ie p d = (Ok w, d') \<longleftrightarrow> ie_fault ie = NoFault \<and> insert_stmt ie p d = (Ok w, d')"
  by (cases "call (ie_fault ie) (insert_stmt ie p) d")
    (auto simp: InsertWebhook_def call_Ok [symmetric] split: res.splits if_splits)

text \<open>The error says that the event exists exactly when the conflicting row is there.\<close>

lemma insert_stmt_NoRows:
  "fst (insert_stmt ie p d) = Err ErrNoRows \<Longrightarrow>
     \<exists>ev. cp_event_id p = Some ev \<and> has_event (cp_provider_id p) ev d"
  by (auto simp: insert_stmt_def ErrNoRows_def Let_def split: option.splits if_splits)

lemma insert_stmt_Err:
  "fst (insert_stmt ie p d) = Err e \<Longrightarrow> e = ErrNoRows \<or> (\<exists>s. e = Driver (PgError s))"
  by (auto simp: insert_stmt_def Let_def split: option.splits if_splits)

lemma InsertWebhook_exists:
  assumes "InsertWebhook ie p d = (Err ErrHookExists, d')"
  shows "\<exists>ev. cp_event_id p = Some ev \<and> has_event (cp_provider_id p) ev d \<and> d' = d"
proof -
  obtain r d1 where c: "call (ie_fault ie) (insert_stmt ie p) d = (r, d1)" by fastforce
  with assms obtain e where r: "r = Err e" and e: "errors_is e ErrNoRows \<or> e = ErrHookExists" and d1: "d' = d1"
    by (auto simp: InsertWebhook_def split: res.splits if_splits)
  from c show ?thesis
  proof (cases rule: call_cases)
    case ran
    with r insert_stmt_Err [of ie p d e] e have "fst (insert_stmt ie p d) = Err ErrNoRows"
      by (auto simp: repo_errors)
    with ran r d1 insert_stmt_NoRows [of ie p d] insert_stmt_keeps show ?thesis
      by (cases rule: insert_stmt_cases [of ie p d]) auto
  qed (use r e in \<open>auto simp: repo_errors\<close>)
qed

text \<open>
  The contract of a store that refuses duplicates. Whatever the environment of each attempt
  (faults, clocks, identifiers), the attempts that succeed store pairwise different keys, none of
  which was there before.
\<close>

locale dedup_store =
  fixes attempt :: "'x \<Rightarrow> 's \<Rightarrow> 'r res \<times> 's"
    and key :: "'r \<Rightarrow> 'k option"
    and stored :: "'k \<Rightarrow> 's \<Rightarrow> bool"
  assumes success_stores: "attempt x s = (Ok r, s') \<Longrightarrow> key r = Some k \<Longrightarrow> stored k s' \<and> \<not> stored k s"
    and stored_stays: "stored k s \<Longrightarrow> stored k (snd (attempt x s))"
begin

definition new_keys :: "'x list \<Rightarrow> 's \<Rightarrow> 'k list" where
  "new_keys xs s = List.map_filter key (oks (fst (run_ops attempt xs s)))"

lemma stored_run: "stored k s \<Longrightarrow> stored k (snd (run_ops attempt xs s))"
  by (rule run_ops_inv) (auto intro: stored_stays)

lemma new_keys_Cons:
  "attempt x s = (r, s') \<Longrightarrow>
     new_keys (x # xs) s = (case r of Ok v \<Rightarrow> (case key v of Some k \<Rightarrow> k # new_keys xs s' | None \<Rightarrow> new_keys xs s') | _ \<Rightarrow> new_keys xs s')"
  by (cases r) (simp_all add: new_keys_def run_ops_Cons [where f = attempt] List.map_filter_simps del: run_ops.simps split: option.splits)

lemma new_keys_fresh: "k \<in> set (new_keys xs s) \<Longrightarrow> \<not> stored k s"
proof (induction xs arbitrary: s)
  case (Cons x xs)
  obtain r s' where a: "attempt x s = (r, s')" by fastforce
  have "\<not> stored k s \<or> k \<in> set (new_keys xs s')"
    using Cons.prems success_stores [of x s] a
    by (auto simp: new_keys_Cons [OF a] split: res.splits option.splits)
  then show ?case using Cons.IH [of s'] stored_stays [of k s x] a by auto
qed (simp add: new_keys_def List.map_filter_simps)

lemma new_keys_distinct: "distinct (new_keys xs s)"
proof (induction xs arbitrary: s)
  case (Cons x xs)
  obtain r s' where a: "attempt x s = (r, s')" by fastforce
  show ?case
    using Cons.IH [of s'] success_stores [of x s] a new_keys_fresh [of _ xs s']
    by (auto simp: new_keys_Cons [OF a] split: res.splits option.splits)
qed (simp add: new_keys_def List.map_filter_simps)

lemma new_keys_stored: "k \<in> set (new_keys xs s) \<Longrightarrow> stored k (snd (run_ops attempt xs s))"
proof (induction xs arbitrary: s)
  case (Cons x xs)
  obtain r s' where a: "attempt x s = (r, s')" by fastforce
  have "stored k s' \<or> k \<in> set (new_keys xs s')"
    using Cons.prems success_stores [of x s] a
    by (auto simp: new_keys_Cons [OF a] split: res.splits option.splits)
  then show ?case using Cons.IH [of s'] stored_run [of k s'] run_ops_Cons [where f = attempt, OF a] by auto
qed (simp add: new_keys_def List.map_filter_simps)

end

definition attempt_insert :: "insert_env \<times> create_params \<Rightarrow> db \<Rightarrow> webhook res \<times> db" where
  "attempt_insert x d = InsertWebhook (fst x) (snd x) d"

definition key_stored :: "uuid \<times> string \<Rightarrow> db \<Rightarrow> bool" where
  "key_stored k d = has_event (fst k) (snd k) d"

lemma has_event_insert: "has_event pid ev d \<Longrightarrow> has_event pid ev (snd (insert_stmt ie p d))"
  by (cases rule: insert_stmt_cases [of ie p d]) (auto simp: has_event_def)

lemma has_event_InsertWebhook: "has_event pid ev d \<Longrightarrow> has_event pid ev (snd (InsertWebhook ie p d))"
  unfolding InsertWebhook_state
  by (intro call_preserves [where P = "has_event pid ev"]) (auto intro: has_event_insert)

interpretation events: dedup_store attempt_insert event_key key_stored
proof
  fix x d w d' k
  assume "attempt_insert x d = (Ok w, d')" and k: "event_key w = Some k"
  then have i: "insert_stmt (fst x) (snd x) d = (Ok w, d')" by (simp add: attempt_insert_def InsertWebhook_Ok)
  then show "key_stored k d' \<and> \<not> key_stored k d"
    using k by (cases rule: insert_stmt_cases [of "fst x" "snd x" d])
      (auto simp: key_stored_def event_key_def has_event_def new_row_def)
next
  fix k d x
  assume "key_stored k d"
  then show "key_stored k (snd (attempt_insert x d))"
    by (simp add: attempt_insert_def key_stored_def has_event_InsertWebhook)
qed

section \<open>Updates keep the identity of every event\<close>

lemma identity_set_status [simp]: "identity (set_status now st w) = identity w"
  by (simp add: identity_def set_status_def touch_def)

lemma replay_identity [unchanged]:
  "map identity (webhook_events (snd (replay_stmt now i d))) = map identity (webhook_events d)"
  by (simp add: replay_stmt_def map_update_where)

lemma replayEvent_schema: "schema_ok d \<Longrightarrow> schema_ok (snd (replayEvent ft now i d))"
  unfolding replayEvent_def
  by (rule call_preserves) (auto simp: replay_stmt_def map_update_where intro: schema_ok_update)

section \<open>The assembled query means what the options say\<close>

text \<open>
  A builder is right for a list of predicates when its next placeholder is the one after its
  arguments and its conditions mean the predicates, whatever arguments are appended later.
\<close>

definition builds :: "pg \<Rightarrow> builder \<Rightarrow> (webhook \<Rightarrow> bool) list \<Rightarrow> bool" where
  "builds pg b Ps \<longleftrightarrow> (case b of (conds, args, n) \<Rightarrow>
     n = length args + 1 \<and> (\<forall>rest. map (cond_sem pg (args @ rest)) conds = map Some Ps))"

lemma arg_append_here [simp]: "arg (args @ a # rest) (Suc (length args)) = Some a"
  by (simp add: arg_def)

lemma builds_init: "builds pg ([], [], 1) []"
  by (simp add: builds_def)

lemma builds_cond:
  assumes "builds pg b Ps" and "\<And>as n. arg as n = Some a \<Longrightarrow> cond_sem pg as (c n) = Some P"
  shows "builds pg (add_cond c a b) (Ps @ [P])"
  using assms by (cases b) (simp add: builds_def)

lemma builds_plain:
  assumes "builds pg b Ps" and "\<And>as. cond_sem pg as c = Some P"
  shows "builds pg (add_plain c b) (Ps @ [P])"
  using assms by (cases b) (simp add: builds_def)

lemma builds_if:
  assumes "builds pg b Ps" and "B \<Longrightarrow> builds pg (f b) (Ps @ Qs)"
  shows "builds pg (add_if B f b) (Ps @ (if B then Qs else []))"
  using assms by (simp add: add_if_def)

lemma builds_query:
  assumes "builds pg b Ps" and "Ps \<noteq> []" and "0 \<le> lmt" and "0 \<le> off"
  shows "query_sem pg (finish_query j lmt off b) d =
    Ok (page lmt off (filter (\<lambda>w. junct j (map (\<lambda>P. P w) Ps)) (webhook_events d)))"
proof -
  obtain conds args n where b: "b = (conds, args, n)" by (cases b)
  have n: "n = length args + 1" and sems: "map (cond_sem pg (args @ [AInt lmt, AInt off])) conds = map Some Ps"
    using assms(1) by (auto simp: builds_def b)
  have "arg (args @ [AInt lmt, AInt off]) n = Some (AInt lmt)"
    "arg (args @ [AInt lmt, AInt off]) (n + 1) = Some (AInt off)"
    by (simp_all add: n arg_def nth_append)
  moreover have "where_sem pg (finish_query j lmt off b) = Some (\<lambda>w. junct j (map (\<lambda>P. P w) Ps))"
    using assms(2) by (auto simp: where_sem_def b sems Let_def comp_def)
  ultimately show ?thesis using assms(3,4) by (simp add: query_sem_def b)
qed

text \<open>The rows that a lookup and a filter ask for, stated on the options.\<close>

definition lookup_match :: "pg \<Rightarrow> lookup_opts \<Rightarrow> webhook \<Rightarrow> bool" where
  "lookup_match pg opts w \<longleftrightarrow>
     some_text (lo_webhook_id opts) \<and> lo_webhook_id opts = Some (pg_uuid_text pg (wh_id w)) \<or>
     some_text (lo_event_id opts) \<and> lo_event_id opts = event_id w"

definition filter_match :: "pg \<Rightarrow> filter_opts \<Rightarrow> webhook \<Rightarrow> bool" where
  "filter_match pg opts w \<longleftrightarrow>
     (fo_providers opts \<noteq> [] \<longrightarrow> provider_name w \<in> set (fo_providers opts)) \<and>
     (some_text (fo_event_type opts) \<longrightarrow> fo_event_type opts = Some (event_type w)) \<and>
     (fo_delivery_statuses opts \<noteq> [] \<longrightarrow> status_text (status w) \<in> set (fo_delivery_statuses opts)) \<and>
     (fo_response_code opts \<noteq> None \<longrightarrow> fo_response_code opts = response_code w) \<and>
     (\<forall>f t. fo_from_time opts = Some f \<longrightarrow> fo_to_time opts = Some t \<longrightarrow> f \<le> created_at w \<and> created_at w \<le> t) \<and>
     (some_text (fo_payload_search opts) \<longrightarrow> pg_ilike pg (payload w) (''%'' @ the (fo_payload_search opts) @ ''%'')) \<and>
     (fo_has_retries opts \<longrightarrow> 0 < retry_count w) \<and>
     (fo_has_error opts \<longrightarrow> last_error w \<noteq> None)"

lemma lookup_query_correct:
  assumes "some_text (lo_webhook_id opts) \<or> some_text (lo_event_id opts)"
    and "0 \<le> lo_limit opts" and "0 \<le> lo_offset opts"
  shows "lookup NoFault pg opts d =
    Ok (page (lo_limit opts) (lo_offset opts) (filter (lookup_match pg opts) (webhook_events d)))"
proof -
  let ?P = "\<lambda>w. pg_uuid_text pg (wh_id w) = the (lo_webhook_id opts)"
  let ?Q = "\<lambda>w. event_id w = Some (the (lo_event_id opts))"
  let ?Ps = "([] @ (if some_text (lo_webhook_id opts) then [?P] else [])) @
    (if some_text (lo_event_id opts) then [?Q] else [])"
  have "lookup NoFault pg opts d =
    Ok (page (lo_limit opts) (lo_offset opts)
      (filter (\<lambda>w. junct JOr (map (\<lambda>P. P w) ?Ps)) (webhook_events d)))"
    unfolding lookup_def ask_NoFault lookup_query_def
    by (rule builds_query, intro builds_if builds_cond builds_init) (use assms in auto)
  moreover have "junct JOr (map (\<lambda>P. P w) ?Ps) = lookup_match pg opts w" for w
    by (auto simp: junct_def lookup_match_def some_text_def)
  ultimately show ?thesis by simp
qed

lemma and_if:
  "list_all (\<lambda>b. b) (map (\<lambda>P. P w) (if B then Qs else [])) \<longleftrightarrow> (B \<longrightarrow> list_all (\<lambda>b. b) (map (\<lambda>P. P w) Qs))"
  by simp

lemma filter_query_correct:
  assumes "fo_providers opts \<noteq> []" and "list_all (\<lambda>s. enum_in s \<noteq> None) (fo_delivery_statuses opts)"
    and "0 \<le> fo_limit opts" and "0 \<le> fo_offset opts"
  shows "filter_events NoFault pg opts d =
    Ok (page (fo_limit opts) (fo_offset opts) (filter (filter_match pg opts) (webhook_events d)))"
proof -
  let ?times = "fo_from_time opts \<noteq> None \<and> fo_to_time opts \<noteq> None"
  let ?Ps = "((((((([] @
    (if fo_providers opts \<noteq> [] then [\<lambda>w. provider_name w \<in> set (fo_providers opts)] else [])) @
    (if some_text (fo_event_type opts) then [\<lambda>w. event_type w = the (fo_event_type opts)] else [])) @
    (if fo_delivery_statuses opts \<noteq> [] then [\<lambda>w. status_text (status w) \<in> set (fo_delivery_statuses opts)] else [])) @
    (if fo_response_code opts \<noteq> None then [\<lambda>w. response_code w = Some (the (fo_response_code opts))] else [])) @
    (if ?times then [\<lambda>w. the (fo_from_time opts) \<le> created_at w, \<lambda>w. created_at w \<le> the (fo_to_time opts)] else [])) @
    (if some_text (fo_payload_search opts)
       then [\<lambda>w. pg_ilike pg (payload w) (''%'' @ the (fo_payload_search opts) @ ''%'')] else [])) @
    (if fo_has_retries opts then [\<lambda>w. 0 < retry_count w] else [])) @
    (if fo_has_error opts then [\<lambda>w. last_error w \<noteq> None] else [])"
  have two: "builds pg (add_cond CreatedLe (ATime t) (add_cond CreatedGe (ATime f) b))
      (Qs @ [\<lambda>w. f \<le> created_at w, \<lambda>w. created_at w \<le> t])" if "builds pg b Qs" for b Qs f t
  proof -
    have "builds pg (add_cond CreatedLe (ATime t) (add_cond CreatedGe (ATime f) b))
        ((Qs @ [\<lambda>w. f \<le> created_at w]) @ [\<lambda>w. created_at w \<le> t])"
      by (intro builds_cond that) auto
    then show ?thesis by simp
  qed
  have "filter_events NoFault pg opts d =
    Ok (page (fo_limit opts) (fo_offset opts)
      (filter (\<lambda>w. junct JAnd (map (\<lambda>P. P w) ?Ps)) (webhook_events d)))"
    unfolding filter_events_def ask_NoFault filter_query_def
    by (rule builds_query, intro builds_if builds_cond builds_plain two builds_init)
      (use assms in \<open>auto simp: list_all_iff\<close>)
  moreover have "junct JAnd (map (\<lambda>P. P w) ?Ps) = filter_match pg opts w" for w
  proof -
    have 1: "(some_text x \<longrightarrow> y = the x) = (some_text x \<longrightarrow> x = Some y)" for x y
      by (auto simp: some_text_def)
    have 2: "(x \<noteq> None \<longrightarrow> y = Some (the x)) = (x \<noteq> None \<longrightarrow> x = y)" for x y :: "int option"
      by auto
    have 3: "(?times \<longrightarrow> the (fo_from_time opts) \<le> created_at w \<and> created_at w \<le> the (fo_to_time opts)) =
      (\<forall>f t. fo_from_time opts = Some f \<longrightarrow> fo_to_time opts = Some t \<longrightarrow> f \<le> created_at w \<and> created_at w \<le> t)"
      by auto
    show ?thesis
      unfolding filter_match_def 3 [symmetric] 1 [symmetric] 2 [symmetric]
      by (simp only: junct_def junction.case map_append list_all_append and_if list.map list.pred_inject
          append_Nil conj_assoc simp_thms)
  qed
  ultimately show ?thesis by simp
qed

end
