(* ===== verification/Providers.thy ===== *)
theory Providers
  imports Model Crypto EventsRepo
begin

text \<open>
  \<^verbatim>\<open>internal/cache\<close> and \<^verbatim>\<open>internal/providers\<close>: the key/value part of Redis, the provider
  cache the workers and the ingestion read, the table of providers, and the provider service.
  \<^verbatim>\<open>json.Marshal\<close> and \<^verbatim>\<open>json.Unmarshal\<close> on a provider and \<^verbatim>\<open>uuid.Parse\<close> are arguments.
\<close>

section \<open>Redis (cache/cache.go)\<close>

text \<open>A token bucket of the rate limiter is a Redis hash with two fields.\<close>

record bucket =
  level :: rat
  last_leak :: rat

record redis =
  kv :: "string \<Rightarrow> bytes option"
  buckets :: "string \<Rightarrow> (bucket \<times> rat) option"

definition RedisNil :: go_error where
  "RedisNil = Sentinel ''redis: nil''"

definition GetBytes :: "fault \<Rightarrow> string \<Rightarrow> redis \<Rightarrow> bytes res" where
  "GetBytes ft key r = ask ft (\<lambda>r. case kv r key of None \<Rightarrow> Err RedisNil | Some v \<Rightarrow> Ok v) r"

definition kv_get :: "string \<Rightarrow> redis \<Rightarrow> bytes option" where
  "kv_get key r = kv r key"

definition kv_put :: "string \<Rightarrow> bytes \<Rightarrow> redis \<Rightarrow> redis" where
  "kv_put key val r = r\<lparr>kv := (kv r)(key \<mapsto> val)\<rparr>"

text \<open>\<open>Set\<close> is only called with \<^verbatim>\<open>RedisInfiniteTTL\<close>: the entry does not expire.\<close>

definition Set :: "fault \<Rightarrow> string \<Rightarrow> bytes \<Rightarrow> redis \<Rightarrow> unit res \<times> redis" where
  "Set ft key val r = call ft (\<lambda>r. (Ok (), kv_put key val r)) r"

fun kv_pairs :: "bytes list \<Rightarrow> (string \<times> bytes) list" where
  "kv_pairs (k # v # rest) = (k, v) # kv_pairs rest"
| "kv_pairs _ = []"

definition Mset :: "fault \<Rightarrow> bytes list \<Rightarrow> redis \<Rightarrow> unit res \<times> redis" where
  "Mset ft pairs r =
     (if odd (length pairs) then (Err (LibError ''[Cache] odd number of arguments passed to Mset''), r)
      else call ft (\<lambda>r. (Ok (), fold (\<lambda>(k, v). kv_put k v) (kv_pairs pairs) r)) r)"

text \<open>
  What the provider cache needs of a key/value store, and what loading a list of pairs does.
\<close>

locale kv_store =
  fixes get :: "'k \<Rightarrow> 's \<Rightarrow> 'v option"
    and put :: "'k \<Rightarrow> 'v \<Rightarrow> 's \<Rightarrow> 's"
  assumes get_put: "get k (put k' v s) = (if k = k' then Some v else get k s)"
begin

lemma get_puts:
  "distinct (map fst kvs) \<Longrightarrow>
     get k (fold (\<lambda>(k, v). put k v) kvs s) = (case map_of kvs k of Some v \<Rightarrow> Some v | None \<Rightarrow> get k s)"
proof (induction kvs arbitrary: s)
  case (Cons x kvs)
  obtain a b where x: "x = (a, b)" by (cases x)
  with Cons.prems have "map_of kvs a = None" by (simp add: map_of_eq_None_iff)
  with Cons x show ?case by (auto simp: get_put split: option.splits)
qed simp

end

interpretation kv: kv_store kv_get kv_put
  by unfold_locales (simp add: kv_get_def kv_put_def)

section \<open>The provider cache (providers/cache.go)\<close>

abbreviation RedisProviderPrefix :: string where
  "RedisProviderPrefix \<equiv> ''provider+''"

record codec =
  marshal :: "provider \<Rightarrow> bytes res"
  unmarshal :: "bytes \<Rightarrow> provider option"

definition cache_get :: "codec \<Rightarrow> fault \<Rightarrow> string \<Rightarrow> redis \<Rightarrow> provider res" where
  "cache_get c ft name r =
     (case GetBytes ft (RedisProviderPrefix @ name) r of
        Err e \<Rightarrow> Err e
      | Panic \<Rightarrow> Panic
      | Ok val \<Rightarrow> (case unmarshal c val of None \<Rightarrow> Err (LibError ''json'') | Some p \<Rightarrow> Ok p))"

definition cache_set :: "codec \<Rightarrow> fault \<Rightarrow> string \<Rightarrow> provider \<Rightarrow> redis \<Rightarrow> unit res \<times> redis" where
  "cache_set c ft name p r =
     (case marshal c p of
        Err e \<Rightarrow> (Err e, r)
      | Panic \<Rightarrow> (Panic, r)
      | Ok b \<Rightarrow> Set ft (RedisProviderPrefix @ name) b r)"

text \<open>The loop that collects the arguments of \<^verbatim>\<open>Mset\<close> stops at the first provider that cannot be marshaled.\<close>

fun collect_pairs :: "codec \<Rightarrow> string \<Rightarrow> provider list \<Rightarrow> bytes list res" where
  "collect_pairs c what [] = Ok []"
| "collect_pairs c what (p # ps) =
     (case marshal c p of
        Err e \<Rightarrow> Err (Wrap [e] (''[Providers] error marshaling provider during cache '' @ what @ '': '' @ err_text e))
      | Panic \<Rightarrow> Panic
      | Ok b \<Rightarrow> res_bind (collect_pairs c what ps) (\<lambda>rest. Ok ((RedisProviderPrefix @ pr_name p) # b # rest)))"

definition ErrNoProvidersFound :: go_error where
  "ErrNoProvidersFound = Sentinel ''[Providers] no providers found in database''"

definition repo_get_all :: "fault \<Rightarrow> db \<Rightarrow> provider list res" where
  "repo_get_all ft d = ask ft (\<lambda>d. Ok (provider_rows d)) d"

definition load_cache :: "codec \<Rightarrow> string \<Rightarrow> fault \<Rightarrow> fault \<Rightarrow> db \<Rightarrow> redis \<Rightarrow> unit res \<times> redis" where
  "load_cache c what dbf rf d r =
     (case repo_get_all dbf d of
        Err e \<Rightarrow> (Err e, r)
      | Panic \<Rightarrow> (Panic, r)
      | Ok provs \<Rightarrow>
         (case collect_pairs c what provs of
            Err e \<Rightarrow> (Err e, r)
          | Panic \<Rightarrow> (Panic, r)
          | Ok kvPairs \<Rightarrow> if kvPairs = [] then (Err ErrNoProvidersFound, r) else Mset rf kvPairs r))"

text \<open>\<^verbatim>\<open>once\<close> is the state of the \<^verbatim>\<open>sync.Once\<close> guard: whether its function has run.\<close>

definition InitProviderCache :: "codec \<Rightarrow> fault \<Rightarrow> fault \<Rightarrow> db \<Rightarrow> bool \<Rightarrow> redis \<Rightarrow> unit res \<times> bool \<times> redis" where
  "InitProviderCache c dbf rf d once r =
     (if once then (Ok (), once, r)
      else let (res, r') = load_cache c ''insertion'' dbf rf d r in (res, True, r'))"

definition RefreshCache :: "codec \<Rightarrow> fault \<Rightarrow> fault \<Rightarrow> db \<Rightarrow> redis \<Rightarrow> unit res \<times> redis" where
  "RefreshCache c dbf rf d r = load_cache c ''refresh'' dbf rf d r"

section \<open>The table of providers (providers/repository.go)\<close>

definition reconfigured :: "string \<Rightarrow> string \<Rightarrow> int \<Rightarrow> int \<Rightarrow> provider \<Rightarrow> provider" where
  "reconfigured sec des maxRetry maxReqSec p =
     p\<lparr>signing_secret := sec, destination_url := des, is_configured := True,
       max_retries := maxRetry, max_req_second := maxReqSec\<rparr>"

definition configure_stmt :: "uuid \<Rightarrow> string \<Rightarrow> string \<Rightarrow> int \<Rightarrow> int \<Rightarrow> db \<Rightarrow> provider res \<times> db" where
  "configure_stmt i sec des maxRetry maxReqSec d =
     (let f = reconfigured sec des maxRetry maxReqSec in
      case returning (\<lambda>p. pr_id p = i) f (provider_rows d) of
        [] \<Rightarrow> (Err ErrNoRows, d)
      | p # _ \<Rightarrow> (Ok p, d\<lparr>provider_rows := update_where (\<lambda>p. pr_id p = i) f (provider_rows d)\<rparr>))"

definition repo_configure ::
  "fault \<Rightarrow> uuid \<Rightarrow> string \<Rightarrow> string \<Rightarrow> int \<Rightarrow> int \<Rightarrow> db \<Rightarrow> provider res \<times> db" where
  "repo_configure ft i sec des maxRetry maxReqSec d = call ft (configure_stmt i sec des maxRetry maxReqSec) d"

section \<open>The provider service (providers/service.go)\<close>

abbreviation maxRetryCount :: int where
  "maxRetryCount \<equiv> 20"

abbreviation maxReqSecond :: int where
  "maxReqSecond \<equiv> 1000"

definition ErrMissingSigningSecret :: go_error where
  "ErrMissingSigningSecret = Sentinel ''error field is empty: signing_secret''"
definition ErrMissingDestination :: go_error where
  "ErrMissingDestination = Sentinel ''error missing field: destination_url''"
definition ErrInvalidRetryCount :: go_error where
  "ErrInvalidRetryCount = Sentinel ''error field is invalid: retry_count must be between 0 and 20''"
definition ErrInvalidReqSecond :: go_error where
  "ErrInvalidReqSecond = Sentinel ''error field is invalid: max_req_second must be between 0 and 1000''"
definition ErrInvalidSignature :: go_error where
  "ErrInvalidSignature = Sentinel ''invalid webhook signature''"

lemmas provider_errors = ErrMissingSigningSecret_def ErrMissingDestination_def ErrInvalidRetryCount_def
  ErrInvalidReqSecond_def ErrInvalidSignature_def RedisNil_def ErrNoProvidersFound_def

fun decrypt_all :: "bytes \<Rightarrow> provider list \<Rightarrow> provider list res" where
  "decrypt_all mk [] = Ok []"
| "decrypt_all mk (p # ps) =
     (if \<not> is_configured p then res_bind (decrypt_all mk ps) (\<lambda>qs. Ok (p # qs))
      else case DecryptSigningKey mk (signing_secret p) of
        Err e \<Rightarrow> Err e
      | Panic \<Rightarrow> Panic
      | Ok k \<Rightarrow> res_bind (decrypt_all mk ps) (\<lambda>qs. Ok (p\<lparr>signing_secret := k\<rparr> # qs)))"

definition GetAll :: "bytes \<Rightarrow> fault \<Rightarrow> db \<Rightarrow> provider list res" where
  "GetAll mk ft d = res_bind (repo_get_all ft d) (decrypt_all mk)"

record configure_env =
  ce_uuid_parse :: "string \<Rightarrow> uuid res"
  ce_master_key :: bytes
  ce_rand :: "bytes res"
  ce_codec :: codec
  ce_db_fault :: fault
  ce_redis_fault :: fault

definition Configure ::
  "configure_env \<Rightarrow> string \<Rightarrow> string \<Rightarrow> string \<Rightarrow> int \<Rightarrow> int \<Rightarrow> db \<Rightarrow> redis \<Rightarrow> provider res \<times> db \<times> redis" where
  "Configure ce i sec0 des maxRetry maxReqSec d r =
     (let sec = trim_space sec0 in
      case ce_uuid_parse ce i of
        Err e \<Rightarrow> (Err e, d, r)
      | Panic \<Rightarrow> (Panic, d, r)
      | Ok uuidS \<Rightarrow>
         (if length sec = 0 then (Err ErrMissingSigningSecret, d, r)
          else if length des = 0 then (Err ErrMissingDestination, d, r)
          else if maxRetry < 0 \<or> maxRetry > maxRetryCount then (Err ErrInvalidRetryCount, d, r)
          else if maxReqSec < 0 \<or> maxReqSec > maxReqSecond then (Err ErrInvalidReqSecond, d, r)
          else case EncryptSigningKey (ce_master_key ce) (ce_rand ce) sec of
            Err e \<Rightarrow> (Err e, d, r)
          | Panic \<Rightarrow> (Panic, d, r)
          | Ok encKey \<Rightarrow>
             (case repo_configure (ce_db_fault ce) uuidS encKey des maxRetry maxReqSec d of
                (Err e, d') \<Rightarrow> (Err e, d', r)
              | (Panic, d') \<Rightarrow> (Panic, d', r)
              | (Ok prov, d') \<Rightarrow>
                 (case cache_set (ce_codec ce) (ce_redis_fault ce) (pr_name prov) prov r of
                    (Err e, r') \<Rightarrow> (Err e, d', r')
                  | (Panic, r') \<Rightarrow> (Panic, d', r')
                  | (Ok _, r') \<Rightarrow> (Ok prov, d', r')))))"

section \<open>The cache agrees with the table\<close>

definition codec_ok :: "codec \<Rightarrow> provider \<Rightarrow> bool" where
  "codec_ok c p \<longleftrightarrow> (case marshal c p of Ok b \<Rightarrow> unmarshal c b = Some p | _ \<Rightarrow> False)"

definition coherent :: "codec \<Rightarrow> db \<Rightarrow> redis \<Rightarrow> bool" where
  "coherent c d r \<longleftrightarrow> list_all (\<lambda>p. cache_get c NoFault (pr_name p) r = Ok p) (provider_rows d)"

lemma cache_get_NoFault:
  "cache_get c NoFault name r = Ok p \<longleftrightarrow> (\<exists>b. kv_get (RedisProviderPrefix @ name) r = Some b \<and> unmarshal c b = Some p)"
  by (auto simp: cache_get_def GetBytes_def kv_get_def split: option.splits)

lemma cache_get_Ok:
  "cache_get c ft name r = Ok p \<Longrightarrow> ft = NoFault \<and> cache_get c NoFault name r = Ok p"
  by (cases ft) (auto simp: cache_get_def GetBytes_def ask_def)

lemma cache_get_no_panic [simp]: "cache_get c ft name r \<noteq> Panic"
  by (cases ft) (auto simp: cache_get_def GetBytes_def ask_def split: option.splits)

lemma cache_set_Ok:
  "cache_set c ft name p r = (Ok (), r') \<longleftrightarrow>
     ft = NoFault \<and> (\<exists>b. marshal c p = Ok b \<and> r' = kv_put (RedisProviderPrefix @ name) b r)"
  by (cases "marshal c p") (auto simp: cache_set_def Set_def call_Ok)

lemma cache_get_after_set:
  assumes "cache_set c ft name p r = (Ok (), r')" and "codec_ok c p"
  shows "cache_get c NoFault name' r' = (if name' = name then Ok p else cache_get c NoFault name' r)"
proof -
  obtain b where b: "marshal c p = Ok b" and r': "r' = kv_put (RedisProviderPrefix @ name) b r"
    using assms(1) by (auto simp: cache_set_Ok)
  have "unmarshal c b = Some p" using assms(2) b by (simp add: codec_ok_def)
  then show ?thesis
    using kv.get_put by (simp add: cache_get_def GetBytes_def r' flip: kv_get_def)
qed

lemma collect_pairs_Ok:
  assumes "list_all (codec_ok c) ps"
  shows "\<exists>xs. collect_pairs c what ps = Ok xs \<and> even (length xs) \<and> (xs = [] \<longleftrightarrow> ps = []) \<and>
    map fst (kv_pairs xs) = map (\<lambda>p. RedisProviderPrefix @ pr_name p) ps \<and>
    list_all2 (\<lambda>p v. unmarshal c v = Some p) ps (map snd (kv_pairs xs))"
  using assms
proof (induction ps)
  case (Cons p ps)
  then obtain xs where "collect_pairs c what ps = Ok xs" "even (length xs)"
    "map fst (kv_pairs xs) = map (\<lambda>p. RedisProviderPrefix @ pr_name p) ps"
    "list_all2 (\<lambda>p v. unmarshal c v = Some p) ps (map snd (kv_pairs xs))" by auto
  moreover obtain b where "marshal c p = Ok b" "unmarshal c b = Some p"
    using Cons.prems by (auto simp: codec_ok_def split: res.splits)
  ultimately show ?case by simp
qed simp

lemma load_cache_coherent:
  assumes "list_all (codec_ok c) (provider_rows d)" and "provider_rows d \<noteq> []" and "schema_ok d"
  shows "\<exists>r'. load_cache c what NoFault NoFault d r = (Ok (), r') \<and> coherent c d r'"
proof -
  obtain xs where xs: "collect_pairs c what (provider_rows d) = Ok xs" "even (length xs)" "xs \<noteq> []"
    "map fst (kv_pairs xs) = map (\<lambda>p. RedisProviderPrefix @ pr_name p) (provider_rows d)"
    "list_all2 (\<lambda>p v. unmarshal c v = Some p) (provider_rows d) (map snd (kv_pairs xs))"
    using collect_pairs_Ok [OF assms(1)] assms(2) by blast
  let ?r = "fold (\<lambda>(k, v). kv_put k v) (kv_pairs xs) r"
  have load: "load_cache c what NoFault NoFault d r = (Ok (), ?r)"
    using xs by (simp add: load_cache_def repo_get_all_def Mset_def)
  have "distinct (map pr_name (provider_rows d))" using assms(3) by (simp add: schema_ok_def)
  then have dist: "distinct (map fst (kv_pairs xs))"
    unfolding xs(4) by (simp add: distinct_map inj_on_def)
  have "cache_get c NoFault (pr_name p) ?r = Ok p" if p: "p \<in> set (provider_rows d)" for p
  proof -
    obtain i where i: "i < length (provider_rows d)" "p = provider_rows d ! i"
      using p by (auto simp: in_set_conv_nth)
    have len: "length (kv_pairs xs) = length (provider_rows d)" using xs(4) by (metis length_map)
    obtain k v where kv: "kv_pairs xs ! i = (k, v)" by fastforce
    have "map fst (kv_pairs xs) ! i = RedisProviderPrefix @ pr_name p"
      unfolding xs(4) using i by simp
    then have k: "k = RedisProviderPrefix @ pr_name p" using i(1) kv len by simp
    have v: "unmarshal c v = Some p"
      using list_all2_nthD [OF xs(5) i(1)] i(2) kv len i(1) by simp
    have "(k, v) \<in> set (kv_pairs xs)" using kv len i(1) by (metis nth_mem)
    then have "map_of (kv_pairs xs) k = Some v" using dist by simp
    then have "kv_get k ?r = Some v" using kv.get_puts [OF dist, of k r] by simp
    with k v show ?thesis unfolding cache_get_NoFault by blast
  qed
  then show ?thesis using load by (auto simp: coherent_def list_all_iff)
qed

section \<open>Configuring a provider\<close>

lemma reconfigured_same [simp]:
  "pr_id (reconfigured s u a b p) = pr_id p" "pr_name (reconfigured s u a b p) = pr_name p"
  by (simp_all add: reconfigured_def)

lemma configure_stmt_Ok:
  "configure_stmt i sec des mr mq d = (Ok prov, d') \<Longrightarrow>
     (\<exists>p \<in> set (provider_rows d). pr_id p = i \<and> prov = reconfigured sec des mr mq p) \<and>
     d' = d\<lparr>provider_rows := update_where (\<lambda>p. pr_id p = i) (reconfigured sec des mr mq) (provider_rows d)\<rparr>"
  by (auto simp: configure_stmt_def Let_def returning_def filter_eq_Cons_iff split: list.splits)

lemma configure_stmt_schema: "schema_ok d \<Longrightarrow> schema_ok (snd (configure_stmt i sec des mr mq d))"
proof -
  assume ok: "schema_ok d"
  have ids: "map pr_id (update_where P (reconfigured sec des mr mq) ps) = map pr_id ps"
    and names: "map pr_name (update_where P (reconfigured sec des mr mq) ps) = map pr_name ps" for P ps
    by (simp_all add: map_update_where)
  have "pr_id ` set (update_where P (reconfigured sec des mr mq) ps) = pr_id ` set ps" for P ps
    by (metis ids set_map)
  then show ?thesis
    using ok by (simp add: configure_stmt_def Let_def schema_ok_def ids names split: list.splits)
qed

lemma Configure_Ok:
  assumes "Configure ce i sec des mr mq d r = (Ok prov, d', r')"
  obtains u enc where "ce_uuid_parse ce i = Ok u" "trim_space sec \<noteq> []" "des \<noteq> []"
    "0 \<le> mr" "mr \<le> maxRetryCount" "0 \<le> mq" "mq \<le> maxReqSecond"
    "EncryptSigningKey (ce_master_key ce) (ce_rand ce) (trim_space sec) = Ok enc"
    "configure_stmt u enc des mr mq d = (Ok prov, d')"
    "cache_set (ce_codec ce) (ce_redis_fault ce) (pr_name prov) prov r = (Ok (), r')"
  using assms
  by (auto simp: Configure_def Let_def repo_configure_def call_Ok
      split: res.splits if_splits prod.splits)

lemma configure_coherent:
  assumes ok: "schema_ok d" and coh: "coherent c d r"
    and upd: "configure_stmt u enc des mr mq d = (Ok prov, d')"
    and set: "cache_set c ft (pr_name prov) prov r = (Ok (), r')" and codec: "codec_ok c prov"
  shows "coherent c d' r'"
proof -
  obtain p0 where p0: "p0 \<in> set (provider_rows d)" "pr_id p0 = u" "prov = reconfigured enc des mr mq p0"
    and d': "provider_rows d' = update_where (\<lambda>p. pr_id p = u) (reconfigured enc des mr mq) (provider_rows d)"
    using configure_stmt_Ok [OF upd] by auto
  have dist: "distinct (map pr_id (provider_rows d))" "distinct (map pr_name (provider_rows d))"
    using ok by (simp_all add: schema_ok_def)
  have "cache_get c NoFault (pr_name q) r' = Ok q" if q: "q \<in> set (provider_rows d')" for q
  proof -
    obtain y where y: "y \<in> set (provider_rows d)" "q = (if pr_id y = u then reconfigured enc des mr mq y else y)"
      using q by (auto simp: d' in_update_where)
    show ?thesis
    proof (cases "pr_id y = u")
      case True
      then have "y = p0" using distinct_map_eq [OF dist(1) y(1) p0(1)] p0(2) by simp
      then show ?thesis using cache_get_after_set [OF set codec] y(2) True p0(3) by simp
    next
      case False
      then have "y \<noteq> p0" using p0(2) by auto
      then have "pr_name y \<noteq> pr_name prov" using distinct_map_eq [OF dist(2) y(1) p0(1)] p0(3) by auto
      moreover have "cache_get c NoFault (pr_name y) r = Ok y"
        using coh y(1) by (auto simp: coherent_def list_all_iff)
      ultimately show ?thesis using cache_get_after_set [OF set codec] y(2) False by simp
    qed
  qed
  then show ?thesis by (auto simp: coherent_def list_all_iff)
qed

section \<open>Properties\<close>

text \<open>
  C23. When \<^verbatim>\<open>Configure\<close> succeeds, the table and the cache still agree on every provider, the
  schema's constraints hold, the stored secret decrypts to the trimmed secret that was given, the
  limits lie within their bounds, and no other provider has changed.
\<close>

theorem configure_correct:
  assumes "Configure ce i sec des mr mq d r = (Ok prov, d', r')"
    and "ce_rand ce = Ok n" and "length n = nonce_size"
    and "codec_ok (ce_codec ce) prov" and "schema_ok d" and "coherent (ce_codec ce) d r"
  shows "coherent (ce_codec ce) d' r' \<and> schema_ok d' \<and> prov \<in> set (provider_rows d') \<and>
    is_configured prov \<and> destination_url prov = des \<and> des \<noteq> [] \<and>
    DecryptSigningKey (ce_master_key ce) (signing_secret prov) = Ok (trim_space sec) \<and>
    0 \<le> max_retries prov \<and> max_retries prov \<le> 20 \<and> 0 \<le> max_req_second prov \<and> max_req_second prov \<le> 1000 \<and>
    filter (\<lambda>p. pr_id p \<noteq> pr_id prov) (provider_rows d') = filter (\<lambda>p. pr_id p \<noteq> pr_id prov) (provider_rows d)"
proof -
  obtain u enc where parts: "trim_space sec \<noteq> []" "des \<noteq> []" "0 \<le> mr" "mr \<le> maxRetryCount" "0 \<le> mq" "mq \<le> maxReqSecond"
    and enc: "EncryptSigningKey (ce_master_key ce) (ce_rand ce) (trim_space sec) = Ok enc"
    and upd: "configure_stmt u enc des mr mq d = (Ok prov, d')"
    and set: "cache_set (ce_codec ce) (ce_redis_fault ce) (pr_name prov) prov r = (Ok (), r')"
    using Configure_Ok [OF assms(1)] by blast
  obtain p0 where p0: "p0 \<in> set (provider_rows d)" "pr_id p0 = u" "prov = reconfigured enc des mr mq p0"
    and d': "provider_rows d' = update_where (\<lambda>p. pr_id p = u) (reconfigured enc des mr mq) (provider_rows d)"
    using configure_stmt_Ok [OF upd] by auto
  have "schema_ok d'" using configure_stmt_schema [OF assms(5)] upd by (metis snd_conv)
  moreover have "coherent (ce_codec ce) d' r'"
    by (rule configure_coherent [OF assms(5,6) upd set assms(4)])
  moreover have "DecryptSigningKey (ce_master_key ce) enc = Ok (trim_space sec)"
    using enc assms(2,3) by (rule EncryptSigningKey_decrypts)
  moreover have "filter (\<lambda>p. pr_id p \<noteq> u) (provider_rows d') = filter (\<lambda>p. pr_id p \<noteq> u) (provider_rows d)"
    unfolding d' by (rule filter_update_where_other) simp
  moreover have "prov \<in> set (provider_rows d')" using p0 d' by (auto simp: in_update_where)
  ultimately show ?thesis using parts p0 d' by (simp add: reconfigured_def)
qed

text \<open>A provider before and after it is configured, for the concrete instances below.\<close>

definition sample_provider :: provider where
  "sample_provider = \<lparr>pr_id = 1, pr_name = Stripe, signing_secret = [], destination_url = [],
     max_retries = 5, max_req_second = 90, is_configured = False, pr_created_at = 0\<rparr>"

definition sample_db :: db where
  "sample_db = \<lparr>webhook_events = [], provider_rows = [sample_provider], refresh_tokens = []\<rparr>"

definition sample_redis :: redis where
  "sample_redis = \<lparr>kv = [''provider+Stripe'' \<mapsto> ''old''], buckets = Map.empty\<rparr>"

definition sample_configured :: provider where
  "sample_configured = reconfigured
     (case EncryptSigningKey (replicate 32 CHR ''k'') (Ok (replicate 12 CHR ''n'')) ''whsec'' of Ok e \<Rightarrow> e)
     ''http://app'' 3 10 sample_provider"

definition sample_configure_env :: configure_env where
  "sample_configure_env = \<lparr>ce_uuid_parse = (\<lambda>s. Ok 1), ce_master_key = replicate 32 CHR ''k'',
     ce_rand = Ok (replicate 12 CHR ''n''),
     ce_codec = \<lparr>marshal = (\<lambda>p. Ok ''new''),
       unmarshal = (\<lambda>b. if b = ''old'' then Some sample_provider else Some sample_configured)\<rparr>,
     ce_db_fault = NoFault, ce_redis_fault = NoFault\<rparr>"

lemma sample_configure:
  "Configure sample_configure_env ''1'' ''whsec'' ''http://app'' 3 10 sample_db sample_redis =
     (Ok sample_configured, sample_db\<lparr>provider_rows := [sample_configured]\<rparr>,
      kv_put ''provider+Stripe'' ''new'' sample_redis)"
proof -
  obtain e where "EncryptSigningKey (replicate 32 CHR ''k'') (Ok (replicate 12 CHR ''n'')) ''whsec'' = Ok e"
    using EncryptSigningKey_total [of "replicate 32 CHR ''k''" "''whsec''"] by (auto simp: gcm_max_def)
  moreover have "trim_space ''whsec'' = ''whsec''"
    by code_simp
  ultimately show ?thesis
    by (simp add: Configure_def sample_configure_env_def sample_db_def sample_provider_def sample_configured_def
        repo_configure_def configure_stmt_def returning_def update_where_def reconfigured_def cache_set_def Set_def)
qed

theorem configure_correct_witness:
  "coherent (ce_codec sample_configure_env) (sample_db\<lparr>provider_rows := [sample_configured]\<rparr>)
     (kv_put ''provider+Stripe'' ''new'' sample_redis) \<and>
   DecryptSigningKey (replicate 32 CHR ''k'') (signing_secret sample_configured) = Ok (trim_space ''whsec'')"
proof -
  have "codec_ok (ce_codec sample_configure_env) sample_configured" "schema_ok sample_db"
    "coherent (ce_codec sample_configure_env) sample_db sample_redis"
    by (simp_all add: codec_ok_def sample_configure_env_def schema_ok_def sample_db_def coherent_def
        cache_get_def GetBytes_def sample_redis_def sample_provider_def)
  from configure_correct [OF sample_configure _ _ this, of "replicate 12 CHR ''n''"] show ?thesis
    by (simp add: sample_configure_env_def)
qed

text \<open>
  After a start-up load or a refresh that meets no fault, the cache holds exactly what the table
  holds for every provider, whatever it held before.
\<close>

lemma refresh_cache_coherent:
  assumes "list_all (codec_ok c) (provider_rows d)" and "provider_rows d \<noteq> []" and "schema_ok d"
  shows "\<exists>r'. RefreshCache c NoFault NoFault d r = (Ok (), r') \<and> coherent c d r' \<and>
    InitProviderCache c NoFault NoFault d False r = (Ok (), True, snd (load_cache c ''insertion'' NoFault NoFault d r)) \<and>
    coherent c d (snd (load_cache c ''insertion'' NoFault NoFault d r))"
proof -
  obtain r1 where "load_cache c ''refresh'' NoFault NoFault d r = (Ok (), r1)" "coherent c d r1"
    using load_cache_coherent [OF assms] by blast
  moreover obtain r2 where "load_cache c ''insertion'' NoFault NoFault d r = (Ok (), r2)" "coherent c d r2"
    using load_cache_coherent [OF assms] by blast
  ultimately show ?thesis by (simp add: RefreshCache_def InitProviderCache_def)
qed

end
