(* ===== verification/ProviderHooks.thy ===== *)
theory ProviderHooks
  imports Providers EventsRepo
begin

text \<open>
  \<^verbatim>\<open>internal/providers/{github,shopify,stripe}/service.go\<close>: verification of the signature of an
  incoming webhook, the store and duplicate check of each provider, and the headers that a forward
  request carries. Stripe's signature check is a function of its library and an argument here, as is
  the JSON form of a map of headers.
\<close>

section \<open>Forwarded headers\<close>

text \<open>
  The loop over the parsed map: the list is the map in one of its iteration orders, and the header
  is that of the outgoing request, to which \<^verbatim>\<open>Header.Add\<close> appends.
\<close>

definition forward_allowed :: "string list \<Rightarrow> header \<Rightarrow> header \<Rightarrow> header" where
  "forward_allowed allowed parsed h =
     fold (\<lambda>(k, vals) h. if canonical_header_key k \<in> set allowed then fold (\<lambda>v h. header_add h k v) vals h else h) parsed h"

text \<open>\<^verbatim>\<open>json.Unmarshal\<close> into a map of headers gives an error or the map.\<close>

type_synonym unmarshal_headers = "bytes \<Rightarrow> go_error + header"

definition set_forward_headers :: "string list \<Rightarrow> unmarshal_headers \<Rightarrow> bytes \<Rightarrow> header \<Rightarrow> header res" where
  "set_forward_headers allowed un raw h =
     (case un raw of Inl e \<Rightarrow> Err e | Inr parsed \<Rightarrow> Ok (forward_allowed allowed parsed h))"

definition github_allowed :: "string list" where
  "github_allowed = [''Content-Type'', ''X-Hub-Signature-256'', ''X-Hub-Signature'', ''X-Github-Event'',
     ''X-Github-Delivery'', ''X-Github-Hook-Id'', ''User-Agent'']"

definition shopify_allowed :: "string list" where
  "shopify_allowed = [''Content-Type'', ''User-Agent'', ''X-Shopify-Topic'', ''X-Shopify-Hmac-Sha256'',
     ''X-Shopify-Shop-Domain'', ''X-Shopify-Api-Version'', ''X-Shopify-Webhook-Id'', ''X-Shopify-Triggered-At'',
     ''X-Shopify-Event-Id'']"

definition stripe_allowed :: "string list" where
  "stripe_allowed = [''Content-Type'', ''Stripe-Signature'', ''User-Agent'', ''Cache-Control'']"

definition github_SetForwardHeaders :: "unmarshal_headers \<Rightarrow> bytes \<Rightarrow> header \<Rightarrow> header res" where
  "github_SetForwardHeaders = set_forward_headers github_allowed"

definition shopify_SetForwardHeaders :: "unmarshal_headers \<Rightarrow> bytes \<Rightarrow> header \<Rightarrow> header res" where
  "shopify_SetForwardHeaders = set_forward_headers shopify_allowed"

definition stripe_SetForwardHeaders :: "unmarshal_headers \<Rightarrow> bytes \<Rightarrow> header \<Rightarrow> header res" where
  "stripe_SetForwardHeaders = set_forward_headers stripe_allowed"

section \<open>Signatures\<close>

record svc =
  svc_codec :: codec
  svc_master_key :: bytes

text \<open>The secret that a provider's requests are verified with.\<close>

definition provider_secret :: "svc \<Rightarrow> fault \<Rightarrow> string \<Rightarrow> redis \<Rightarrow> string res" where
  "provider_secret sv ft name r =
     res_bind (cache_get (svc_codec sv) ft name r) (\<lambda>prov. DecryptSigningKey (svc_master_key sv) (signing_secret prov))"

text \<open>\<^verbatim>\<open>hmac.Equal\<close> on the textual form, and on the decoded bytes.\<close>

definition github_accepts :: "bytes \<Rightarrow> string \<Rightarrow> bytes \<Rightarrow> bool" where
  "github_accepts key signature body \<longleftrightarrow> ''sha256='' @ hex_encode (hmac_sum key body) = signature"

definition shopify_accepts :: "bytes \<Rightarrow> string \<Rightarrow> bytes \<Rightarrow> bool" where
  "shopify_accepts key signature body \<longleftrightarrow>
     (case b64_decode signature of None \<Rightarrow> False | Some sigBytes \<Rightarrow> sigBytes = hmac_sum key body)"

definition github_ValidateSecret :: "svc \<Rightarrow> fault \<Rightarrow> string \<Rightarrow> bytes \<Rightarrow> redis \<Rightarrow> unit res" where
  "github_ValidateSecret sv ft signature body r =
     res_bind (provider_secret sv ft Github r)
       (\<lambda>key. if \<not> github_accepts key signature body then Err ErrInvalidSignature else Ok ())"

definition shopify_ValidateSecret :: "svc \<Rightarrow> fault \<Rightarrow> string \<Rightarrow> bytes \<Rightarrow> redis \<Rightarrow> unit res" where
  "shopify_ValidateSecret sv ft signature body r =
     res_bind (provider_secret sv ft Shopify r)
       (\<lambda>key. if \<not> shopify_accepts key signature body then Err ErrInvalidSignature else Ok ())"

text \<open>
  \<^verbatim>\<open>stripe.Event\<close>, as far as it is used, and \<^verbatim>\<open>webhook.ConstructEvent(payload, header, secret)\<close>.
\<close>

record stripe_event =
  se_id :: string
  se_type :: string

type_synonym construct_event = "bytes \<Rightarrow> string \<Rightarrow> string \<Rightarrow> stripe_event res"

definition secretPrefixLength :: nat where
  "secretPrefixLength = 6"

definition safePrefix :: "string \<Rightarrow> string" where
  "safePrefix s = (if length s \<le> secretPrefixLength then s else take secretPrefixLength s)"

definition stripe_ValidateSecret :: "construct_event \<Rightarrow> svc \<Rightarrow> fault \<Rightarrow> string \<Rightarrow> bytes \<Rightarrow> redis \<Rightarrow> stripe_event res" where
  "stripe_ValidateSecret conEvent sv ft signature body r =
     res_bind (provider_secret sv ft Stripe r) (\<lambda>decrypted. conEvent body signature decrypted)"

section \<open>Storing and finding\<close>

record store_env =
  so_get_fault :: fault
  so_insert :: insert_env
  so_now :: time

definition provider_insert ::
  "string \<Rightarrow> svc \<Rightarrow> store_env \<Rightarrow> bytes \<Rightarrow> bytes \<Rightarrow> string \<Rightarrow> string \<Rightarrow> redis \<Rightarrow> db \<Rightarrow> webhook res \<times> db" where
  "provider_insert name sv so hdrs body i ev r d =
     (case cache_get (svc_codec sv) (so_get_fault so) name r of
        Err e \<Rightarrow> (Err e, d)
      | Panic \<Rightarrow> (Panic, d)
      | Ok prov \<Rightarrow>
          InsertWebhook (so_insert so)
            \<lparr>cp_provider_id = pr_id prov, cp_provider = name, cp_event_id = Some i, cp_event_type = ev,
             cp_headers = hdrs, cp_payload = body, cp_forwarded_to = destination_url prov, cp_received_at = so_now so\<rparr> d)"

definition provider_exists :: "string \<Rightarrow> svc \<Rightarrow> fault \<Rightarrow> fault \<Rightarrow> string \<Rightarrow> redis \<Rightarrow> db \<Rightarrow> bool res" where
  "provider_exists name sv gf ef evID r d =
     res_bind (cache_get (svc_codec sv) gf name r) (\<lambda>prov. Exists ef (pr_id prov) evID d)"

definition github_InsertWebhook ::
  "svc \<Rightarrow> store_env \<Rightarrow> bytes \<Rightarrow> bytes \<Rightarrow> string \<Rightarrow> string \<Rightarrow> redis \<Rightarrow> db \<Rightarrow> webhook res \<times> db" where
  "github_InsertWebhook = provider_insert Github"

definition shopify_InsertWebhook ::
  "svc \<Rightarrow> store_env \<Rightarrow> bytes \<Rightarrow> bytes \<Rightarrow> string \<Rightarrow> string \<Rightarrow> redis \<Rightarrow> db \<Rightarrow> webhook res \<times> db" where
  "shopify_InsertWebhook = provider_insert Shopify"

definition stripe_InsertWebhook ::
  "svc \<Rightarrow> store_env \<Rightarrow> bytes \<Rightarrow> bytes \<Rightarrow> stripe_event \<Rightarrow> redis \<Rightarrow> db \<Rightarrow> webhook res \<times> db" where
  "stripe_InsertWebhook sv so hdrs body event =
     provider_insert Stripe sv so hdrs body (se_id event) (se_type event)"

definition github_Exists :: "svc \<Rightarrow> fault \<Rightarrow> fault \<Rightarrow> string \<Rightarrow> redis \<Rightarrow> db \<Rightarrow> bool res" where
  "github_Exists = provider_exists Github"

definition shopify_Exists :: "svc \<Rightarrow> fault \<Rightarrow> fault \<Rightarrow> string \<Rightarrow> redis \<Rightarrow> db \<Rightarrow> bool res" where
  "shopify_Exists = provider_exists Shopify"

definition stripe_Exists :: "svc \<Rightarrow> fault \<Rightarrow> fault \<Rightarrow> string \<Rightarrow> redis \<Rightarrow> db \<Rightarrow> bool res" where
  "stripe_Exists = provider_exists Stripe"

section \<open>The contract of a signature check\<close>

text \<open>
  A check that recomputes a tag and compares it with the one in the signature: the sender's own
  signature is accepted, and a signature that is accepted for two payloads shows two payloads with
  the same tag. So a changed payload goes through only with a collision of the tag.
\<close>

locale mac_check =
  fixes tag :: "'k \<Rightarrow> 'm \<Rightarrow> 't"
    and write_tag :: "'t \<Rightarrow> 's"
    and read_tag :: "'s \<Rightarrow> 't option"
    and accepts :: "'k \<Rightarrow> 's \<Rightarrow> 'm \<Rightarrow> bool"
  assumes read_write: "read_tag (write_tag t) = Some t"
    and accepts_iff: "accepts k s m \<longleftrightarrow> read_tag s = Some (tag k m)"
begin

lemma genuine_accepted: "accepts k (write_tag (tag k m)) m"
  by (simp add: accepts_iff read_write)

lemma accepted_tag: "accepts k s m \<Longrightarrow> accepts k s m' \<Longrightarrow> tag k m = tag k m'"
  by (simp add: accepts_iff)

lemma tampered_rejected: "tag k m' \<noteq> tag k m \<Longrightarrow> accepts k s m \<Longrightarrow> \<not> accepts k s m'"
  using accepted_tag by metis

lemma unsigned_rejected: "read_tag s = None \<Longrightarrow> \<not> accepts k s m"
  by (simp add: accepts_iff)

end

definition github_read_tag :: "string \<Rightarrow> bytes option" where
  "github_read_tag s =
     (case hex_decode (drop 7 s) of
        Ok t \<Rightarrow> if s = ''sha256='' @ hex_encode t then Some t else None
      | _ \<Rightarrow> None)"

interpretation github_mac: mac_check hmac_sum "\<lambda>t. ''sha256='' @ hex_encode t" github_read_tag github_accepts
  by unfold_locales (auto simp: github_read_tag_def github_accepts_def hex_encode_inject split: res.splits if_splits)

interpretation shopify_mac: mac_check hmac_sum b64_encode b64_decode shopify_accepts
  by unfold_locales (auto simp: shopify_accepts_def split: option.splits)

section \<open>Lemmas on the shared steps\<close>

lemma header_values_fold_add:
  "header_values (fold (\<lambda>v h. header_add h k v) vals h) k' =
     (if k' = canonical_header_key k then header_values h k' @ vals else header_values h k')"
  by (induction vals arbitrary: h) auto

lemma header_values_forward:
  "header_values (forward_allowed allowed parsed h) k =
     header_values h k @ (if k \<in> set allowed then concat (map snd (filter (\<lambda>(k', vs). canonical_header_key k' = k) parsed)) else [])"
  by (induction parsed arbitrary: h) (auto simp: forward_allowed_def header_values_fold_add)

lemma provider_exists_Ok:
  "provider_exists name sv gf ef ev r d = Ok b \<longleftrightarrow>
     gf = NoFault \<and> ef = NoFault \<and> (\<exists>prov. cache_get (svc_codec sv) NoFault name r = Ok prov \<and> b = has_event (pr_id prov) ev d)"
  using cache_get_Ok [of "svc_codec sv" gf name r]
  by (auto simp: provider_exists_def res_bind_Ok_iff Exists_def ask_Ok)

lemma provider_exists_no_panic [simp]: "provider_exists name sv gf ef ev r d \<noteq> Panic"
  by (cases "cache_get (svc_codec sv) gf name r"; cases ef) (auto simp: provider_exists_def Exists_def ask_def)

lemma provider_insert_Ok:
  assumes "provider_insert name sv so hdrs body i ev r d = (Ok w, d')"
  obtains prov h b where "cache_get (svc_codec sv) NoFault name r = Ok prov"
    "ie_jsonb (so_insert so) hdrs = Some h" "ie_jsonb (so_insert so) body = Some b"
    "\<not> has_event (pr_id prov) i d" "pr_id prov \<in> pr_id ` set (provider_rows d)"
    "ie_new_id (so_insert so) \<notin> wh_id ` set (webhook_events d)"
    "w = \<lparr>wh_id = ie_new_id (so_insert so), provider_id = pr_id prov, provider_name = name, event_id = Some i,
       event_type = ev, headers = h, payload = b, status = Queued, forwarded_to = destination_url prov,
       response_code = None, retry_count = 0, next_retry_at = None, last_error = None, received_at = so_now so,
       created_at = ie_now (so_insert so), updated_at = ie_now (so_insert so)\<rparr>"
    "d' = d\<lparr>webhook_events := webhook_events d @ [w]\<rparr>"
proof -
  obtain prov where g: "cache_get (svc_codec sv) (so_get_fault so) name r = Ok prov"
    using assms by (cases "cache_get (svc_codec sv) (so_get_fault so) name r") (auto simp: provider_insert_def)
  let ?p = "\<lparr>cp_provider_id = pr_id prov, cp_provider = name, cp_event_id = Some i, cp_event_type = ev,
             cp_headers = hdrs, cp_payload = body, cp_forwarded_to = destination_url prov, cp_received_at = so_now so\<rparr>"
  have i: "insert_stmt (so_insert so) ?p d = (Ok w, d')"
    using assms g by (simp add: provider_insert_def InsertWebhook_Ok)
  show ?thesis
    using i cache_get_Ok [OF g] that
    by (cases rule: insert_stmt_cases [of "so_insert so" ?p d]) (auto simp: new_row_def)
qed

lemma cache_get_Err: "cache_get c ft name r = Err e \<Longrightarrow> e \<noteq> ErrHookExists \<and> \<not> errors_is e ErrHookExists"
  by (cases ft) (auto simp: cache_get_def GetBytes_def ask_def RedisNil_def ErrHookExists_def split: option.splits)

lemma provider_insert_exists:
  assumes "provider_insert name sv so hdrs body i ev r d = (Err ErrHookExists, d')"
  shows "\<exists>prov. cache_get (svc_codec sv) NoFault name r = Ok prov \<and> has_event (pr_id prov) i d \<and> d' = d"
proof -
  obtain prov where g: "cache_get (svc_codec sv) (so_get_fault so) name r = Ok prov"
    using assms cache_get_Err
    by (cases "cache_get (svc_codec sv) (so_get_fault so) name r") (auto simp: provider_insert_def)
  then show ?thesis
    using assms cache_get_Ok [OF g] by (auto simp: provider_insert_def dest!: InsertWebhook_exists)
qed

lemma provider_insert_state:
  "snd (provider_insert name sv so hdrs body i ev r d) \<in> {d} \<union> {d\<lparr>webhook_events := webhook_events d @ [w]\<rparr> | w. True}"
proof (cases "cache_get (svc_codec sv) (so_get_fault so) name r")
  case (Ok prov)
  let ?p = "\<lparr>cp_provider_id = pr_id prov, cp_provider = name, cp_event_id = Some i, cp_event_type = ev,
             cp_headers = hdrs, cp_payload = body, cp_forwarded_to = destination_url prov, cp_received_at = so_now so\<rparr>"
  show ?thesis
    using call_state [of "ie_fault (so_insert so)" "insert_stmt (so_insert so) ?p" d]
    by (cases rule: insert_stmt_cases [of "so_insert so" ?p d])
      (auto simp: provider_insert_def Ok InsertWebhook_state)
qed (auto simp: provider_insert_def)

section \<open>Properties\<close>

text \<open>
  C22. Against the secret of the provider, the signature a sender computes for a payload is accepted
  by the GitHub and the Shopify check, and it is accepted for another payload only if that payload
  has the same HMAC-SHA256 tag; otherwise the answer is the error \<^verbatim>\<open>ErrInvalidSignature\<close>.
\<close>

theorem signature_binds_payload:
  assumes "provider_secret sv NoFault Github r = Ok gk" and "provider_secret sv NoFault Shopify r = Ok sk"
  shows "github_ValidateSecret sv NoFault (''sha256='' @ hex_encode (hmac_sum gk m)) m' r =
      (if hmac_sum gk m' = hmac_sum gk m then Ok () else Err ErrInvalidSignature) \<and>
    shopify_ValidateSecret sv NoFault (b64_encode (hmac_sum sk m)) m' r =
      (if hmac_sum sk m' = hmac_sum sk m then Ok () else Err ErrInvalidSignature)"
  using assms github_mac.accepts_iff shopify_mac.accepts_iff github_mac.read_write
  by (auto simp: github_ValidateSecret_def shopify_ValidateSecret_def)

definition sample_svc :: svc where
  "sample_svc = \<lparr>svc_codec = \<lparr>marshal = (\<lambda>p. Ok ''x''), unmarshal = (\<lambda>b. Some sample_provider)\<rparr>, svc_master_key = []\<rparr>"

definition sample_cache :: redis where
  "sample_cache = \<lparr>kv = (\<lambda>k. Some ''x''), buckets = Map.empty\<rparr>"

lemma sample_secret: "provider_secret sample_svc NoFault name sample_cache = Ok []"
  by (simp add: provider_secret_def cache_get_def GetBytes_def sample_svc_def sample_cache_def sample_provider_def)

theorem signature_binds_payload_witness:
  "github_ValidateSecret sample_svc NoFault (''sha256='' @ hex_encode (hmac_sum [] ''a'')) ''a'' sample_cache = Ok () \<and>
   shopify_ValidateSecret sample_svc NoFault (b64_encode (hmac_sum [] ''a'')) ''a'' sample_cache = Ok ()"
  using signature_binds_payload [OF sample_secret sample_secret, of "''a''" "''a''"] by simp

text \<open>
  C39. A provider that has not been configured has an empty secret, and nothing asks whether it is
  configured: its check is one against the empty key, so a request signed with the empty key is
  accepted for every payload.
\<close>

theorem unconfigured_provider_forgeable:
  assumes "cache_get (svc_codec sv) NoFault name r = Ok prov" and "signing_secret prov = []"
  shows "(name = Github \<longrightarrow> github_ValidateSecret sv NoFault (''sha256='' @ hex_encode (hmac_sum [] m)) m r = Ok ()) \<and>
    (name = Shopify \<longrightarrow> shopify_ValidateSecret sv NoFault (b64_encode (hmac_sum [] m)) m r = Ok ())"
proof -
  have "provider_secret sv NoFault name r = Ok []" using assms by (simp add: provider_secret_def)
  then show ?thesis
    using github_mac.genuine_accepted [of "[]" m] shopify_mac.genuine_accepted [of "[]" m]
    by (auto simp: github_ValidateSecret_def shopify_ValidateSecret_def)
qed

theorem unconfigured_provider_forgeable_witness:
  "\<not> is_configured sample_provider \<and>
   github_ValidateSecret sample_svc NoFault (''sha256='' @ hex_encode (hmac_sum [] ''forged'')) ''forged'' sample_cache = Ok ()"
  using unconfigured_provider_forgeable [of sample_svc Github sample_cache sample_provider "''forged''"]
  by (simp add: cache_get_def GetBytes_def sample_svc_def sample_cache_def sample_provider_def)

text \<open>
  A forward request carries, beside the headers it had, exactly the values of the stored headers
  whose canonical name is on the provider's list, in their order; no other stored header leaves the
  system.
\<close>

theorem forward_headers_allowlist:
  assumes "(allowed, f) \<in> {(github_allowed, github_SetForwardHeaders), (shopify_allowed, shopify_SetForwardHeaders),
      (stripe_allowed, stripe_SetForwardHeaders)}"
    and "un raw = Inr parsed"
  shows "\<exists>h'. f un raw h = Ok h' \<and>
    (\<forall>k. header_values h' k = header_values h k @
      (if k \<in> set allowed then concat (map snd (filter (\<lambda>(k', vs). canonical_header_key k' = k) parsed)) else []))"
  using assms header_values_forward [of allowed parsed h]
  by (auto simp: github_SetForwardHeaders_def shopify_SetForwardHeaders_def stripe_SetForwardHeaders_def set_forward_headers_def)

theorem forward_headers_allowlist_witness:
  "\<exists>h'. stripe_SetForwardHeaders (\<lambda>b. Inr [(''Cookie'', [''secret'']), (''user-agent'', [''a'', ''b''])]) [] [] = Ok h' \<and>
    header_values h' ''Cookie'' = [] \<and> header_values h' ''User-Agent'' = [''a'', ''b'']"
proof -
  have "canonical_header_key ''Cookie'' = ''Cookie''" "canonical_header_key ''user-agent'' = ''User-Agent''"
    by code_simp+
  with forward_headers_allowlist [of stripe_allowed stripe_SetForwardHeaders
      "\<lambda>b. Inr [(''Cookie'', [''secret'']), (''user-agent'', [''a'', ''b''])]" "[]" _ "[]"]
  show ?thesis by (fastforce simp: stripe_allowed_def header_values_def)
qed

end
