(* ===== verification/Channel.thy ===== *)
theory Channel
  imports Prelude
begin

text \<open>
  Go's buffered channels as the program uses them: a send inside \<^verbatim>\<open>select\<close> with a \<^verbatim>\<open>default\<close>
  case never blocks, and a receive takes the oldest element if there is one.
\<close>

record 'a chan =
  chan_cap :: nat
  chan_buf :: "'a list"

definition make_chan :: "nat \<Rightarrow> 'a chan" where
  "make_chan n = \<lparr>chan_cap = n, chan_buf = []\<rparr>"

definition try_send :: "'a \<Rightarrow> 'a chan \<Rightarrow> bool \<times> 'a chan" where
  "try_send x c =
     (if length (chan_buf c) < chan_cap c then (True, c\<lparr>chan_buf := chan_buf c @ [x]\<rparr>) else (False, c))"

definition try_recv :: "'a chan \<Rightarrow> ('a \<times> 'a chan) option" where
  "try_recv c = (case chan_buf c of [] \<Rightarrow> None | x # xs \<Rightarrow> Some (x, c\<lparr>chan_buf := xs\<rparr>))"

definition chan_ok :: "'a chan \<Rightarrow> bool" where
  "chan_ok c \<longleftrightarrow> length (chan_buf c) \<le> chan_cap c"

text \<open>The interface: a bounded queue whose contents are a list, oldest element first.\<close>

datatype 'a queue_op = SendOp 'a | RecvOp

datatype 'a queue_out = Sent 'a | Full 'a | Received 'a | Empty

fun sent :: "'a queue_out list \<Rightarrow> 'a list" where
  "sent [] = []"
| "sent (Sent x # os) = x # sent os"
| "sent (_ # os) = sent os"

fun received :: "'a queue_out list \<Rightarrow> 'a list" where
  "received [] = []"
| "received (Received x # os) = x # received os"
| "received (_ # os) = received os"

lemma sent_concat: "sent os = concat (map (\<lambda>r. sent [r]) os)"
  by (induction os rule: sent.induct) auto

lemma received_concat: "received os = concat (map (\<lambda>r. received [r]) os)"
  by (induction os rule: received.induct) auto

fun queue_step :: "('a \<Rightarrow> 'c \<Rightarrow> bool \<times> 'c) \<Rightarrow> ('c \<Rightarrow> ('a \<times> 'c) option) \<Rightarrow> 'a queue_op \<Rightarrow> 'c \<Rightarrow> 'a queue_out \<times> 'c" where
  "queue_step snd_op rcv_op (SendOp x) c = (let (b, c') = snd_op x c in (if b then Sent x else Full x, c'))"
| "queue_step snd_op rcv_op RecvOp c = (case rcv_op c of None \<Rightarrow> (Empty, c) | Some (x, c') \<Rightarrow> (Received x, c'))"

locale bounded_queue =
  fixes send :: "'a \<Rightarrow> 'c \<Rightarrow> bool \<times> 'c"
    and recv :: "'c \<Rightarrow> ('a \<times> 'c) option"
    and contents :: "'c \<Rightarrow> 'a list"
    and capacity :: "'c \<Rightarrow> nat"
  assumes send_accepts: "fst (send x c) \<longleftrightarrow> length (contents c) < capacity c"
    and send_contents: "contents (snd (send x c)) = (if fst (send x c) then contents c @ [x] else contents c)"
    and send_capacity: "capacity (snd (send x c)) = capacity c"
    and recv_none: "recv c = None \<longleftrightarrow> contents c = []"
    and recv_some: "recv c = Some (x, c') \<Longrightarrow> contents c = x # contents c' \<and> capacity c' = capacity c"
begin

abbreviation "step \<equiv> queue_step send recv"

lemma step_fifo: "step q c = (r, c') \<Longrightarrow> contents c @ sent [r] = received [r] @ contents c'"
  using send_contents recv_some [of c]
  by (cases q) (auto simp: Let_def split_beta split: option.splits if_splits)

text \<open>First in, first out, and nothing in between is lost or invented, over any sequence of operations.\<close>

lemma fifo: "contents c @ sent (fst (run_ops step qs c)) = received (fst (run_ops step qs c)) @ contents (snd (run_ops step qs c))"
  unfolding sent_concat [of "fst (run_ops step qs c)"] received_concat [of "fst (run_ops step qs c)"]
  by (rule run_ops_flow [OF step_fifo])

lemma step_bound: "length (contents c) \<le> capacity c \<Longrightarrow> length (contents (snd (step q c))) \<le> capacity (snd (step q c))"
  using send_accepts send_contents send_capacity recv_some [of c]
  by (cases q) (fastforce simp: Let_def split_beta split: option.splits if_splits)+

lemma run_bound: "length (contents c) \<le> capacity c \<Longrightarrow>
    length (contents (snd (run_ops step qs c))) \<le> capacity (snd (run_ops step qs c))"
  by (rule run_ops_inv [where P = "\<lambda>c. length (contents c) \<le> capacity c"]) (auto intro: step_bound)

end

interpretation chan: bounded_queue try_send try_recv chan_buf chan_cap
  by unfold_locales (auto simp: try_send_def try_recv_def split: list.splits)

lemma chan_ok_make [simp]: "chan_ok (make_chan n)"
  by (simp add: chan_ok_def make_chan_def)

lemma chan_ok_send: "chan_ok c \<Longrightarrow> chan_ok (snd (try_send x c))"
  by (simp add: chan_ok_def try_send_def)

lemma chan_ok_recv: "chan_ok c \<Longrightarrow> try_recv c = Some (x, c') \<Longrightarrow> chan_ok c'"
  by (auto simp: chan_ok_def try_recv_def split: list.splits)

lemma chan_cap_send [simp]: "chan_cap (snd (try_send x c)) = chan_cap c"
  by (rule chan.send_capacity)

end
