(* ===== verification/EventsService.thy ===== *)
theory EventsService
  imports EventsRepo Channel "HOL-Library.Sublist"
begin

text \<open>
  \<^verbatim>\<open>internal/events/service.go\<close>: the hub that batches stored events for the live feed, and the
  service's reads, replay and search. The hub is a record of the service's fields; the goroutine of
  \<open>Start\<close>, the HTTP handlers that call \<open>Send\<close>, and the live-feed clients interleave, one operation
  at a time, at the granularity of the mutex.
\<close>

section \<open>The hub\<close>

definition maxBatchSize :: nat where
  "maxBatchSize = 200"

definition maxBufferSize :: nat where
  "maxBufferSize = 10000"

definition maxHooksPerChannel :: nat where
  "maxHooksPerChannel = 100"

text \<open>
  A subscriber's channel is known by the number of the call of \<open>Subscribe\<close> that made it.
  \<open>in_flight\<close> is the local variable \<^verbatim>\<open>batch\<close> of a \<open>flush\<close> that has released the mutex after
  taking the buffer and has not yet acquired it again.
\<close>

record hub =
  buffer :: "webhook list"
  broadcast :: "webhook chan"
  subscribers :: "(nat \<times> webhook list chan) list"
  dropped :: int
  next_sub :: nat
  in_flight :: "webhook list option"

definition NewEventService :: hub where
  "NewEventService = \<lparr>buffer = [], broadcast = make_chan maxBufferSize, subscribers = [], dropped = 0,
     next_sub = 0, in_flight = None\<rparr>"

definition Send :: "webhook \<Rightarrow> hub \<Rightarrow> bool \<times> hub" where
  "Send event s = (let (ok, c) = try_send event (broadcast s) in (ok, s\<lparr>broadcast := c\<rparr>))"

text \<open>The receive case of the loop of \<open>Start\<close>, when there is something to receive.\<close>

definition consume :: "hub \<Rightarrow> hub" where
  "consume s = (case try_recv (broadcast s) of
      None \<Rightarrow> s
    | Some (event, c) \<Rightarrow> s\<lparr>broadcast := c, buffer := buffer s @ [event]\<rparr>)"

function drainBroadcast :: "hub \<Rightarrow> hub" where
  "drainBroadcast s = (case try_recv (broadcast s) of
      None \<Rightarrow> s
    | Some (event, c) \<Rightarrow> drainBroadcast (s\<lparr>broadcast := c, buffer := buffer s @ [event]\<rparr>))"
  by pat_completeness auto

termination
  by (relation "measure (\<lambda>s. length (chan_buf (broadcast s)))") (auto dest: chan.recv_some)

declare drainBroadcast.simps [simp del]

text \<open>
  The two critical sections of \<open>flush\<close>. The first hands back what it cuts off and the batch; the
  early return on an empty buffer is \<^const>\<open>None\<close>. The second tries every subscriber once; they do not
  affect one another, so the order in which Go visits the map is of no account.
\<close>

definition flush_take :: "hub \<Rightarrow> (webhook list \<times> webhook list) option \<times> hub" where
  "flush_take s =
     (if buffer s = [] then (None, s)
      else let n = length (buffer s);
               excess = (if maxBatchSize < n then n - maxBatchSize else 0);
               batch = drop excess (buffer s)
           in (Some (take excess (buffer s), batch),
               s\<lparr>buffer := [], dropped := (if maxBatchSize < n then wrap64 (dropped s + int excess) else dropped s)\<rparr>))"

definition flush_deliver :: "webhook list \<Rightarrow> hub \<Rightarrow> hub" where
  "flush_deliver batch s = s\<lparr>subscribers := map (\<lambda>(i, c). (i, snd (try_send batch c))) (subscribers s)\<rparr>"

definition flush :: "hub \<Rightarrow> hub" where
  "flush s = (case flush_take s of (None, s') \<Rightarrow> s' | (Some (old, batch), s') \<Rightarrow> flush_deliver batch s')"

definition Subscribe :: "hub \<Rightarrow> nat \<times> hub" where
  "Subscribe s = (next_sub s,
     s\<lparr>subscribers := subscribers s @ [(next_sub s, make_chan maxHooksPerChannel)], next_sub := next_sub s + 1\<rparr>)"

text \<open>The closure that \<open>Subscribe\<close> returns. Closing a channel a second time is a run-time panic.\<close>

definition unsub :: "nat \<Rightarrow> hub \<Rightarrow> unit res \<times> hub" where
  "unsub i s =
     (if i \<in> fst ` set (subscribers s) then (Ok (), s\<lparr>subscribers := filter (\<lambda>(j, c). j \<noteq> i) (subscribers s)\<rparr>)
      else (Panic, s))"

definition Dropped :: "hub \<Rightarrow> int \<times> hub" where
  "Dropped s = (dropped s, s\<lparr>dropped := 0\<rparr>)"

text \<open>A client takes the next batch from its channel.\<close>

definition recv_batch :: "nat \<Rightarrow> hub \<Rightarrow> webhook list option \<times> hub" where
  "recv_batch i s = (case map_of (subscribers s) i of
      None \<Rightarrow> (None, s)
    | Some c \<Rightarrow> (case try_recv c of
        None \<Rightarrow> (None, s)
      | Some (b, c') \<Rightarrow> (Some b, s\<lparr>subscribers := map (\<lambda>(j, k). if j = i then (j, c') else (j, k)) (subscribers s)\<rparr>)))"

section \<open>Interleavings\<close>

text \<open>
  \<open>OpTake\<close> and \<open>OpDeliver\<close> are the two halves of \<open>flush\<close>; only the goroutine of \<open>Start\<close> performs
  \<open>OpConsume\<close>, \<open>OpDrain\<close>, \<open>OpTake\<close> and \<open>OpDeliver\<close>, so none of the first three happens
  while a batch is in flight.
\<close>

datatype hub_op =
    OpSend webhook | OpConsume | OpDrain | OpTake | OpDeliver
  | OpSubscribe | OpUnsub nat | OpRecv nat | OpDropped

datatype hub_out =
    Accepted webhook | Refused webhook | Cut "webhook list" "webhook list" | Offered "webhook list"
  | Subscribed nat | Unsubscribed | DoubleClose | Batch nat "webhook list" | Count int | Silent

fun hub_step :: "hub_op \<Rightarrow> hub \<Rightarrow> hub_out \<times> hub" where
  "hub_step (OpSend e) s = (let (ok, s') = Send e s in (if ok then Accepted e else Refused e, s'))"
| "hub_step OpConsume s = (Silent, if in_flight s = None then consume s else s)"
| "hub_step OpDrain s = (Silent, if in_flight s = None then drainBroadcast s else s)"
| "hub_step OpTake s =
     (if in_flight s \<noteq> None then (Silent, s)
      else case flush_take s of
        (None, s') \<Rightarrow> (Silent, s')
      | (Some (old, batch), s') \<Rightarrow> (Cut old batch, s'\<lparr>in_flight := Some batch\<rparr>))"
| "hub_step OpDeliver s =
     (case in_flight s of
        None \<Rightarrow> (Silent, s)
      | Some batch \<Rightarrow> (Offered batch, (flush_deliver batch s)\<lparr>in_flight := None\<rparr>))"
| "hub_step OpSubscribe s = (let (i, s') = Subscribe s in (Subscribed i, s'))"
| "hub_step (OpUnsub i) s = (case unsub i s of (Ok _, s') \<Rightarrow> (Unsubscribed, s') | (_, s') \<Rightarrow> (DoubleClose, s'))"
| "hub_step (OpRecv i) s = (case recv_batch i s of (None, s') \<Rightarrow> (Silent, s') | (Some b, s') \<Rightarrow> (Batch i b, s'))"
| "hub_step OpDropped s = (let (n, s') = Dropped s in (Count n, s'))"

text \<open>One round of the ticker is \<open>flush\<close> after \<open>drainBroadcast\<close>.\<close>

definition tick :: "hub \<Rightarrow> hub" where
  "tick s = flush (drainBroadcast s)"

lemma drainBroadcast_all:
  "drainBroadcast s = s\<lparr>broadcast := (broadcast s)\<lparr>chan_buf := []\<rparr>, buffer := buffer s @ chan_buf (broadcast s)\<rparr>"
proof (induction s rule: drainBroadcast.induct)
  case (1 s)
  show ?case
    using 1 by (subst drainBroadcast.simps) (auto simp: try_recv_def split: list.splits)
qed

lemma tick_ops:
  assumes "in_flight s = None"
  shows "snd (run_ops hub_step [OpDrain, OpTake, OpDeliver] s) = tick s"
  using assms
  by (auto simp: tick_def flush_def Let_def flush_take_def flush_deliver_def drainBroadcast_all
      split: prod.splits option.splits if_splits)

section \<open>Nothing is lost between the handlers and the batches\<close>

fun accepted :: "hub_out \<Rightarrow> webhook list" where
  "accepted (Accepted e) = [e]"
| "accepted _ = []"

fun taken :: "hub_out \<Rightarrow> webhook list" where
  "taken (Cut old batch) = old @ batch"
| "taken _ = []"

fun cut_off :: "hub_out \<Rightarrow> int" where
  "cut_off (Cut old batch) = int (length old)"
| "cut_off _ = 0"

fun counted :: "hub_out \<Rightarrow> int" where
  "counted (Count n) = n"
| "counted _ = 0"

definition waiting :: "hub \<Rightarrow> webhook list" where
  "waiting s = buffer s @ chan_buf (broadcast s)"

lemma flush_take_parts:
  "flush_take s = (Some (old, batch), s') \<Longrightarrow>
     buffer s = old @ batch \<and> batch \<noteq> [] \<and> length batch \<le> maxBatchSize \<and>
     length old = length (buffer s) - maxBatchSize \<and>
     s' = s\<lparr>buffer := [], dropped := (if old = [] then dropped s else wrap64 (dropped s + int (length old)))\<rparr>"
  by (auto simp: flush_take_def Let_def maxBatchSize_def split: if_splits)

lemma flush_take_None: "flush_take s = (None, s') \<Longrightarrow> s' = s"
  by (auto simp: flush_take_def Let_def split: if_splits)

lemmas hub_ops = Send_def try_send_def consume_def try_recv_def drainBroadcast_all Subscribe_def unsub_def
  Dropped_def recv_batch_def flush_deliver_def Let_def

lemma hub_step_flow: "hub_step x s = (r, s') \<Longrightarrow> waiting s @ accepted r = taken r @ waiting s'"
  by (cases x)
    (auto simp: waiting_def hub_ops dest!: flush_take_parts flush_take_None
       split: if_splits list.splits option.splits prod.splits res.splits)

lemma hub_step_count:
  "hub_step x s = (r, s') \<Longrightarrow> dropped s' mod 2 ^ 64 = (dropped s + (cut_off r - counted r)) mod 2 ^ 64"
  by (cases x)
    (auto simp: hub_ops wrap64_mod [simplified] dest!: flush_take_parts flush_take_None
       split: if_splits list.splits option.splits prod.splits res.splits)

section \<open>Bounds\<close>

definition batch_ok :: "webhook list \<Rightarrow> bool" where
  "batch_ok b \<longleftrightarrow> b \<noteq> [] \<and> length b \<le> maxBatchSize"

definition sub_ok :: "webhook list chan \<Rightarrow> bool" where
  "sub_ok c \<longleftrightarrow> chan_cap c = maxHooksPerChannel \<and> chan_ok c \<and> list_all batch_ok (chan_buf c)"

definition hub_ok :: "hub \<Rightarrow> bool" where
  "hub_ok s \<longleftrightarrow> chan_cap (broadcast s) = maxBufferSize \<and> chan_ok (broadcast s) \<and>
     list_all (\<lambda>(i, c). i < next_sub s \<and> sub_ok c) (subscribers s) \<and> distinct (map fst (subscribers s)) \<and>
     (case in_flight s of None \<Rightarrow> True | Some b \<Rightarrow> batch_ok b)"

lemma hub_ok_new: "hub_ok NewEventService"
  by (simp add: hub_ok_def NewEventService_def make_chan_def chan_ok_def)

lemma sub_ok_new: "sub_ok (make_chan maxHooksPerChannel)"
  by (simp add: sub_ok_def make_chan_def chan_ok_def)

lemma sub_ok_send: "sub_ok c \<Longrightarrow> batch_ok b \<Longrightarrow> sub_ok (snd (try_send b c))"
  by (auto simp: sub_ok_def try_send_def chan_ok_def)

lemma sub_ok_recv: "sub_ok c \<Longrightarrow> try_recv c = Some (b, c') \<Longrightarrow> sub_ok c' \<and> batch_ok b"
  by (auto simp: sub_ok_def try_recv_def chan_ok_def split: list.splits)

definition set_chan :: "nat \<Rightarrow> webhook list chan \<Rightarrow> hub \<Rightarrow> hub" where
  "set_chan i c s = s\<lparr>subscribers := map (\<lambda>(j, k). if j = i then (j, c) else (j, k)) (subscribers s)\<rparr>"

lemma recv_batch_cases:
  obtains (nothing) "recv_batch i s = (None, s)"
    | (batch) c b c' where "map_of (subscribers s) i = Some c" "try_recv c = Some (b, c')"
        "recv_batch i s = (Some b, set_chan i c' s)"
  unfolding recv_batch_def set_chan_def
  by (cases "map_of (subscribers s) i"; cases "try_recv (the (map_of (subscribers s) i))") auto

lemma hub_ok_set_chan:
  assumes ok: "hub_ok s" and c: "sub_ok c"
  shows "hub_ok (set_chan i c s)"
proof -
  have "fst \<circ> (\<lambda>(j, k). if j = i then (j, c) else (j, k)) = fst" by auto
  moreover have "list_all (\<lambda>(i, c). i < n \<and> sub_ok c) (map (\<lambda>(j, k). if j = i then (j, c) else (j, k)) xs)"
    if "list_all (\<lambda>(i, c). i < n \<and> sub_ok c) xs" for xs n
    using that c by (induction xs) (auto split: if_splits)
  ultimately show ?thesis using ok by (simp add: hub_ok_def set_chan_def del: o_apply)
qed

lemma hub_ok_step: "hub_ok s \<Longrightarrow> hub_ok (snd (hub_step x s))"
proof (cases x)
  case OpTake
  then show "hub_ok s \<Longrightarrow> ?thesis"
    by (auto simp: hub_ok_def batch_ok_def split: prod.splits option.splits dest!: flush_take_parts flush_take_None)
next
  case OpDeliver
  then show "hub_ok s \<Longrightarrow> ?thesis"
    by (auto simp: hub_ok_def flush_deliver_def list_all_iff comp_def split_beta sub_ok_send split: option.splits)
next
  case (OpUnsub i)
  then show "hub_ok s \<Longrightarrow> ?thesis"
    by (auto simp: hub_ok_def unsub_def list_all_iff distinct_map inj_on_def split_beta)
next
  case (OpRecv i)
  assume ok: "hub_ok s"
  show ?thesis
  proof (cases rule: recv_batch_cases [of i s])
    case nothing
    then show ?thesis using ok OpRecv by simp
  next
    case (batch c b c')
    have "i < next_sub s" "sub_ok c'"
      using ok batch(1) sub_ok_recv [OF _ batch(2)] by (auto simp: hub_ok_def list_all_iff dest!: map_of_SomeD)
    then show ?thesis using ok OpRecv batch(3) by (simp add: hub_ok_set_chan)
  qed
next
  case (OpSend e)
  then show "hub_ok s \<Longrightarrow> ?thesis"
    by (simp add: hub_ok_def Send_def split_beta Let_def chan_ok_send)
next
  case OpConsume
  then show "hub_ok s \<Longrightarrow> ?thesis"
    by (auto simp: hub_ok_def consume_def try_recv_def chan_ok_def split: list.split)
next
  case OpDrain
  then show "hub_ok s \<Longrightarrow> ?thesis"
    by (simp add: hub_ok_def drainBroadcast_all chan_ok_def)
next
  case OpSubscribe
  then show "hub_ok s \<Longrightarrow> ?thesis"
    by (auto simp: hub_ok_def Subscribe_def Let_def list_all_iff sub_ok_new)
next
  case OpDropped
  then show "hub_ok s \<Longrightarrow> ?thesis"
    by (simp add: hub_ok_def Dropped_def)
qed

section \<open>Order\<close>

definition queue_of :: "nat \<Rightarrow> hub \<Rightarrow> webhook list list" where
  "queue_of i s = (case map_of (subscribers s) i of None \<Rightarrow> [] | Some c \<Rightarrow> chan_buf c)"

fun got :: "nat \<Rightarrow> hub_out \<Rightarrow> webhook list list" where
  "got i (Batch j b) = (if j = i then [b] else [])"
| "got i _ = []"

fun offered :: "hub_out \<Rightarrow> webhook list list" where
  "offered (Offered b) = [b]"
| "offered _ = []"

lemma map_of_filter_other: "map_of (filter (\<lambda>(j, c). j \<noteq> i) xs) k = (if k = i then None else map_of xs k)"
  by (induction xs) auto

lemma queue_of_set_chan:
  "map_of (subscribers s) i = Some c \<Longrightarrow> queue_of k (set_chan i c' s) = (if k = i then chan_buf c' else queue_of k s)"
proof -
  have "map_of (map (\<lambda>(j, k). if j = i then (j, c') else (j, k)) xs) k =
      (if k = i then map_option (\<lambda>_. c') (map_of xs i) else map_of xs k)" for xs :: "(nat \<times> webhook list chan) list"
    by (induction xs) auto
  then show "map_of (subscribers s) i = Some c \<Longrightarrow> ?thesis" by (simp add: queue_of_def set_chan_def)
qed

lemma queue_of_deliver: "subseq (queue_of i (flush_deliver b s)) (queue_of i s @ [b])"
  by (auto simp: queue_of_def flush_deliver_def map_of_map [unfolded comp_def] try_send_def split: option.splits)

lemma hub_step_order:
  assumes "hub_step x s = (r, s')"
  shows "subseq (got i r @ queue_of i s') (queue_of i s @ offered r)"
proof (cases x)
  case OpDeliver
  have "queue_of i (h\<lparr>in_flight := f\<rparr>) = queue_of i h" for h :: hub and f
    by (simp add: queue_of_def)
  then show ?thesis using assms OpDeliver queue_of_deliver by (auto split: option.splits)
next
  case (OpRecv j)
  then show ?thesis using assms
    by (cases rule: recv_batch_cases [of j s])
      (auto simp: queue_of_set_chan, auto simp: queue_of_def try_recv_def split: list.splits)
next
  case (OpUnsub j)
  then show ?thesis using assms by (auto simp: unsub_def queue_of_def map_of_filter_other split: if_splits)
next
  case OpTake
  then show ?thesis using assms
    by (auto simp: queue_of_def split: if_splits prod.splits option.splits dest!: flush_take_parts flush_take_None)
qed (use assms in \<open>auto simp: queue_of_def Send_def consume_def drainBroadcast_all Subscribe_def Dropped_def Let_def
    map_add_def make_chan_def split: prod.splits option.splits if_splits\<close>)

lemma hub_run_order:
  "subseq (concat (map (got i) (fst (run_ops hub_step xs s))) @ queue_of i (snd (run_ops hub_step xs s)))
     (queue_of i s @ concat (map offered (fst (run_ops hub_step xs s))))"
proof (induction xs arbitrary: s)
  case (Cons x xs)
  obtain r s' where f: "hub_step x s = (r, s')" by fastforce
  let ?o = "concat (map offered (fst (run_ops hub_step xs s')))"
  have "subseq (got i r @ queue_of i s' @ ?o) (queue_of i s @ offered r @ ?o)"
    using list_emb_append_mono [OF hub_step_order [OF f, of i] subseq_order.order_refl [of ?o]] by simp
  with Cons.IH [of s'] show ?case
    by (simp add: run_ops_Cons [where f = hub_step, OF f] del: run_ops.simps)
      (meson subseq_append' subseq_order.order_trans)
qed simp

section \<open>Properties of the live feed\<close>

text \<open>
  C15. However handlers, the batching goroutine and clients interleave, the events that \<open>Send\<close> has
  accepted are, in order, those that a flush has taken, followed by those that wait in the buffer
  and in the channel: none is lost, duplicated or reordered on the way to a batch. What a flush cuts
  off is counted: the counts that clients have read and the current count add up, modulo \<open>2\<^sup>6\<^sup>4\<close>,
  to the number of events cut off.
\<close>

theorem hub_conservation:
  "case run_ops hub_step xs NewEventService of (outs, s) \<Rightarrow>
     concat (map accepted outs) = concat (map taken outs) @ waiting s \<and>
     (sum_list (map counted outs) + dropped s) mod 2 ^ 64 = sum_list (map cut_off outs) mod 2 ^ 64"
proof -
  obtain outs s where run: "run_ops hub_step xs NewEventService = (outs, s)" by fastforce
  have "concat (map accepted outs) = concat (map taken outs) @ waiting s"
    using run_ops_flow [where f = hub_step and s = NewEventService and xs = xs and inside = waiting and
        flow_in = accepted and flow_out = taken, OF hub_step_flow] run
    by (simp add: waiting_def NewEventService_def make_chan_def)
  moreover have "dropped s mod 2 ^ 64 = sum_list (map (\<lambda>r. cut_off r - counted r) outs) mod 2 ^ 64"
    using run_ops_sum [where f = hub_step and s = NewEventService and xs = xs and amount = dropped and
        gain = "\<lambda>r. cut_off r - counted r", OF hub_step_count] run
    by (simp add: NewEventService_def)
  then have "(sum_list (map counted outs) + dropped s) mod 2 ^ 64 =
      (sum_list (map counted outs) + sum_list (map (\<lambda>r. cut_off r - counted r) outs)) mod 2 ^ 64"
    by (intro mod_add_cong refl)
  ultimately show ?thesis using run by (simp add: sum_list_subtractf)
qed

text \<open>
  C26. The hub stays within its bounds whatever happens: at most 10000 events wait in the channel, at
  most 100 batches wait for a client, every batch is non-empty and has at most 200 events, and each
  client has one channel. A client sees batches in the order in which they were flushed: what it
  has received and what waits for it is a subsequence of the flushed batches.
\<close>

theorem hub_bounds_and_order:
  "case run_ops hub_step xs NewEventService of (outs, s) \<Rightarrow>
     length (chan_buf (broadcast s)) \<le> 10000 \<and>
     distinct (map fst (subscribers s)) \<and>
     list_all (\<lambda>(i, c). length (chan_buf c) \<le> 100 \<and>
       list_all (\<lambda>b. b \<noteq> [] \<and> length b \<le> 200) (chan_buf c)) (subscribers s) \<and>
     subseq (concat (map (got i) outs) @ queue_of i s) (concat (map offered outs))"
proof -
  obtain outs s where run: "run_ops hub_step xs NewEventService = (outs, s)" by fastforce
  have "hub_ok s"
    using run_ops_inv [of xs hub_ok hub_step NewEventService] hub_ok_step hub_ok_new run by auto
  then show ?thesis
    using hub_run_order [of i xs NewEventService] run
    by (auto simp: hub_ok_def chan_ok_def sub_ok_def batch_ok_def [abs_def] maxBufferSize_def maxHooksPerChannel_def
        maxBatchSize_def queue_of_def NewEventService_def list_all_iff)
qed

section \<open>Reads, replay and search\<close>

definition GetAll :: "fault \<Rightarrow> time option \<Rightarrow> db \<Rightarrow> webhook list res" where
  "GetAll ft createdAt d = getAll ft createdAt d"

definition GetStats :: "fault \<Rightarrow> time \<Rightarrow> db \<Rightarrow> stats res" where
  "GetStats ft now d = getStats ft now d"

definition ReplayEvent :: "(string \<Rightarrow> uuid res) \<Rightarrow> fault \<Rightarrow> time \<Rightarrow> string \<Rightarrow> db \<Rightarrow> unit res \<times> db" where
  "ReplayEvent uuid_parse ft now i d =
     (case uuid_parse i of
        Ok u \<Rightarrow> replayEvent ft now u d
      | _ \<Rightarrow> (Err ErrInvalidUUID, d))"

text \<open>The zero value of \<^verbatim>\<open>time.Time\<close> is the first of January of year 1; \<open>time.Parse\<close> returns it with an error.\<close>

definition zero_time :: time where
  "zero_time = - 62135596800 * second"

definition convTime :: "(string \<Rightarrow> time option) \<Rightarrow> string \<Rightarrow> time" where
  "convTime parse txt = (case parse txt of Some t \<Rightarrow> t | None \<Rightarrow> zero_time)"

definition lookup_opts_of :: "int \<Rightarrow> search_request \<Rightarrow> lookup_opts" where
  "lookup_opts_of reqLimit opts = \<lparr>lo_webhook_id = sr_webhook_id opts, lo_event_id = sr_event_id opts,
     lo_offset = sr_offset opts, lo_limit = reqLimit\<rparr>"

definition filter_opts_of :: "(string \<Rightarrow> time option) \<Rightarrow> int \<Rightarrow> search_request \<Rightarrow> filter_opts" where
  "filter_opts_of parse reqLimit opts = \<lparr>fo_providers = sr_providers opts, fo_event_type = sr_event_type opts,
     fo_delivery_statuses = sr_delivery_statuses opts, fo_response_code = sr_response_code opts,
     fo_from_time = map_option (convTime parse) (sr_from_time opts),
     fo_to_time = map_option (convTime parse) (sr_to_time opts),
     fo_payload_search = sr_payload_search opts, fo_has_retries = sr_has_retries opts,
     fo_has_error = sr_has_error opts, fo_offset = sr_offset opts, fo_limit = reqLimit\<rparr>"

definition page_size :: "search_request \<Rightarrow> int" where
  "page_size opts = (if sr_limit opts \<le> 0 then 25 else sr_limit opts)"

definition Search :: "fault \<Rightarrow> pg \<Rightarrow> (string \<Rightarrow> time option) \<Rightarrow> search_request \<Rightarrow> db \<Rightarrow> search_response res" where
  "Search ft pg parse opts d =
     (let lmt = page_size opts;
          reqLimit = wrap64 (lmt + 1)
      in res_bind (if sr_type opts = LookUp then lookup ft pg (lookup_opts_of reqLimit opts) d else Ok [])
        (\<lambda>found. res_bind (if sr_type opts = Filter
             then res_bind (filter_events ft pg (filter_opts_of parse reqLimit opts) d) (\<lambda>hooks. Ok (found @ hooks))
             else Ok found)
        (\<lambda>found. let hasMore = lmt < int (length found) in
           Ok \<lparr>rs_events = (if hasMore then take (nat lmt) found else found), rs_has_more = hasMore\<rparr>)))"

text \<open>The events that a search asks for.\<close>

definition search_match :: "pg \<Rightarrow> (string \<Rightarrow> time option) \<Rightarrow> search_request \<Rightarrow> webhook \<Rightarrow> bool" where
  "search_match pg parse opts w \<longleftrightarrow>
     (if sr_type opts = LookUp then lookup_match pg (lookup_opts_of 0 opts) w
      else filter_match pg (filter_opts_of parse 0 opts) w)"

lemma match_any_limit:
  "lookup_match pg (lookup_opts_of l opts) = lookup_match pg (lookup_opts_of 0 opts)"
  "filter_match pg (filter_opts_of parse l opts) = filter_match pg (filter_opts_of parse 0 opts)"
  by (auto simp: lookup_match_def lookup_opts_of_def filter_match_def filter_opts_of_def fun_eq_iff)

text \<open>One row more than the page tells whether there is a next page.\<close>

lemma page_one_more:
  assumes "0 < l" and "0 \<le> off"
  shows "l < int (length (page (l + 1) off rows)) \<longleftrightarrow> off + l < int (length rows)"
    and "(if l < int (length (page (l + 1) off rows)) then take (nat l) (page (l + 1) off rows)
          else page (l + 1) off rows) = page l off rows"
  using assms by (auto simp: page_def min_def nat_add_distrib split: if_splits)

lemma search_query_correct:
  assumes "Validate parse opts = None" and "0 \<le> l" and "0 \<le> sr_offset opts"
    and "sr_type opts = Filter \<Longrightarrow> list_all (\<lambda>s. enum_in s \<noteq> None) (sr_delivery_statuses opts)"
  shows "(if sr_type opts = LookUp then lookup NoFault pg (lookup_opts_of l opts) d
          else filter_events NoFault pg (filter_opts_of parse l opts) d) =
      Ok (page l (sr_offset opts) (filter (search_match pg parse opts) (webhook_events d)))"
proof (cases "sr_type opts = LookUp")
  case True
  then have "some_text (sr_webhook_id opts) \<or> some_text (sr_event_id opts)"
    using assms(1) validateLookup_None [of opts]
    by (auto simp: Validate_def some_text_def derefStr_def split: option.splits)
  then have "lookup NoFault pg (lookup_opts_of l opts) d =
      Ok (page l (sr_offset opts) (filter (lookup_match pg (lookup_opts_of l opts)) (webhook_events d)))"
    using lookup_query_correct [of "lookup_opts_of l opts" pg d] assms(2,3) by (simp add: lookup_opts_of_def)
  then show ?thesis using True by (simp add: search_match_def [abs_def] match_any_limit(1) [of _ l])
next
  case False
  then have "sr_type opts = Filter" "validateFilter parse opts = None"
    using assms(1) by (auto simp: Validate_def split: if_splits)
  then have "filter_events NoFault pg (filter_opts_of parse l opts) d =
      Ok (page l (sr_offset opts) (filter (filter_match pg (filter_opts_of parse l opts)) (webhook_events d)))"
    using filter_query_correct [of "filter_opts_of parse l opts" pg d] assms(2-4) validateFilter_None(1)
    by (simp add: filter_opts_of_def)
  then show ?thesis using False by (simp add: search_match_def [abs_def] match_any_limit(2) [of _ _ l])
qed


definition sample_search :: search_request where
  "sample_search = \<lparr>sr_type = Filter, sr_webhook_id = None, sr_event_id = None, sr_providers = [Github],
     sr_event_type = None, sr_delivery_statuses = [''failed''], sr_response_code = None, sr_from_time = None,
     sr_to_time = None, sr_payload_search = None, sr_has_retries = False, sr_has_error = False,
     sr_offset = 0, sr_limit = 1\<rparr>"

definition sample_event :: webhook where
  "sample_event = \<lparr>wh_id = 7, provider_id = 1, provider_name = Github, event_id = Some ''e1'', event_type = ''push'',
     headers = ''{}'', payload = ''{}'', status = Failed, forwarded_to = [], response_code = None, retry_count = 0,
     next_retry_at = None, last_error = None, received_at = 0, created_at = 5, updated_at = 5\<rparr>"


section \<open>The largest limit\<close>

text \<open>The placeholder of \<open>LIMIT\<close> always refers to the limit.\<close>

definition next_free :: "builder \<Rightarrow> bool" where
  "next_free b \<longleftrightarrow> (case b of (conds, args, n) \<Rightarrow> n = length args + 1)"

lemma next_free_steps:
  "next_free ([], [], 1)"
  "next_free b \<Longrightarrow> next_free (add_cond c a b)"
  "next_free b \<Longrightarrow> next_free (add_plain pc b)"
  "next_free b \<Longrightarrow> (next_free b \<Longrightarrow> next_free (f b)) \<Longrightarrow> next_free (add_if B f b)"
  by (cases b; simp add: next_free_def add_if_def)+

lemma negative_limit:
  assumes "next_free b" and "lmt < 0"
  shows "\<exists>s. query_sem pg (finish_query j lmt off b) d = Err (Driver (PgError s))"
proof -
  obtain conds args n where b: "b = (conds, args, n)" by (cases b)
  then have "arg (args @ [AInt lmt, AInt off]) n = Some (AInt lmt)"
    "arg (args @ [AInt lmt, AInt off]) (n + 1) = Some (AInt off)"
    using assms(1) by (simp_all add: next_free_def arg_def nth_append)
  then show ?thesis using assms(2) by (auto simp: query_sem_def b split: option.split)
qed

text \<open>
  A search for \<open>2\<^sup>6\<^sup>3 - 1\<close> events is refused by the database: the limit with the extra row is
  negative.
\<close>

lemma search_limit_overflow:
  assumes "Validate parse opts = None" and "sr_limit opts = 2 ^ 63 - 1"
  shows "\<exists>s. Search NoFault pg parse opts d = Err (Driver (PgError s))"
proof -
  have w: "wrap64 (page_size opts + 1) = - (2 ^ 63)" by (simp add: page_size_def assms(2) wrap64_def)
  have "\<exists>s. lookup NoFault pg (lookup_opts_of (- (2 ^ 63)) opts) d = Err (Driver (PgError s))"
    unfolding lookup_def ask_NoFault lookup_query_def by (rule negative_limit, intro next_free_steps) (simp add: lookup_opts_of_def)
  moreover have "\<exists>s. filter_events NoFault pg (filter_opts_of parse (- (2 ^ 63)) opts) d = Err (Driver (PgError s))"
    unfolding filter_events_def ask_NoFault filter_query_def by (rule negative_limit, intro next_free_steps) (simp add: filter_opts_of_def)
  moreover have "sr_type opts = LookUp \<or> sr_type opts = Filter"
    using assms(1) by (auto simp: Validate_def split: if_splits)
  ultimately show ?thesis by (auto simp: Search_def Let_def w)
qed

end
