(* ===== verification/Pool.thy ===== *)
theory Pool
  imports Channel
begin

text \<open>
  \<^verbatim>\<open>internal/worker/pool.go\<close>: the numbers of workers and the channel through which the request
  handlers wake the queue workers. The goroutines that \<open>start\<close> launches are the workers of the
  theories about them.
\<close>

definition TotalQueueWorkers :: nat where
  "TotalQueueWorkers = 8"

definition TotalRetryWorkers :: nat where
  "TotalRetryWorkers = 4"

type_synonym pool_signal = "unit chan"

definition new_signal :: pool_signal where
  "new_signal = make_chan TotalQueueWorkers"

definition Notify :: "pool_signal \<Rightarrow> pool_signal" where
  "Notify sig = snd (try_send () sig)"

text \<open>After a notification at least one worker has something to wake up for.\<close>

lemma Notify_wakes:
  "0 < chan_cap sig \<Longrightarrow> chan_ok sig \<Longrightarrow> chan_buf (Notify sig) \<noteq> [] \<and> chan_ok (Notify sig) \<and> chan_cap (Notify sig) = chan_cap sig"
  by (auto simp: Notify_def try_send_def chan_ok_def)

end
