(* ===== verification/Ingest.thy ===== *)
theory Ingest
  imports Http ProviderHooks EventsService Pool
begin

text \<open>
  \<^verbatim>\<open>internal/api/handler/{github,shopify,stripe}.go\<close>: the handlers that receive webhooks. A
  handler reads the request, verifies it, looks for a duplicate, stores the event, hands it to the
  live feed and wakes the workers. Its answer is a status code and the JSON object it writes, as an
  association list; a panic in a handler is recovered by \<^verbatim>\<open>net/http\<close>, which closes the connection.
\<close>

section \<open>Responses and the state the handlers share\<close>

record response =
  rsp_code :: nat
  rsp_body :: "(string \<times> string) list"

record world =
  wd_db :: db
  wd_redis :: redis
  wd_hub :: hub
  wd_signal :: pool_signal

text \<open>
  What the environment does during one request: the faults of its calls, in their order, the insert's
  environment, the JSON form of the headers and, for Stripe, its library's check.
\<close>

record receive_env =
  re_svc :: svc
  re_validate_get :: fault
  re_exists_get :: fault
  re_exists :: fault
  re_store :: store_env
  re_marshal_header :: "header \<Rightarrow> bytes res"
  re_construct :: construct_event

definition gitMaxBodyBytes :: nat where
  "gitMaxBodyBytes = 25000000"

definition shopifyMaxBodyBytes :: nat where
  "shopifyMaxBodyBytes = 5000000"

definition StripeMaxBodyBytes :: nat where
  "StripeMaxBodyBytes = 65539"

definition reply :: "nat \<Rightarrow> world \<Rightarrow> response res \<times> world" where
  "reply c w = (Ok \<lparr>rsp_code = c, rsp_body = []\<rparr>, w)"

text \<open>The last steps of every handler, after the event has been stored.\<close>

definition queued_reply :: "webhook \<Rightarrow> string \<Rightarrow> db \<Rightarrow> world \<Rightarrow> response res \<times> world" where
  "queued_reply hook i d w =
     (Ok \<lparr>rsp_code = StatusOK, rsp_body = [(''id'', i), (''status'', ''queued'')]\<rparr>,
      w\<lparr>wd_db := d, wd_hub := snd (Send hook (wd_hub w)), wd_signal := Notify (wd_signal w)\<rparr>)"

section \<open>GitHub\<close>

definition git_Receive :: "receive_env \<Rightarrow> request \<Rightarrow> world \<Rightarrow> response res \<times> world" where
  "git_Receive re rq w =
     (case read_body gitMaxBodyBytes rq of
        None \<Rightarrow> reply StatusServiceUnavailable w
      | Some body \<Rightarrow>
     (let hid = header_get (rq_header rq) ''X-Github-Hook-Id'';
          event = header_get (rq_header rq) ''X-Github-Event'';
          signature = header_get (rq_header rq) ''X-Hub-Signature-256'';
          evID = header_get (rq_header rq) ''X-Github-Delivery''
      in if hid = [] then reply StatusBadRequest w
         else if event = [] then reply StatusBadRequest w
         else case github_ValidateSecret (re_svc re) (re_validate_get re) signature body (wd_redis w) of
           Panic \<Rightarrow> (Panic, w)
         | Err e \<Rightarrow>
             (if errors_is e ErrDecryption then reply StatusInternalServerError w
              else if errors_as_pg e then reply StatusInternalServerError w
              else reply StatusBadRequest w)
         | Ok _ \<Rightarrow>
        (case github_Exists (re_svc re) (re_exists_get re) (re_exists re) evID (wd_redis w) (wd_db w) of
           Panic \<Rightarrow> (Panic, w)
         | Err e \<Rightarrow> reply StatusInternalServerError w
         | Ok True \<Rightarrow> reply StatusOK w
         | Ok False \<Rightarrow>
        (case re_marshal_header re (rq_header rq) of
           Panic \<Rightarrow> (Panic, w)
         | Err e \<Rightarrow> reply StatusBadRequest w
         | Ok hdrs \<Rightarrow>
        (case github_InsertWebhook (re_svc re) (re_store re) hdrs body hid event (wd_redis w) (wd_db w) of
           (Panic, d) \<Rightarrow> (Panic, w\<lparr>wd_db := d\<rparr>)
         | (Err e, d) \<Rightarrow>
             (if errors_is e ErrHookExists then reply StatusOK (w\<lparr>wd_db := d\<rparr>)
              else reply StatusInternalServerError (w\<lparr>wd_db := d\<rparr>))
         | (Ok hook, d) \<Rightarrow> queued_reply hook hid d w)))))"

section \<open>Shopify\<close>

definition shopify_Receive :: "receive_env \<Rightarrow> request \<Rightarrow> world \<Rightarrow> response res \<times> world" where
  "shopify_Receive re rq w =
     (case read_body shopifyMaxBodyBytes rq of
        None \<Rightarrow> reply StatusServiceUnavailable w
      | Some body \<Rightarrow>
     (let hid = header_get (rq_header rq) ''X-Shopify-Webhook-Id'';
          event = header_get (rq_header rq) ''X-Shopify-Topic'';
          signature = header_get (rq_header rq) ''X-Shopify-Hmac-Sha256''
      in if hid = [] then reply StatusBadRequest w
         else case re_marshal_header re (rq_header rq) of
           Panic \<Rightarrow> (Panic, w)
         | Err e \<Rightarrow> reply StatusInternalServerError w
         | Ok hdrs \<Rightarrow>
        (if event = [] then reply StatusBadRequest w
         else case shopify_ValidateSecret (re_svc re) (re_validate_get re) signature body (wd_redis w) of
           Panic \<Rightarrow> (Panic, w)
         | Err e \<Rightarrow>
             (if errors_is e ErrDecryption then reply StatusInternalServerError w
              else if errors_is e ErrInvalidSignature then reply StatusBadRequest w
              else reply StatusInternalServerError w)
         | Ok _ \<Rightarrow>
        (case shopify_Exists (re_svc re) (re_exists_get re) (re_exists re) hid (wd_redis w) (wd_db w) of
           Panic \<Rightarrow> (Panic, w)
         | Err e \<Rightarrow> reply StatusInternalServerError w
         | Ok True \<Rightarrow> reply StatusOK w
         | Ok False \<Rightarrow>
        (case shopify_InsertWebhook (re_svc re) (re_store re) hdrs body hid event (wd_redis w) (wd_db w) of
           (Panic, d) \<Rightarrow> (Panic, w\<lparr>wd_db := d\<rparr>)
         | (Err e, d) \<Rightarrow>
             (if errors_is e ErrHookExists then reply StatusOK (w\<lparr>wd_db := d\<rparr>)
              else reply StatusInternalServerError (w\<lparr>wd_db := d\<rparr>))
         | (Ok hook, d) \<Rightarrow> queued_reply hook hid d w)))))"

section \<open>Stripe\<close>

definition stripe_Receive :: "receive_env \<Rightarrow> request \<Rightarrow> world \<Rightarrow> response res \<times> world" where
  "stripe_Receive re rq w =
     (case read_body StripeMaxBodyBytes rq of
        None \<Rightarrow> reply StatusServiceUnavailable w
      | Some body \<Rightarrow>
     (let signature = header_get (rq_header rq) ''Stripe-Signature''
      in case stripe_ValidateSecret (re_construct re) (re_svc re) (re_validate_get re) signature body (wd_redis w) of
           Panic \<Rightarrow> (Panic, w)
         | Err e \<Rightarrow>
             (if errors_is e ErrDecryption then reply StatusInternalServerError w
              else if errors_as_pg e then reply StatusInternalServerError w
              else reply StatusBadRequest w)
         | Ok event \<Rightarrow>
        (case stripe_Exists (re_svc re) (re_exists_get re) (re_exists re) (se_id event) (wd_redis w) (wd_db w) of
           Panic \<Rightarrow> (Panic, w)
         | Err e \<Rightarrow> reply StatusInternalServerError w
         | Ok True \<Rightarrow> reply StatusOK w
         | Ok False \<Rightarrow>
        (case re_marshal_header re (rq_header rq) of
           Panic \<Rightarrow> (Panic, w)
         | Err e \<Rightarrow> reply StatusBadRequest w
         | Ok hdrs \<Rightarrow>
        (case stripe_InsertWebhook (re_svc re) (re_store re) hdrs body event (wd_redis w) (wd_db w) of
           (Panic, d) \<Rightarrow> (Panic, w\<lparr>wd_db := d\<rparr>)
         | (Err e, d) \<Rightarrow>
             (if errors_is e ErrHookExists then reply StatusOK (w\<lparr>wd_db := d\<rparr>)
              else reply StatusInternalServerError (w\<lparr>wd_db := d\<rparr>))
         | (Ok hook, d) \<Rightarrow> queued_reply hook (se_id event) d w)))))"

section \<open>What every ingestion endpoint promises\<close>

text \<open>
  The specification of an endpoint of the provider \<open>name\<close>: a request is refused without any
  effect; or it is authentic, and then it is recognised as a duplicate because one of the ids \<open>seen\<close>
  is stored, or storing fails, or a new row with the id and event type \<open>own\<close> is stored, handed to
  the live feed, and the workers are woken.
\<close>

inductive ingests ::
  "string \<Rightarrow> receive_env \<Rightarrow> request \<Rightarrow> bool \<Rightarrow> string set \<Rightarrow> string \<times> string \<Rightarrow> world \<Rightarrow> response res \<times> world \<Rightarrow> bool"
  for name re rq authentic seen own w where
  refused: "c \<in> {400, 500, 503} \<Longrightarrow> ingests name re rq authentic seen own w (reply c w)"
| panicked: "ingests name re rq authentic seen own w (Panic, w)"
| known: "authentic \<Longrightarrow> cache_get (svc_codec (re_svc re)) NoFault name (wd_redis w) = Ok prov \<Longrightarrow> i \<in> seen \<Longrightarrow>
    has_event (pr_id prov) i (wd_db w) \<Longrightarrow> ingests name re rq authentic seen own w (reply StatusOK w)"
| failed: "authentic \<Longrightarrow> re_marshal_header re (rq_header rq) = Ok hdrs \<Longrightarrow>
    provider_insert name (re_svc re) (re_store re) hdrs (rq_body rq) (fst own) (snd own) (wd_redis w) (wd_db w) = (Err e, d) \<Longrightarrow>
    ingests name re rq authentic seen own w (reply StatusInternalServerError (w\<lparr>wd_db := d\<rparr>))"
| queued: "authentic \<Longrightarrow> re_marshal_header re (rq_header rq) = Ok hdrs \<Longrightarrow>
    provider_insert name (re_svc re) (re_store re) hdrs (rq_body rq) (fst own) (snd own) (wd_redis w) (wd_db w) = (Ok hook, d) \<Longrightarrow>
    ingests name re rq authentic seen own w (queued_reply hook (fst own) d w)"

inductive_cases ingestsE: "ingests name re rq authentic seen own w out"

text \<open>A request is authentic when its signature is right under the secret of the cached provider.\<close>

definition signed_by :: "(bytes \<Rightarrow> string \<Rightarrow> bytes \<Rightarrow> bool) \<Rightarrow> string \<Rightarrow> string \<Rightarrow> svc \<Rightarrow> request \<Rightarrow> redis \<Rightarrow> bool" where
  "signed_by accepts name hdr sv rq r \<longleftrightarrow>
     (case provider_secret sv NoFault name r of
        Ok key \<Rightarrow> accepts key (header_get (rq_header rq) hdr) (rq_body rq)
      | _ \<Rightarrow> False)"

definition github_signed :: "svc \<Rightarrow> request \<Rightarrow> redis \<Rightarrow> bool" where
  "github_signed = signed_by github_accepts Github ''X-Hub-Signature-256''"

definition shopify_signed :: "svc \<Rightarrow> request \<Rightarrow> redis \<Rightarrow> bool" where
  "shopify_signed = signed_by shopify_accepts Shopify ''X-Shopify-Hmac-Sha256''"

definition stripe_signed :: "construct_event \<Rightarrow> svc \<Rightarrow> request \<Rightarrow> redis \<Rightarrow> bool" where
  "stripe_signed conEvent = signed_by (\<lambda>key sig body. is_ok (conEvent body sig key)) Stripe ''Stripe-Signature''"

lemma with_secret_Ok:
  assumes "res_bind (provider_secret sv ft name r) f = Ok u"
  obtains key where "provider_secret sv NoFault name r = Ok key" "f key = Ok u"
proof -
  obtain prov key where "cache_get (svc_codec sv) ft name r = Ok prov"
    "DecryptSigningKey (svc_master_key sv) (signing_secret prov) = Ok key" "f key = Ok u"
    using assms by (auto simp: provider_secret_def res_bind_Ok_iff)
  moreover from this(1) have "cache_get (svc_codec sv) NoFault name r = Ok prov" by (rule cache_get_Ok [THEN conjunct2])
  ultimately show ?thesis using that by (simp add: provider_secret_def)
qed

lemma github_ValidateSecret_Ok:
  "github_ValidateSecret sv ft (header_get (rq_header rq) ''X-Hub-Signature-256'') (rq_body rq) r = Ok u \<Longrightarrow> github_signed sv rq r"
  unfolding github_ValidateSecret_def by (erule with_secret_Ok) (simp add: github_signed_def signed_by_def split: if_splits)

lemma shopify_ValidateSecret_Ok:
  "shopify_ValidateSecret sv ft (header_get (rq_header rq) ''X-Shopify-Hmac-Sha256'') (rq_body rq) r = Ok u \<Longrightarrow> shopify_signed sv rq r"
  unfolding shopify_ValidateSecret_def by (erule with_secret_Ok) (simp add: shopify_signed_def signed_by_def split: if_splits)

lemma stripe_ValidateSecret_Ok:
  "stripe_ValidateSecret conEvent sv ft (header_get (rq_header rq) ''Stripe-Signature'') (rq_body rq) r = Ok ev \<Longrightarrow>
     stripe_signed conEvent sv rq r"
  unfolding stripe_ValidateSecret_def by (erule with_secret_Ok) (simp add: stripe_signed_def signed_by_def)

lemma read_body_Some: "read_body n rq = Some body \<Longrightarrow> body = rq_body rq"
  by (simp add: read_body_def split: if_splits)

lemma insert_stmt_no_panic: "insert_stmt ie p d \<noteq> (Panic, d')"
  by (cases rule: insert_stmt_cases [of ie p d]) auto

lemma provider_insert_no_panic [simp]: "provider_insert name sv so hdrs body i ev r d \<noteq> (Panic, d')"
  by (cases "cache_get (svc_codec sv) (so_get_fault so) name r"; cases "ie_fault (so_insert so)")
    (auto simp: provider_insert_def InsertWebhook_def call_def insert_stmt_no_panic split: prod.splits res.splits if_splits)

lemma InsertWebhook_Err_exists:
  "InsertWebhook ie p d = (Err e, d') \<Longrightarrow> errors_is e ErrHookExists \<Longrightarrow> e = ErrHookExists"
  using insert_stmt_Err [of ie p d]
  by (cases "ie_fault ie") (auto simp: InsertWebhook_def call_def repo_errors split: prod.splits res.splits if_splits)

lemma provider_insert_Err_exists:
  assumes "provider_insert name sv so hdrs body i ev r d = (Err e, d')" and "errors_is e ErrHookExists"
  shows "\<exists>prov. cache_get (svc_codec sv) NoFault name r = Ok prov \<and> has_event (pr_id prov) i d \<and> d' = d"
proof -
  have "e = ErrHookExists"
    using assms cache_get_Err InsertWebhook_Err_exists
    by (auto simp: provider_insert_def split: res.splits)
  then show ?thesis using assms(1) provider_insert_exists by blast
qed

lemma ingests_conflict:
  assumes "authentic" and "provider_insert name (re_svc re) so hdrs body i ev (wd_redis w) (wd_db w) = (Err e, d)"
    and "errors_is e ErrHookExists" and "i \<in> seen"
  shows "ingests name re rq authentic seen own w (reply StatusOK (w\<lparr>wd_db := d\<rparr>))"
proof -
  obtain prov where "cache_get (svc_codec (re_svc re)) NoFault name (wd_redis w) = Ok prov"
      "has_event (pr_id prov) i (wd_db w)" "d = wd_db w"
    using provider_insert_Err_exists [OF assms(2,3)] by auto
  then show ?thesis using assms(1,4) by (auto intro: ingests.known)
qed

lemma ingests_known:
  "authentic \<Longrightarrow> provider_exists name (re_svc re) gf ef i (wd_redis w) (wd_db w) = Ok True \<Longrightarrow> i \<in> seen \<Longrightarrow>
     ingests name re rq authentic seen own w (reply StatusOK w)"
  by (auto simp: provider_exists_Ok intro: ingests.known)

lemma ingests_failed:
  "authentic \<Longrightarrow> re_marshal_header re (rq_header rq) = Ok hdrs \<Longrightarrow>
     provider_insert name (re_svc re) (re_store re) hdrs (rq_body rq) i ev (wd_redis w) (wd_db w) = (Err e, d) \<Longrightarrow> own = (i, ev) \<Longrightarrow>
     ingests name re rq authentic seen own w (reply StatusInternalServerError (w\<lparr>wd_db := d\<rparr>))"
  by (simp add: ingests.failed)

lemma ingests_queued:
  "authentic \<Longrightarrow> re_marshal_header re (rq_header rq) = Ok hdrs \<Longrightarrow>
     provider_insert name (re_svc re) (re_store re) hdrs (rq_body rq) i ev (wd_redis w) (wd_db w) = (Ok hook, d) \<Longrightarrow> own = (i, ev) \<Longrightarrow>
     ingests name re rq authentic seen own w (queued_reply hook i d w)"
  using ingests.queued [of authentic re rq hdrs name own w hook d seen] by simp

lemmas ingests_intros = ingests.refused ingests.panicked ingests_known ingests_conflict ingests_failed ingests_queued

section \<open>The endpoints\<close>

datatype endpoint = GitEndpoint | ShopifyEndpoint | StripeEndpoint

fun endpoint_name :: "endpoint \<Rightarrow> string" where
  "endpoint_name GitEndpoint = Github"
| "endpoint_name ShopifyEndpoint = Shopify"
| "endpoint_name StripeEndpoint = Stripe"

fun Receive :: "endpoint \<Rightarrow> receive_env \<Rightarrow> request \<Rightarrow> world \<Rightarrow> response res \<times> world" where
  "Receive GitEndpoint = git_Receive"
| "Receive ShopifyEndpoint = shopify_Receive"
| "Receive StripeEndpoint = stripe_Receive"

fun authentic :: "endpoint \<Rightarrow> receive_env \<Rightarrow> request \<Rightarrow> redis \<Rightarrow> bool" where
  "authentic GitEndpoint re rq r = github_signed (re_svc re) rq r"
| "authentic ShopifyEndpoint re rq r = shopify_signed (re_svc re) rq r"
| "authentic StripeEndpoint re rq r = stripe_signed (re_construct re) (re_svc re) rq r"

text \<open>
  The id and the type of the event that a request carries. GitHub's handler takes the id of the hook
  for the id of the event. Stripe's are those of the event that its library constructs.
\<close>

fun own_event :: "endpoint \<Rightarrow> receive_env \<Rightarrow> request \<Rightarrow> redis \<Rightarrow> string \<times> string" where
  "own_event GitEndpoint re rq r =
     (header_get (rq_header rq) ''X-Github-Hook-Id'', header_get (rq_header rq) ''X-Github-Event'')"
| "own_event ShopifyEndpoint re rq r =
     (header_get (rq_header rq) ''X-Shopify-Webhook-Id'', header_get (rq_header rq) ''X-Shopify-Topic'')"
| "own_event StripeEndpoint re rq r =
     (case res_bind (provider_secret (re_svc re) NoFault Stripe r)
        (re_construct re (rq_body rq) (header_get (rq_header rq) ''Stripe-Signature'')) of
        Ok ev \<Rightarrow> (se_id ev, se_type ev) | _ \<Rightarrow> ([], []))"

definition seen_ids :: "endpoint \<Rightarrow> receive_env \<Rightarrow> request \<Rightarrow> redis \<Rightarrow> string set" where
  "seen_ids ep re rq r =
     (if ep = GitEndpoint then {header_get (rq_header rq) ''X-Github-Delivery''} else {}) \<union> {fst (own_event ep re rq r)}"

lemma git_Receive_ingests:
  "ingests Github re rq (authentic GitEndpoint re rq (wd_redis w))
    (seen_ids GitEndpoint re rq (wd_redis w)) (own_event GitEndpoint re rq (wd_redis w)) w (git_Receive re rq w)"
proof (cases "read_body gitMaxBodyBytes rq")
  case (Some body)
  have "github_ValidateSecret (re_svc re) (re_validate_get re) (header_get (rq_header rq) ''X-Hub-Signature-256'') (rq_body rq) (wd_redis w) = Ok u \<Longrightarrow>
      github_signed (re_svc re) rq (wd_redis w)" for u
    by (rule github_ValidateSecret_Ok)
  with read_body_Some [OF Some] Some show ?thesis
    by (auto simp: git_Receive_def Let_def github_Exists_def github_InsertWebhook_def seen_ids_def
        split: res.splits prod.splits bool.splits intro: ingests_intros)
qed (simp add: git_Receive_def ingests.refused)

lemma shopify_Receive_ingests:
  "ingests Shopify re rq (authentic ShopifyEndpoint re rq (wd_redis w))
    (seen_ids ShopifyEndpoint re rq (wd_redis w)) (own_event ShopifyEndpoint re rq (wd_redis w)) w (shopify_Receive re rq w)"
proof (cases "read_body shopifyMaxBodyBytes rq")
  case (Some body)
  have "shopify_ValidateSecret (re_svc re) (re_validate_get re) (header_get (rq_header rq) ''X-Shopify-Hmac-Sha256'') (rq_body rq) (wd_redis w) = Ok u \<Longrightarrow>
      shopify_signed (re_svc re) rq (wd_redis w)" for u
    by (rule shopify_ValidateSecret_Ok)
  with read_body_Some [OF Some] Some show ?thesis
    by (auto simp: shopify_Receive_def Let_def shopify_Exists_def shopify_InsertWebhook_def seen_ids_def
        split: res.splits prod.splits bool.splits intro: ingests_intros)
qed (simp add: shopify_Receive_def ingests.refused)

lemma stripe_Receive_ingests:
  "ingests Stripe re rq (authentic StripeEndpoint re rq (wd_redis w))
    (seen_ids StripeEndpoint re rq (wd_redis w)) (own_event StripeEndpoint re rq (wd_redis w)) w (stripe_Receive re rq w)"
proof (cases "read_body StripeMaxBodyBytes rq")
  case (Some body)
  have "stripe_signed (re_construct re) (re_svc re) rq (wd_redis w) \<and>
      own_event StripeEndpoint re rq (wd_redis w) = (se_id ev, se_type ev)"
    if "stripe_ValidateSecret (re_construct re) (re_svc re) (re_validate_get re)
      (header_get (rq_header rq) ''Stripe-Signature'') (rq_body rq) (wd_redis w) = Ok ev" for ev
    using stripe_ValidateSecret_Ok [OF that] that unfolding stripe_ValidateSecret_def
    by (auto elim!: with_secret_Ok)
  with read_body_Some [OF Some] Some show ?thesis
    by (auto simp: stripe_Receive_def Let_def stripe_Exists_def stripe_InsertWebhook_def seen_ids_def
        simp del: own_event.simps split: res.splits prod.splits bool.splits intro: ingests_intros)
qed (simp add: stripe_Receive_def ingests.refused)

lemma Receive_ingests:
  "ingests (endpoint_name ep) re rq (authentic ep re rq (wd_redis w))
    (seen_ids ep re rq (wd_redis w)) (own_event ep re rq (wd_redis w)) w (Receive ep re rq w)"
  using git_Receive_ingests shopify_Receive_ingests stripe_Receive_ingests by (cases ep) simp_all

section \<open>Consequences of the specification\<close>

definition event_stored :: "svc \<Rightarrow> endpoint \<times> string \<Rightarrow> world \<Rightarrow> bool" where
  "event_stored sv k w \<longleftrightarrow>
     (case cache_get (svc_codec sv) NoFault (endpoint_name (fst k)) (wd_redis w) of
        Ok prov \<Rightarrow> has_event (pr_id prov) (snd k) (wd_db w)
      | _ \<Rightarrow> False)"

lemma has_event_provider_insert:
  "has_event pid ev d \<Longrightarrow> has_event pid ev (snd (provider_insert name sv so hdrs body i t r d))"
  by (cases "cache_get (svc_codec sv) (so_get_fault so) name r") (simp_all add: provider_insert_def has_event_InsertWebhook)

lemma provider_insert_schema: "schema_ok d \<Longrightarrow> schema_ok (snd (provider_insert name sv so hdrs body i t r d))"
  by (cases "cache_get (svc_codec sv) (so_get_fault so) name r") (simp_all add: provider_insert_def InsertWebhook_schema)

lemmas ingest_replies = reply_def queued_reply_def

lemma ingests_keeps:
  assumes "ingests name re rq auth seen own w out"
  shows "wd_redis (snd out) = wd_redis w"
    and "has_event pid i (wd_db w) \<Longrightarrow> has_event pid i (wd_db (snd out))"
    and "schema_ok (wd_db w) \<Longrightarrow> schema_ok (wd_db (snd out))"
    and "\<not> auth \<Longrightarrow> snd out = w"
proof -
  show "wd_redis (snd out) = wd_redis w" "\<not> auth \<Longrightarrow> snd out = w"
    using assms by (auto elim!: ingestsE simp: ingest_replies)
  have "wd_db (snd out) = wd_db w \<or> (\<exists>hdrs. wd_db (snd out) =
      snd (provider_insert name (re_svc re) (re_store re) hdrs (rq_body rq) (fst own) (snd own) (wd_redis w) (wd_db w)))"
    using assms
  proof cases
    case (failed hdrs e d)
    then show ?thesis by (auto simp: reply_def intro!: exI [of _ hdrs])
  next
    case (queued hdrs hook d)
    then show ?thesis by (auto simp: queued_reply_def intro!: exI [of _ hdrs])
  qed (auto simp: reply_def)
  then show "has_event pid i (wd_db w) \<Longrightarrow> has_event pid i (wd_db (snd out))"
    "schema_ok (wd_db w) \<Longrightarrow> schema_ok (wd_db (snd out))"
    by (auto simp: has_event_provider_insert provider_insert_schema)
qed

lemma ingests_ack:
  assumes "ingests name re rq auth seen own w (Ok rsp, w')" and "rsp_code rsp = StatusOK" and "fst own \<in> seen"
  shows "auth \<and> (\<exists>prov. \<exists>i \<in> seen. cache_get (svc_codec (re_svc re)) NoFault name (wd_redis w) = Ok prov \<and>
    has_event (pr_id prov) i (wd_db w'))"
  using assms(1)
proof cases
  case (queued hdrs hook d)
  obtain prov where "cache_get (svc_codec (re_svc re)) NoFault name (wd_redis w) = Ok prov" "has_event (pr_id prov) (fst own) d"
    using queued(4) by (rule provider_insert_Ok) (auto simp: has_event_def)
  then show ?thesis using queued assms(3) by (auto simp: queued_reply_def)
qed (use assms(2) in \<open>auto simp: reply_def\<close>)

text \<open>The two ways to a 200.\<close>

lemma ingests_ack_cases:
  assumes "ingests name re rq auth seen own w (Ok rsp, w')" and "rsp_code rsp = StatusOK"
  shows "auth \<and> (\<exists>prov. cache_get (svc_codec (re_svc re)) NoFault name (wd_redis w) = Ok prov \<and>
    (rsp_body rsp = [(''id'', fst own), (''status'', ''queued'')] \<and>
       (\<exists>hook. webhook_events (wd_db w') = webhook_events (wd_db w) @ [hook] \<and> provider_id hook = pr_id prov \<and>
          event_id hook = Some (fst own) \<and> ie_jsonb (so_insert (re_store re)) (rq_body rq) = Some (payload hook)) \<or>
     rsp_body rsp = [] \<and> w' = w \<and> (\<exists>i \<in> seen. has_event (pr_id prov) i (wd_db w))))"
  using assms(1)
proof cases
  case (queued hdrs hook d)
  have "rsp_body rsp = [(''id'', fst own), (''status'', ''queued'')]" "wd_db w' = d"
    using queued(1) by (simp_all add: queued_reply_def)
  with queued(2,4) show ?thesis by - (rule provider_insert_Ok [OF queued(4)], auto)
qed (use assms(2) in \<open>auto simp: reply_def\<close>)

lemma ingests_queued_id:
  assumes "ingests name re rq auth seen own w (Ok rsp, w')" and "map_of (rsp_body rsp) ''id'' = Some i"
  obtains hdrs hook where "auth" "i = fst own" "re_marshal_header re (rq_header rq) = Ok hdrs"
    "provider_insert name (re_svc re) (re_store re) hdrs (rq_body rq) (fst own) (snd own) (wd_redis w) (wd_db w) = (Ok hook, wd_db w')"
    "w' = w\<lparr>wd_db := wd_db w', wd_hub := snd (Send hook (wd_hub w)), wd_signal := Notify (wd_signal w)\<rparr>"
    "rsp = \<lparr>rsp_code = StatusOK, rsp_body = [(''id'', fst own), (''status'', ''queued'')]\<rparr>"
  using assms by (auto elim!: ingestsE simp: ingest_replies)

section \<open>Sequences of requests\<close>

text \<open>
  One server with its configuration \<open>sv\<close> answering requests on its three endpoints, one after
  another. (Two requests that are handled at the same time differ from some sequence only in the
  duplicate check, which the unique index repeats when the row is inserted.)
\<close>

definition serve :: "svc \<Rightarrow> endpoint \<times> receive_env \<times> request \<Rightarrow> world \<Rightarrow> (endpoint \<times> response) res \<times> world" where
  "serve sv x w = (case x of (ep, re, rq) \<Rightarrow>
     (case Receive ep (re\<lparr>re_svc := sv\<rparr>) rq w of
        (Ok rsp, w') \<Rightarrow> (Ok (ep, rsp), w')
      | (Err e, w') \<Rightarrow> (Err e, w')
      | (Panic, w') \<Rightarrow> (Panic, w')))"

definition queued_key :: "endpoint \<times> response \<Rightarrow> (endpoint \<times> string) option" where
  "queued_key a = map_option (\<lambda>i. (fst a, i)) (map_of (rsp_body (snd a)) ''id'')"

interpretation ingest: dedup_store "serve sv" queued_key "event_stored sv" for sv
proof
  fix sv x w a w' k
  assume s: "serve sv x w = (Ok a, w')" and k: "queued_key a = Some k"
  obtain ep re rq where x: "x = (ep, re, rq)" by (cases x)
  let ?re = "re\<lparr>re_svc := sv\<rparr>"
  from s obtain rsp where a: "a = (ep, rsp)" and R: "Receive ep ?re rq w = (Ok rsp, w')"
    by (auto simp: serve_def x split: prod.splits res.splits)
  obtain i where i: "map_of (rsp_body rsp) ''id'' = Some i" "k = (ep, i)" using k by (auto simp: queued_key_def a)
  have I: "ingests (endpoint_name ep) ?re rq (authentic ep ?re rq (wd_redis w)) (seen_ids ep ?re rq (wd_redis w))
      (own_event ep ?re rq (wd_redis w)) w (Ok rsp, w')"
    using Receive_ingests [of ep ?re rq w] R by simp
  from ingests_queued_id [OF I i(1)] obtain hdrs hook where
    "i = fst (own_event ep ?re rq (wd_redis w))"
    and p: "provider_insert (endpoint_name ep) (re_svc ?re) (re_store ?re) hdrs (rq_body rq) (fst (own_event ep ?re rq (wd_redis w)))
      (snd (own_event ep ?re rq (wd_redis w))) (wd_redis w) (wd_db w) = (Ok hook, wd_db w')" by metis
  moreover have "wd_redis w' = wd_redis w" using ingests_keeps(1) [OF I] by simp
  ultimately show "event_stored sv k w' \<and> \<not> event_stored sv k w"
    using i(2) by - (rule provider_insert_Ok [OF p], auto simp: event_stored_def has_event_def)
next
  fix sv k w and x :: "endpoint \<times> receive_env \<times> request"
  assume k: "event_stored sv k w"
  obtain ep re rq where x: "x = (ep, re, rq)" by (cases x)
  let ?out = "Receive ep (re\<lparr>re_svc := sv\<rparr>) rq w"
  have "snd (serve sv x w) = snd ?out" by (auto simp: serve_def x split: prod.splits res.splits)
  then show "event_stored sv k (snd (serve sv x w))"
    using k ingests_keeps(1,2) [OF Receive_ingests [of ep "re\<lparr>re_svc := sv\<rparr>" rq w]]
    by (auto simp: event_stored_def split: res.splits)
qed

section \<open>Properties\<close>


text \<open>
  C11. A request that is not signed with the provider's secret changes nothing: no row, no live-feed
  event, no wake-up, and it is answered with an error status (or its handler panics).
\<close>

theorem unauthentic_has_no_effect:
  assumes "\<not> authentic ep re rq (wd_redis w)"
  shows "snd (Receive ep re rq w) = w \<and>
    (case fst (Receive ep re rq w) of Ok rsp \<Rightarrow> rsp_code rsp \<in> {400, 500, 503} \<and> rsp_body rsp = [] | Err e \<Rightarrow> False | Panic \<Rightarrow> True)"
  using Receive_ingests [of ep re rq w] assms by (auto elim!: ingestsE simp: reply_def)

lemma queued_row:
  assumes "Receive ep re rq w = (Ok rsp, w')" and "map_of (rsp_body rsp) ''id'' = Some i"
    and "0 < chan_cap (wd_signal w)" and "chan_ok (wd_signal w)"
  shows "rsp_code rsp = 200 \<and> i = fst (own_event ep re rq (wd_redis w)) \<and>
    (\<exists>prov hook hdrs.
      cache_get (svc_codec (re_svc re)) NoFault (endpoint_name ep) (wd_redis w) = Ok prov \<and>
      \<not> has_event (pr_id prov) i (wd_db w) \<and>
      webhook_events (wd_db w') = webhook_events (wd_db w) @ [hook] \<and>
      provider_id hook = pr_id prov \<and> provider_name hook = endpoint_name ep \<and> event_id hook = Some i \<and>
      event_type hook = snd (own_event ep re rq (wd_redis w)) \<and>
      re_marshal_header re (rq_header rq) = Ok hdrs \<and>
      ie_jsonb (so_insert (re_store re)) hdrs = Some (headers hook) \<and>
      ie_jsonb (so_insert (re_store re)) (rq_body rq) = Some (payload hook) \<and>
      status hook = Queued \<and> retry_count hook = 0 \<and> forwarded_to hook = destination_url prov \<and>
      wd_hub w' = snd (Send hook (wd_hub w)) \<and> chan_buf (wd_signal w') \<noteq> [])"
proof -
  let ?own = "own_event ep re rq (wd_redis w)"
  have I: "ingests (endpoint_name ep) re rq (authentic ep re rq (wd_redis w))
    (seen_ids ep re rq (wd_redis w)) ?own w (Ok rsp, w')"
    using Receive_ingests [of ep re rq w] assms(1) by simp
  from ingests_queued_id [OF I assms(2)] obtain hdrs hook where q: "i = fst ?own" "re_marshal_header re (rq_header rq) = Ok hdrs"
    and p: "provider_insert (endpoint_name ep) (re_svc re) (re_store re) hdrs (rq_body rq) (fst ?own) (snd ?own) (wd_redis w) (wd_db w) =
      (Ok hook, wd_db w')"
    and w': "w' = w\<lparr>wd_db := wd_db w', wd_hub := snd (Send hook (wd_hub w)), wd_signal := Notify (wd_signal w)\<rparr>"
    and rsp: "rsp = \<lparr>rsp_code = StatusOK, rsp_body = [(''id'', fst ?own), (''status'', ''queued'')]\<rparr>"
    by metis
  have "wd_hub w' = snd (Send hook (wd_hub w))" "wd_signal w' = Notify (wd_signal w)" by (subst w', simp)+
  then show ?thesis
    using q rsp Notify_wakes [OF assms(3,4)]
    by - (rule provider_insert_Ok [OF p], auto)
qed

text \<open>
  C10. When a handler answers that the event is queued, exactly one row has been added: it belongs to
  the cached provider, has the event's id and type and the provider's current destination, its
  headers and payload are the database's form of those received, its status is queued, it has not
  been tried, and there was no row with this key. The row has been offered to the live feed and a
  worker has a wake-up signal.
\<close>

theorem queued_stores_event:
  assumes "Receive ep re rq w = (Ok rsp, w')" and "map_of (rsp_body rsp) ''id'' = Some i"
    and "0 < chan_cap (wd_signal w)" and "chan_ok (wd_signal w)"
  shows "rsp_code rsp = 200 \<and> i = fst (own_event ep re rq (wd_redis w)) \<and>
    (\<exists>prov hook hdrs.
      cache_get (svc_codec (re_svc re)) NoFault (endpoint_name ep) (wd_redis w) = Ok prov \<and>
      \<not> has_event (pr_id prov) i (wd_db w) \<and>
      webhook_events (wd_db w') = webhook_events (wd_db w) @ [hook] \<and>
      provider_id hook = pr_id prov \<and> provider_name hook = endpoint_name ep \<and> event_id hook = Some i \<and>
      event_type hook = snd (own_event ep re rq (wd_redis w)) \<and>
      re_marshal_header re (rq_header rq) = Ok hdrs \<and>
      ie_jsonb (so_insert (re_store re)) hdrs = Some (headers hook) \<and>
      ie_jsonb (so_insert (re_store re)) (rq_body rq) = Some (payload hook) \<and>
      status hook = Queued \<and> retry_count hook = 0 \<and> forwarded_to hook = destination_url prov \<and>
      wd_hub w' = snd (Send hook (wd_hub w)) \<and> chan_buf (wd_signal w') \<noteq> [])"
  by (rule queued_row [OF assms])

text \<open>
  A server whose database holds the unconfigured GitHub provider, and a request to it that is signed
  with the provider's secret (which is empty).
\<close>

definition git_svc :: svc where
  "git_svc = \<lparr>svc_codec = \<lparr>marshal = (\<lambda>p. Ok ''x''), unmarshal = (\<lambda>b. Some (sample_provider\<lparr>pr_name := Github\<rparr>))\<rparr>,
     svc_master_key = []\<rparr>"

definition git_env :: receive_env where
  "git_env = \<lparr>re_svc = git_svc, re_validate_get = NoFault, re_exists_get = NoFault, re_exists = NoFault,
     re_store = \<lparr>so_get_fault = NoFault,
       so_insert = \<lparr>ie_fault = NoFault, ie_jsonb = Some, ie_new_id = 9, ie_now = 3\<rparr>, so_now = 2\<rparr>,
     re_marshal_header = (\<lambda>h. Ok ''{}''), re_construct = (\<lambda>b s k. Panic)\<rparr>"

lemma git_env_svc: "re_svc git_env = git_svc"
  by (simp add: git_env_def)

definition git_request :: "string \<Rightarrow> request" where
  "git_request delivery = \<lparr>rq_header = [(''X-Github-Hook-Id'', [''7'']), (''X-Github-Event'', [''push'']),
     (''X-Github-Delivery'', [delivery]),
     (''X-Hub-Signature-256'', [''sha256='' @ hex_encode (hmac_sum [] ''{}'')])], rq_body = ''{}'', rq_broken = False\<rparr>"

definition git_world :: "webhook list \<Rightarrow> world" where
  "git_world hooks = \<lparr>wd_db = \<lparr>webhook_events = hooks, provider_rows = [sample_provider\<lparr>pr_name := Github\<rparr>], refresh_tokens = []\<rparr>,
     wd_redis = sample_cache, wd_hub = NewEventService, wd_signal = new_signal\<rparr>"

lemma git_world_parts:
  "webhook_events (wd_db (git_world hooks)) = hooks" "0 < chan_cap (wd_signal (git_world hooks))"
  "chan_ok (wd_signal (git_world hooks))"
  by (simp_all add: git_world_def new_signal_def make_chan_def TotalQueueWorkers_def chan_ok_def)

definition git_hook :: webhook where
  "git_hook = sample_event\<lparr>wh_id := 9, event_id := Some ''7'', status := Queued, received_at := 2, created_at := 3, updated_at := 3\<rparr>"

lemma github_header_names [simp]:
  "canonical_header_key ''X-Github-Hook-Id'' = ''X-Github-Hook-Id''"
  "canonical_header_key ''X-Github-Event'' = ''X-Github-Event''"
  "canonical_header_key ''X-Github-Delivery'' = ''X-Github-Delivery''"
  "canonical_header_key ''X-Hub-Signature-256'' = ''X-Hub-Signature-256''"
  by code_simp+

lemma git_request_headers [simp]:
  "header_get (rq_header (git_request x)) ''X-Github-Hook-Id'' = ''7''"
  "header_get (rq_header (git_request x)) ''X-Github-Event'' = ''push''"
  "header_get (rq_header (git_request x)) ''X-Github-Delivery'' = x"
  "header_get (rq_header (git_request x)) ''X-Hub-Signature-256'' = ''sha256='' @ hex_encode (hmac_sum [] ''{}'')"
  "read_body gitMaxBodyBytes (git_request x) = Some ''{}''" "rq_body (git_request x) = ''{}''"
  by (simp_all add: header_get_def git_request_def read_body_def gitMaxBodyBytes_def)

lemma git_cache [simp]: "cache_get (svc_codec git_svc) NoFault Github sample_cache = Ok (sample_provider\<lparr>pr_name := Github\<rparr>)"
  by (simp add: cache_get_def GetBytes_def git_svc_def sample_cache_def)

lemma git_accepts [simp]:
  "github_ValidateSecret git_svc NoFault (''sha256='' @ hex_encode (hmac_sum [] m)) m sample_cache = Ok ()"
  by (simp add: github_ValidateSecret_def provider_secret_def sample_provider_def github_accepts_def)

lemma git_first_delivery:
  "git_Receive git_env (git_request x) (git_world []) =
     (Ok \<lparr>rsp_code = 200, rsp_body = [(''id'', ''7''), (''status'', ''queued'')]\<rparr>,
      (git_world [git_hook])\<lparr>wd_hub := snd (Send git_hook NewEventService), wd_signal := Notify new_signal\<rparr>)"
proof -
  have "github_Exists git_svc NoFault NoFault x sample_cache (wd_db (git_world [])) = Ok False"
    by (simp add: github_Exists_def provider_exists_Ok has_event_def git_world_def)
  moreover have "github_InsertWebhook git_svc (re_store git_env) ''{}'' ''{}'' ''7'' ''push'' sample_cache (wd_db (git_world [])) =
      (Ok git_hook, wd_db (git_world [git_hook]))"
    by (simp add: github_InsertWebhook_def provider_insert_def git_env_def InsertWebhook_def insert_stmt_def has_event_def
        git_world_def new_row_def git_hook_def sample_event_def sample_provider_def Let_def)
  ultimately show ?thesis
    by (simp add: git_Receive_def Let_def git_env_def queued_reply_def git_world_def del: append.simps)
qed


theorem unauthentic_has_no_effect_witness:
  "snd (git_Receive git_env ((git_request ''d'')\<lparr>rq_header := []\<rparr>) (git_world [])) = git_world []"
proof -
  have "\<not> authentic GitEndpoint git_env ((git_request ''d'')\<lparr>rq_header := []\<rparr>) (wd_redis (git_world []))"
    by (simp add: github_signed_def signed_by_def provider_secret_def git_env_def git_world_def sample_provider_def
        github_accepts_def header_get_def)
  from unauthentic_has_no_effect [OF this] show ?thesis by simp
qed

theorem queued_stores_event_witness:
  "\<exists>hook. webhook_events (wd_db (snd (git_Receive git_env (git_request ''d'') (git_world [])))) = [hook] \<and>
     event_id hook = Some ''7'' \<and> event_type hook = ''push'' \<and> status hook = Queued"
  using queued_stores_event [of GitEndpoint git_env "git_request ''d''" "git_world []", simplified, OF git_first_delivery]
  by (auto simp: git_first_delivery git_world_parts)

text \<open>
  C34. GitHub's handler looks for a duplicate under the delivery's id but stores the event under the
  id of the hook, which all deliveries of a hook share. So once one delivery of a hook is stored,
  a later delivery of the same hook, with an id of its own and a right signature, is acknowledged
  with 200 and dropped: nothing is stored, fed or woken.
\<close>

theorem github_later_delivery_dropped:
  assumes "read_body gitMaxBodyBytes rq = Some body"
    and "header_get (rq_header rq) ''X-Github-Hook-Id'' = hid" and "hid \<noteq> []"
    and "header_get (rq_header rq) ''X-Github-Event'' \<noteq> []"
    and "github_ValidateSecret (re_svc re) (re_validate_get re) (header_get (rq_header rq) ''X-Hub-Signature-256'') body (wd_redis w) = Ok ()"
    and "cache_get (svc_codec (re_svc re)) NoFault Github (wd_redis w) = Ok prov"
    and "re_exists_get re = NoFault" and "re_exists re = NoFault" and "so_get_fault (re_store re) = NoFault"
    and "ie_fault (so_insert (re_store re)) = NoFault"
    and "\<not> has_event (pr_id prov) (header_get (rq_header rq) ''X-Github-Delivery'') (wd_db w)"
    and "re_marshal_header re (rq_header rq) = Ok hdrs"
    and "ie_jsonb (so_insert (re_store re)) hdrs \<noteq> None" and "ie_jsonb (so_insert (re_store re)) body \<noteq> None"
    and earlier: "has_event (pr_id prov) hid (wd_db w)"
  shows "git_Receive re rq w = (Ok \<lparr>rsp_code = 200, rsp_body = []\<rparr>, w)"
proof -
  have "github_Exists (re_svc re) (re_exists_get re) (re_exists re) (header_get (rq_header rq) ''X-Github-Delivery'') (wd_redis w) (wd_db w) = Ok False"
    using assms by (simp add: github_Exists_def provider_exists_Ok)
  moreover have "github_InsertWebhook (re_svc re) (re_store re) hdrs body hid (header_get (rq_header rq) ''X-Github-Event'') (wd_redis w) (wd_db w) =
      (Err ErrHookExists, wd_db w)"
    using assms by (auto simp: github_InsertWebhook_def provider_insert_def InsertWebhook_def insert_stmt_def ErrNoRows_def)
  ultimately show ?thesis using assms by (simp add: git_Receive_def reply_def ErrHookExists_def)
qed

theorem github_later_delivery_dropped_witness:
  "git_Receive git_env (git_request ''second'') (git_world [git_hook]) = (Ok \<lparr>rsp_code = 200, rsp_body = []\<rparr>, git_world [git_hook])"
  by (rule github_later_delivery_dropped [where hid = "''7''" and body = "''{}''" and hdrs = "''{}''" and
        prov = "sample_provider\<lparr>pr_name := Github\<rparr>"])
    (simp_all add: git_env_def git_world_def has_event_def git_hook_def sample_event_def sample_provider_def del: append.simps)

text \<open>
  C5. Over any sequence of requests to the three endpoints, with any faults, the events that are
  answered as queued are pairwise different and none was stored before: an event that a provider
  sends again is accepted once. Every one of them is in the database at the end, and the constraints
  of the schema are kept.
\<close>

theorem each_event_queued_once:
  "case run_ops (serve sv) xs w of (answers, w') \<Rightarrow>
     distinct (List.map_filter queued_key (oks answers)) \<and>
     list_all (\<lambda>k. \<not> event_stored sv k w \<and> event_stored sv k w') (List.map_filter queued_key (oks answers)) \<and>
     (schema_ok (wd_db w) \<longrightarrow> schema_ok (wd_db w'))"
proof -
  have "schema_ok (wd_db (snd (serve sv x w)))" if "schema_ok (wd_db w)" for x w
  proof -
    obtain ep re rq where "x = (ep, re, rq)" by (cases x)
    then have "snd (serve sv x w) = snd (Receive ep (re\<lparr>re_svc := sv\<rparr>) rq w)"
      by (auto simp: serve_def split: prod.splits res.splits)
    then show ?thesis using ingests_keeps(3) [OF Receive_ingests] that by simp
  qed
  then have "schema_ok (wd_db w) \<Longrightarrow> schema_ok (wd_db (snd (run_ops (serve sv) xs w)))"
    by (intro run_ops_inv [where P = "\<lambda>w. schema_ok (wd_db w)"]) auto
  then show ?thesis
    using ingest.new_keys_distinct [of sv xs w] ingest.new_keys_fresh [of _ sv xs w] ingest.new_keys_stored [of _ sv xs w]
    by (auto simp: ingest.new_keys_def list_all_iff split: prod.splits)
qed

theorem each_event_queued_once_witness:
  "case run_ops (serve git_svc) [(GitEndpoint, git_env, git_request ''a''), (GitEndpoint, git_env, git_request ''a'')] (git_world [])
   of (answers, w) \<Rightarrow> distinct (List.map_filter queued_key (oks answers)) \<and> schema_ok (wd_db w)"
proof -
  have "schema_ok (wd_db (git_world []))" by (simp add: schema_ok_def git_world_def)
  then show ?thesis
    using each_event_queued_once [where sv = git_svc and w = "git_world []" and
        xs = "[(GitEndpoint, git_env, git_request ''a''), (GitEndpoint, git_env, git_request ''a'')]"]
    by (simp only: split_beta simp_thms)
qed

end
