(* ===== verification/EventsHandler.thy ===== *)
theory EventsHandler
  imports Ingest "HOL-Library.Sublist"
begin

text \<open>
  \<^verbatim>\<open>internal/api/handler/events.go\<close>: the live feed over server-sent events, and the endpoints that
  list, search, count and replay events. A JSON encoder is an argument; it returns \<open>None\<close> for an error.
\<close>

section \<open>The event stream\<close>

text \<open>The frames written to the client, and their bytes.\<close>

datatype frame = Connected | Heartbeat | Data bytes | Overflow int

fun frame_bytes :: "frame \<Rightarrow> bytes" where
  "frame_bytes Connected = ''event: connected'' @ [CHR 0x0A] @ ''data: {}'' @ [CHR 0x0A, CHR 0x0A]"
| "frame_bytes Heartbeat = '': heartbeat'' @ [CHR 0x0A, CHR 0x0A]"
| "frame_bytes (Data b) = ''data: '' @ b @ [CHR 0x0A, CHR 0x0A]"
| "frame_bytes (Overflow n) = ''event: overflow'' @ [CHR 0x0A] @ ''data: {'' @ [CHR 0x22] @ ''count'' @ [CHR 0x22] @
     '':'' @ itoa n @ ''}'' @ [CHR 0x0A, CHR 0x0A]"

text \<open>What becomes of writing and flushing one frame.\<close>

record frame_io =
  io_write :: bool
  io_flush :: bool

definition put_frame :: "frame_io \<Rightarrow> frame \<Rightarrow> frame list \<times> bool" where
  "put_frame io f = (if \<not> io_write io then ([], False) else ([f], io_flush io))"

text \<open>The second component is false when the connection is to be closed.\<close>

definition announceConnected :: "frame_io \<Rightarrow> frame list" where
  "announceConnected io = fst (put_frame io Connected)"

definition sendHeartbeat :: "frame_io \<Rightarrow> frame list \<times> bool" where
  "sendHeartbeat io = put_frame io Heartbeat"

definition streamBatch ::
  "(webhook list \<Rightarrow> bytes option) \<Rightarrow> frame_io \<Rightarrow> frame_io \<Rightarrow> hub_op list \<Rightarrow> webhook list \<Rightarrow> hub \<Rightarrow> (frame list \<times> bool) \<times> hub" where
  "streamBatch enc io1 io2 others batch s =
     (case enc batch of
        None \<Rightarrow> (([], True), s)
      | Some data \<Rightarrow>
          (case put_frame io1 (Data data) of
             (fs, False) \<Rightarrow> ((fs, False), s)
           | (fs, True) \<Rightarrow>
               (let (n, s') = Dropped (snd (run_ops hub_step others s))
                in if 0 < n then let (fs', ok) = put_frame io2 (Overflow n) in ((fs @ fs', ok), s')
                   else ((fs, True), s'))))"

text \<open>
  One turn of the loop: what the rest of the program does to the hub meanwhile, and the case that is
  chosen. \<open>Ready\<close> is chosen only when there is a batch; further operations of others may come
  between taking it and reading the counter.
\<close>

datatype sse_case = Gone | Beat frame_io | Ready frame_io frame_io "hub_op list"

fun sse_loop ::
  "(webhook list \<Rightarrow> bytes option) \<Rightarrow> nat \<Rightarrow> (hub_op list \<times> sse_case) list \<Rightarrow> hub \<Rightarrow> frame list \<times> bool \<times> hub" where
  "sse_loop enc ch [] s = ([], False, s)"
| "sse_loop enc ch ((others, c) # turns) s =
     (let s1 = snd (run_ops hub_step others s) in
      case c of
        Gone \<Rightarrow> ([], True, s1)
      | Beat io \<Rightarrow>
          (case sendHeartbeat io of
             (fs, False) \<Rightarrow> (fs, True, s1)
           | (fs, True) \<Rightarrow> (let (fs', r) = sse_loop enc ch turns s1 in (fs @ fs', r)))
      | Ready io1 io2 others' \<Rightarrow>
          (case recv_batch ch s1 of
             (None, s2) \<Rightarrow> sse_loop enc ch turns s2
           | (Some batch, s2) \<Rightarrow>
               (case streamBatch enc io1 io2 others' batch s2 of
                  ((fs, False), s3) \<Rightarrow> (fs, True, s3)
                | ((fs, True), s3) \<Rightarrow> (let (fs', r) = sse_loop enc ch turns s3 in (fs @ fs', r)))))"

text \<open>
  The handler: it subscribes, confirms the connection and loops; when it returns, the deferred
  \<open>unsub\<close> runs. The second component says whether it has returned, the third whether \<open>unsub\<close> panicked.
\<close>

definition SSE ::
  "(webhook list \<Rightarrow> bytes option) \<Rightarrow> frame_io \<Rightarrow> (hub_op list \<times> sse_case) list \<Rightarrow> hub \<Rightarrow> frame list \<times> bool \<times> bool \<times> hub" where
  "SSE enc io turns s =
     (let (ch, s1) = Subscribe s;
          (fs, returned, s2) = sse_loop enc ch turns s1
      in if returned
         then let (r, s3) = unsub ch s2 in (announceConnected io @ fs, True, r = Panic, s3)
         else (announceConnected io @ fs, False, False, s2))"

section \<open>The other endpoints\<close>

definition json_response :: "bytes \<Rightarrow> http_response" where
  "json_response b = \<lparr>ht_code = StatusOK, ht_cookies = [], ht_body = b\<rparr>"

definition search_handler ::
  "(request \<Rightarrow> search_request option) \<Rightarrow> (search_response \<Rightarrow> bytes option) \<Rightarrow> fault \<Rightarrow> pg \<Rightarrow> (string \<Rightarrow> time option) \<Rightarrow>
   request \<Rightarrow> db \<Rightarrow> http_response res" where
  "search_handler dec enc ft pg parse rq d =
     (case dec rq of
        None \<Rightarrow> Ok (http_error ''invalid request body'' StatusBadRequest)
      | Some opts \<Rightarrow>
     (case Validate parse opts of
        Some e \<Rightarrow> Ok (http_error (err_text e) StatusBadRequest)
      | None \<Rightarrow>
     (case Search ft pg parse opts d of
        Err e \<Rightarrow> Ok (http_error ''internal server error'' StatusInternalServerError)
      | Panic \<Rightarrow> Panic
      | Ok result \<Rightarrow>
     (case enc result of
        None \<Rightarrow> Ok (http_error ''internal server error'' StatusInternalServerError)
      | Some b \<Rightarrow> Ok (json_response b)))))"

text \<open>\<open>cursor\<close> is \<^verbatim>\<open>r.URL.Query().Get("cursor")\<close>, empty when there is none.\<close>

definition getAll_handler ::
  "(string \<Rightarrow> time option) \<Rightarrow> (webhook list \<Rightarrow> bytes option) \<Rightarrow> fault \<Rightarrow> string \<Rightarrow> db \<Rightarrow> http_response res" where
  "getAll_handler parse_nano enc ft cursor d =
     (case (if cursor = [] then Some None else map_option Some (parse_nano cursor)) of
        None \<Rightarrow> Ok (http_error ''invalid cursor'' StatusBadRequest)
      | Some createdAt \<Rightarrow>
     (case EventsService.GetAll ft createdAt d of
        Err e \<Rightarrow> Ok (write_header StatusInternalServerError)
      | Panic \<Rightarrow> Panic
      | Ok evs \<Rightarrow>
     (case enc evs of
        None \<Rightarrow> Ok (write_header StatusInternalServerError)
      | Some b \<Rightarrow> Ok (json_response b))))"

definition getStats_handler :: "(stats \<Rightarrow> bytes option) \<Rightarrow> fault \<Rightarrow> time \<Rightarrow> db \<Rightarrow> http_response res" where
  "getStats_handler enc ft now d =
     (case GetStats ft now d of
        Err e \<Rightarrow> Ok (write_header StatusInternalServerError)
      | Panic \<Rightarrow> Panic
      | Ok st \<Rightarrow>
          (case enc st of
             None \<Rightarrow> Ok (write_header StatusInternalServerError)
           | Some b \<Rightarrow> Ok (json_response b)))"

definition replay_handler ::
  "(string \<Rightarrow> uuid res) \<Rightarrow> fault \<Rightarrow> time \<Rightarrow> string \<Rightarrow> db \<Rightarrow> http_response res \<times> db" where
  "replay_handler uuid_parse ft now i d =
     (case ReplayEvent uuid_parse ft now i d of
        (Err e, d') \<Rightarrow>
          (if errors_is e ErrInvalidUUID then (Ok (write_header StatusBadRequest), d')
           else (Ok (http_error (err_text e) StatusInternalServerError), d'))
      | (Panic, d') \<Rightarrow> (Panic, d')
      | (Ok _, d') \<Rightarrow> (Ok (write_header StatusOK), d'))"

section \<open>The stream and the hub\<close>

text \<open>The rest of the program does not touch the client's own channel except through the hub.\<close>

definition foreign :: "nat \<Rightarrow> hub_op \<Rightarrow> bool" where
  "foreign ch x \<longleftrightarrow> x \<noteq> OpUnsub ch \<and> x \<noteq> OpRecv ch"

fun foreign_case :: "nat \<Rightarrow> sse_case \<Rightarrow> bool" where
  "foreign_case ch (Ready io1 io2 others) = list_all (foreign ch) others"
| "foreign_case ch _ = True"

definition foreign_turns :: "nat \<Rightarrow> (hub_op list \<times> sse_case) list \<Rightarrow> bool" where
  "foreign_turns ch turns \<longleftrightarrow> list_all (\<lambda>(others, c). list_all (foreign ch) others \<and> foreign_case ch c) turns"

fun datas :: "frame list \<Rightarrow> bytes list" where
  "datas [] = []"
| "datas (Data b # fs) = b # datas fs"
| "datas (_ # fs) = datas fs"

lemma datas_append [simp]: "datas (fs @ gs) = datas fs @ datas gs"
  by (induction fs rule: datas.induct) auto

fun overflows :: "frame list \<Rightarrow> int list" where
  "overflows [] = []"
| "overflows (Overflow n # fs) = n # overflows fs"
| "overflows (_ # fs) = overflows fs"

lemma overflows_append [simp]: "overflows (fs @ gs) = overflows fs @ overflows gs"
  by (induction fs rule: overflows.induct) auto

text \<open>A run of the hub, and the batches that the client got in it.\<close>

definition hub_run :: "hub_op list \<Rightarrow> hub \<Rightarrow> hub" where
  "hub_run ops s = snd (run_ops hub_step ops s)"

definition batches_got :: "nat \<Rightarrow> hub_op list \<Rightarrow> hub \<Rightarrow> webhook list list" where
  "batches_got ch ops s = concat (map (got ch) (fst (run_ops hub_step ops s)))"

lemma hub_run_simps [simp]: "hub_run [] s = s" "hub_run (x # xs) s = hub_run xs (snd (hub_step x s))"
  by (simp_all add: hub_run_def split_beta Let_def)

lemma hub_run_append: "hub_run (xs @ ys) s = hub_run ys (hub_run xs s)"
  by (induction xs arbitrary: s) simp_all

lemma batches_got_simps [simp]:
  "batches_got ch [] s = []"
  "batches_got ch (x # xs) s = got ch (fst (hub_step x s)) @ batches_got ch xs (snd (hub_step x s))"
  by (simp_all add: batches_got_def split_beta Let_def)

lemma batches_got_append: "batches_got ch (xs @ ys) s = batches_got ch xs s @ batches_got ch ys (hub_run xs s)"
  by (induction xs arbitrary: s) simp_all

lemma got_foreign: "foreign ch x \<Longrightarrow> got ch (fst (hub_step x s)) = []"
  by (cases x) (auto simp: foreign_def split_beta Let_def split: option.splits res.splits prod.splits)

lemma batches_got_foreign: "list_all (foreign ch) xs \<Longrightarrow> batches_got ch xs s = []"
  by (induction xs arbitrary: s) (auto simp: got_foreign)

lemma hub_ok_run: "hub_ok s \<Longrightarrow> hub_ok (hub_run xs s)"
  by (induction xs arbitrary: s) (auto simp: hub_ok_step)

abbreviation connected :: "nat \<Rightarrow> hub \<Rightarrow> bool" where
  "connected ch s \<equiv> ch \<in> fst ` set (subscribers s)"

lemma connected_step:
  assumes "x \<noteq> OpUnsub ch"
  shows "connected ch s \<Longrightarrow> connected ch (snd (hub_step x s))"
proof (cases x)
  case (OpUnsub j)
  with assms show "connected ch s \<Longrightarrow> ?thesis" by (force simp: unsub_def)
next
  case (OpRecv j)
  then show "connected ch s \<Longrightarrow> ?thesis"
    by (cases rule: recv_batch_cases [of j s]) (force simp: set_chan_def)+
next
  case OpTake
  then show "connected ch s \<Longrightarrow> ?thesis"
    by (auto split: prod.splits option.splits dest!: flush_take_parts flush_take_None)
next
  case OpDeliver
  then show "connected ch s \<Longrightarrow> ?thesis" by (force simp: flush_deliver_def split: option.splits)
qed (auto simp: Send_def consume_def drainBroadcast_all Subscribe_def Dropped_def Let_def split: prod.splits option.splits)

lemma connected_run: "list_all (foreign ch) xs \<Longrightarrow> connected ch s \<Longrightarrow> connected ch (hub_run xs s)"
  by (induction xs arbitrary: s) (auto simp: foreign_def intro!: connected_step)

text \<open>
  \<open>streams enc ch s ops fs s'\<close>: the operations \<open>ops\<close> take the hub from \<open>s\<close> to \<open>s'\<close> without ending the
  subscription, and the data frames in \<open>fs\<close> are the encodings of the batches the client got in them,
  in order; with \<open>partial\<close>, that of the last one may be missing.
\<close>

definition streams ::
  "(webhook list \<Rightarrow> bytes option) \<Rightarrow> nat \<Rightarrow> bool \<Rightarrow> hub \<Rightarrow> hub_op list \<Rightarrow> frame list \<Rightarrow> hub \<Rightarrow> bool" where
  "streams enc ch partial s ops fs s' \<longleftrightarrow>
     OpUnsub ch \<notin> set ops \<and> hub_run ops s = s' \<and> list_all (\<lambda>n. 0 < n) (overflows fs) \<and>
     (datas fs = List.map_filter enc (batches_got ch ops s) \<or>
      partial \<and> (\<exists>last. List.map_filter enc (batches_got ch ops s) = datas fs @ [last]))"

lemma map_filter_append: "List.map_filter f (xs @ ys) = List.map_filter f xs @ List.map_filter f ys"
  by (simp add: List.map_filter_def)

lemma streams_trans:
  "streams enc ch False s ops fs s' \<Longrightarrow> streams enc ch partial s' ops' fs' s'' \<Longrightarrow>
     streams enc ch partial s (ops @ ops') (fs @ fs') s''"
  by (auto simp: streams_def hub_run_append batches_got_append map_filter_append split: if_splits)

lemma streams_partial: "streams enc ch False s ops fs s' \<Longrightarrow> streams enc ch partial s ops fs s'"
  by (auto simp: streams_def)

lemma streams_foreign: "list_all (foreign ch) ops \<Longrightarrow> streams enc ch False s ops [] (hub_run ops s)"
  by (auto simp: streams_def batches_got_foreign foreign_def list_all_iff List.map_filter_simps)

lemma streams_frame: "datas fs = [] \<Longrightarrow> list_all (\<lambda>n. 0 < n) (overflows fs) \<Longrightarrow> streams enc ch False s [] fs s"
  by (simp add: streams_def List.map_filter_simps)

lemma put_frame_cases:
  obtains (lost) "put_frame io f = ([], False)" | (closed) "put_frame io f = ([f], False)" | (written) "put_frame io f = ([f], True)"
  by (cases "io_write io"; cases "io_flush io") (auto simp: put_frame_def)

lemma sendHeartbeat_streams: "sendHeartbeat io = (fs, ok) \<Longrightarrow> streams enc ch False s [] fs s"
  by (cases rule: put_frame_cases [of io Heartbeat]) (auto simp: sendHeartbeat_def intro!: streams_frame)

text \<open>Taking a batch from the channel and streaming it.\<close>

lemma streamBatch_streams:
  assumes "list_all (foreign ch) others" and "recv_batch ch s = (Some batch, s1)"
    and "streamBatch enc io1 io2 others batch s1 = ((fs, ok), s')"
  shows "\<exists>ops. streams enc ch (\<not> ok) s ops fs s'"
proof -
  have r: "hub_step (OpRecv ch) s = (Batch ch batch, s1)" using assms(2) by simp
  show ?thesis
  proof (cases "enc batch")
    case None
    with assms(3) r show ?thesis
      by (intro exI [of _ "[OpRecv ch]"]) (simp add: streamBatch_def streams_def List.map_filter_simps)
  next
    case (Some data)
    show ?thesis
    proof (cases rule: put_frame_cases [of io1 "Data data"])
      case written
      let ?s2 = "hub_run others s1"
      have d: "hub_step OpDropped ?s2 = (Count (dropped ?s2), snd (Dropped ?s2))"
        by (simp add: Dropped_def)
      have "s' = snd (Dropped ?s2)" and "datas fs = [data]" and "list_all (\<lambda>n. 0 < n) (overflows fs)"
        using assms(3) Some written
        by (cases rule: put_frame_cases [of io2 "Overflow (dropped ?s2)"];
            auto simp: streamBatch_def Dropped_def Let_def hub_run_def split: if_splits)+
      then have "streams enc ch False s (OpRecv ch # others @ [OpDropped]) fs s'"
        using assms(1) r d Some
        by (auto simp: streams_def hub_run_append batches_got_append batches_got_foreign List.map_filter_simps foreign_def list_all_iff)
      then show ?thesis by (auto dest: streams_partial)
    qed (use assms(3) r Some in \<open>auto intro!: exI [of _ "[OpRecv ch]"] simp: streamBatch_def streams_def List.map_filter_simps\<close>)
  qed
qed

text \<open>What one turn writes; it ends the loop or goes on with the remaining turns.\<close>

lemma sse_turn_cases:
  assumes "foreign_case ch c"
  obtains (stop) ops gs s2 where "streams enc ch True (hub_run others s) ops gs s2"
      "\<And>turns. sse_loop enc ch ((others, c) # turns) s = (gs, True, s2)"
    | (continue) ops gs s2 where "streams enc ch False (hub_run others s) ops gs s2"
      "\<And>turns. sse_loop enc ch ((others, c) # turns) s = (gs @ fst (sse_loop enc ch turns s2), snd (sse_loop enc ch turns s2))"
proof (cases c)
  case Gone
  show thesis
    by (rule stop [OF streams_partial [OF streams_frame [of "[]"]]]) (simp_all add: Gone hub_run_def)
next
  case (Beat io)
  obtain gs ok where b: "sendHeartbeat io = (gs, ok)" by fastforce
  note st = sendHeartbeat_streams [OF b, of enc ch "hub_run others s"]
  show thesis
  proof (cases ok)
    case True
    with b show thesis by (intro continue [OF st]) (simp add: Beat hub_run_def split_beta Let_def)
  next
    case False
    with b show thesis by (intro stop [OF streams_partial [OF st]]) (simp add: Beat hub_run_def)
  qed
next
  case (Ready io1 io2 others')
  obtain m s1 where r: "recv_batch ch (hub_run others s) = (m, s1)" by fastforce
  show thesis
  proof (cases m)
    case None
    then have "s1 = hub_run others s" using r by (cases rule: recv_batch_cases [of ch "hub_run others s"]) auto
    with None r show thesis
      by (intro continue [OF streams_frame [of "[]"]]) (simp_all add: Ready hub_run_def)
  next
    case (Some batch)
    obtain gs ok s2 where b: "streamBatch enc io1 io2 others' batch s1 = ((gs, ok), s2)"
      by (cases "streamBatch enc io1 io2 others' batch s1") (metis surj_pair)
    obtain ops where st: "streams enc ch (\<not> ok) (hub_run others s) ops gs s2"
      using streamBatch_streams [OF _ r [unfolded Some] b] assms Ready by auto
    note facts = st r Some b Ready hub_run_def
    show thesis
    proof (cases ok)
      case True
      with facts show thesis by (intro continue [of ops gs s2]) (simp_all add: split_beta)
    next
      case False
      with facts show thesis by (intro stop [of ops gs s2]) simp_all
    qed
  qed
qed

lemma sse_loop_streams:
  assumes "foreign_turns ch turns" and "sse_loop enc ch turns s = (fs, returned, s')"
  shows "\<exists>ops. streams enc ch returned s ops fs s'"
  using assms
proof (induction turns arbitrary: s fs)
  case Nil
  then show ?case by (auto intro!: exI [of _ "[]"] streams_frame)
next
  case (Cons turn turns)
  obtain others c where turn: "turn = (others, c)" by (cases turn)
  have f: "list_all (foreign ch) others" "foreign_case ch c" "foreign_turns ch turns"
    using Cons.prems(1) by (simp_all add: foreign_turns_def turn)
  note o = streams_foreign [OF f(1), of enc s]
  from f(2) show ?case
  proof (cases rule: sse_turn_cases [where enc = enc and others = others and s = s])
    case (stop ops gs s2)
    with Cons.prems(2) streams_trans [OF o stop(1)] show ?thesis by (auto simp: turn simp del: sse_loop.simps)
  next
    case (continue ops gs s2)
    then have loop: "sse_loop enc ch turns s2 = (fst (sse_loop enc ch turns s2), returned, s')"
      and fs: "fs = gs @ fst (sse_loop enc ch turns s2)"
      using Cons.prems(2) by (auto simp: turn prod_eq_iff simp del: sse_loop.simps)
    from Cons.IH [OF f(3) loop] obtain ops' where "streams enc ch returned s2 ops' (fst (sse_loop enc ch turns s2)) s'" by blast
    from streams_trans [OF o streams_trans [OF continue(1) this]] show ?thesis using fs by auto
  qed
qed

text \<open>A turn with a batch waiting writes it, whatever the turns before.\<close>

lemma sse_loop_append:
  "sse_loop enc ch turns s = (fs, False, s') \<Longrightarrow>
     sse_loop enc ch (turns @ later) s = (fs @ fst (sse_loop enc ch later s'), snd (sse_loop enc ch later s'))"
proof (induction turns arbitrary: s fs)
  case (Cons turn turns)
  obtain others c where turn: "turn = (others, c)" by (cases turn)
  show ?case
  proof (cases c)
    case Gone
    then show ?thesis using Cons.prems turn by (simp add: Let_def)
  next
    case (Beat io)
    then show ?thesis using Cons turn by (fastforce simp: Let_def split: prod.splits bool.splits)
  next
    case (Ready io1 io2 others')
    then show ?thesis using Cons turn by (fastforce simp: Let_def split: prod.splits bool.splits option.splits)
  qed
qed simp

lemma sse_loop_ready:
  assumes "queue_of ch (hub_run others s) = batch # rest" and "enc batch = Some data" and "io_write io1" and "io_flush io1"
  shows "datas (fst (sse_loop enc ch [(others, Ready io1 io2 others')] s)) = [data]"
proof -
  obtain c s2 where r: "recv_batch ch (hub_run others s) = (Some batch, s2)"
    using assms(1) by (auto simp: queue_of_def recv_batch_def try_recv_def split: option.splits list.splits)
  show ?thesis
    using r assms(2-4)
    by (cases rule: put_frame_cases [of io2 "Overflow (dropped (hub_run others' s2))"])
      (auto simp: streamBatch_def put_frame_def Dropped_def Let_def hub_run_def split: prod.splits if_splits)
qed

section \<open>Properties\<close>

lemma connected_ops: "OpUnsub ch \<notin> set ops \<Longrightarrow> connected ch s \<Longrightarrow> connected ch (hub_run ops s)"
proof (induction ops arbitrary: s)
  case (Cons x ops)
  then have "connected ch (snd (hub_step x s))" by (intro connected_step) auto
  with Cons show ?case by simp
qed simp

lemma fresh_channel: "hub_ok s \<Longrightarrow> \<not> connected (next_sub s) s"
  by (auto simp: hub_ok_def list_all_iff)

lemma batches_got_order:
  assumes "hub_ok s"
  shows "subseq (batches_got (next_sub s) ops s) (concat (map offered (fst (run_ops hub_step ops s))))"
proof -
  have "queue_of (next_sub s) s = []"
    using fresh_channel [OF assms] by (simp add: queue_of_def flip: map_of_eq_None_iff)
  moreover have "subseq (batches_got (next_sub s) ops s)
      (batches_got (next_sub s) ops s @ queue_of (next_sub s) (snd (run_ops hub_step ops s)))"
    by (rule prefix_imp_subseq) (rule prefixI [OF refl])
  moreover have "subseq (batches_got (next_sub s) ops s @ queue_of (next_sub s) (snd (run_ops hub_step ops s)))
      (queue_of (next_sub s) s @ concat (map offered (fst (run_ops hub_step ops s))))"
    unfolding batches_got_def by (rule hub_run_order)
  ultimately show ?thesis by (simp add: subseq_order.trans)
qed

text \<open>
  C19. One client of the event stream, whatever the rest of the program does to the hub meanwhile and
  whatever becomes of its connection. The handler acts on the hub only through the hub's own
  operations, so the hub's bounds hold throughout. The data frames it writes are the encodings of the
  batches it has received, all of them and in order, except that the last one may be missing when the
  handler has returned because it could not be written; and those batches are among the ones flushed, in
  order. As long as the handler has not returned, a batch that waits in its channel is what it writes
  next when it takes its turn, if the batch can be encoded and written. An overflow frame carries a
  positive count. The subscription ends when the handler returns, and ending it does not panic.
\<close>

theorem sse_streams_in_order:
  assumes ok: "hub_ok s" and f: "foreign_turns (next_sub s) turns"
    and sse: "SSE enc io turns s = (fs, returned, panicked, s')"
  shows "(\<exists>ops. hub_run ops s = s' \<and> hub_ok s' \<and>
      (datas fs = List.map_filter enc (batches_got (next_sub s) ops s) \<or>
       returned \<and> (\<exists>last. List.map_filter enc (batches_got (next_sub s) ops s) = datas fs @ [last])) \<and>
      subseq (batches_got (next_sub s) ops s) (concat (map offered (fst (run_ops hub_step ops s))))) \<and>
    (\<forall>others io1 io2 others' batch rest data. \<not> returned \<and> queue_of (next_sub s) (hub_run others s') = batch # rest \<and>
       enc batch = Some data \<and> io_write io1 \<and> io_flush io1 \<longrightarrow>
       datas (fst (SSE enc io (turns @ [(others, Ready io1 io2 others')]) s)) = datas fs @ [data]) \<and>
    list_all (\<lambda>n. 0 < n) (overflows fs) \<and> \<not> panicked \<and> (returned \<longrightarrow> next_sub s \<notin> fst ` set (subscribers s'))"
proof -
  let ?ch = "next_sub s"
  obtain gs ret s2 where l: "sse_loop enc ?ch turns (snd (Subscribe s)) = (gs, ret, s2)" by (metis prod_cases3)
  from sse_loop_streams [OF f l] obtain ops where st: "streams enc ?ch ret (snd (Subscribe s)) ops gs s2" by blast
  have sub: "hub_step OpSubscribe s = (Subscribed ?ch, snd (Subscribe s))" by (simp add: Subscribe_def Let_def)
  have "connected ?ch (snd (Subscribe s))" by (simp add: Subscribe_def)
  moreover have "OpUnsub ?ch \<notin> set ops" "s2 = hub_run ops (snd (Subscribe s))" using st by (simp_all add: streams_def)
  ultimately have c: "connected ?ch s2" using connected_ops by metis
  then have un: "unsub ?ch s2 = (Ok (), snd (unsub ?ch s2))" "\<not> connected ?ch (snd (unsub ?ch s2))"
    by (auto simp: unsub_def)
  define all where "all = OpSubscribe # ops @ (if ret then [OpUnsub ?ch] else [])"
  have out: "fs = announceConnected io @ gs" "returned = ret" "\<not> panicked" "s' = (if ret then snd (unsub ?ch s2) else s2)"
    using sse l un(1) by (auto simp: SSE_def Subscribe_def Let_def split: prod.splits if_splits)
  have ann: "datas (announceConnected io) = []" "overflows (announceConnected io) = []"
    by (cases rule: put_frame_cases [of io Connected]; simp add: announceConnected_def)+
  have run: "hub_run all s = s'"
    using st sub un(1) out(4) by (auto simp: all_def hub_run_append streams_def split: res.splits prod.splits)
  have got: "batches_got ?ch all s = batches_got ?ch ops (snd (Subscribe s))"
    using sub un(1) st by (auto simp: all_def batches_got_append streams_def split: res.splits prod.splits)
  have "datas fs = List.map_filter enc (batches_got ?ch all s) \<or>
      returned \<and> (\<exists>last. List.map_filter enc (batches_got ?ch all s) = datas fs @ [last])"
    using st ann(1) out(1,2) got by (auto simp: streams_def)
  moreover have "datas (fst (SSE enc io (turns @ [(others, Ready io1 io2 others')]) s)) = datas fs @ [data]"
    if "\<not> returned" "queue_of ?ch (hub_run others s') = batch # rest" "enc batch = Some data" "io_write io1" "io_flush io1"
    for others io1 io2 others' batch rest data
  proof -
    have "sse_loop enc ?ch turns (snd (Subscribe s)) = (gs, False, s')" using l out(2,4) that(1) by simp
    note more = sse_loop_append [OF this, of "[(others, Ready io1 io2 others')]"]
    have "fst (SSE enc io (turns @ [(others, Ready io1 io2 others')]) s) =
        announceConnected io @ fst (sse_loop enc ?ch (turns @ [(others, Ready io1 io2 others')]) (snd (Subscribe s)))"
      by (simp add: SSE_def Subscribe_def Let_def split: prod.splits)
    then show ?thesis
      using sse_loop_ready [where enc = enc, OF that(2-5), of io2 others'] by (simp add: more out(1) ann(1) del: sse_loop.simps)
  qed
  moreover have "list_all (\<lambda>n. 0 < n) (overflows fs)" using st ann(2) out(1) by (simp add: streams_def)
  moreover have "returned \<longrightarrow> ?ch \<notin> fst ` set (subscribers s')" using un(2) out(2,4) by simp
  moreover have "subseq (batches_got ?ch all s) (concat (map offered (fst (run_ops hub_step all s))))" "hub_ok s'"
    using batches_got_order [OF ok, of all] hub_ok_run [OF ok, of all] run by simp_all
  ultimately show ?thesis using run out(3) by blast
qed

definition sample_turns :: "(hub_op list \<times> sse_case) list" where
  "sample_turns =
     [([OpSend sample_event, OpConsume, OpTake, OpDeliver], Ready \<lparr>io_write = True, io_flush = True\<rparr> \<lparr>io_write = True, io_flush = True\<rparr> []),
      ([], Beat \<lparr>io_write = True, io_flush = True\<rparr>), ([], Gone)]"

lemma sample_stream:
  "SSE (\<lambda>b. Some (itoa (int (length b)))) \<lparr>io_write = True, io_flush = True\<rparr> sample_turns NewEventService =
     ([Connected, Data ''1'', Heartbeat], True, False, NewEventService\<lparr>next_sub := 1\<rparr>)"
  by code_simp

text \<open>While the first batch is being written a second one arrives; the next turn writes it.\<close>

definition open_turns :: "(hub_op list \<times> sse_case) list" where
  "open_turns = butlast sample_turns"

lemma sample_open_stream:
  "map_prod id (map_prod id fst) (SSE (\<lambda>b. Some (itoa (int (length b)))) \<lparr>io_write = True, io_flush = True\<rparr> open_turns NewEventService) =
     ([Connected, Data ''1'', Heartbeat], False, False)"
  by code_simp

lemma sample_waiting:
  "map length (queue_of 0 (hub_run [OpSend sample_event, OpConsume, OpTake, OpDeliver]
     (snd (snd (snd (SSE (\<lambda>b. Some (itoa (int (length b)))) \<lparr>io_write = True, io_flush = True\<rparr> open_turns NewEventService)))))) = [1]"
  by code_simp

theorem sse_streams_in_order_witness:
  "let io = \<lparr>io_write = True, io_flush = True\<rparr>; enc = (\<lambda>b. Some (itoa (int (length b))));
       feed = [OpSend sample_event, OpConsume, OpTake, OpDeliver]
   in datas (fst (SSE enc io (open_turns @ [(feed, Ready io io [])]) NewEventService)) = [''1'', ''1'']"
proof -
  let ?io = "\<lparr>io_write = True, io_flush = True\<rparr>" and ?enc = "\<lambda>b :: webhook list. Some (itoa (int (length b)))"
  let ?feed = "[OpSend sample_event, OpConsume, OpTake, OpDeliver]"
  let ?run = "SSE ?enc ?io open_turns NewEventService"
  define s' where "s' = snd (snd (snd ?run))"
  have run: "?run = ([Connected, Data ''1'', Heartbeat], False, False, s')" using sample_open_stream by (simp add: prod_eq_iff s'_def)
  have "map length (queue_of 0 (hub_run ?feed s')) = [1]" unfolding s'_def by (rule sample_waiting)
  then obtain batch where q: "queue_of 0 (hub_run ?feed s') = [batch]" "length batch = 1" by (auto simp: map_eq_Cons_conv)
  have n: "next_sub NewEventService = 0" by code_simp
  have f: "foreign_turns (next_sub NewEventService) open_turns"
    by (simp add: foreign_turns_def open_turns_def sample_turns_def foreign_def)
  have one: "itoa 1 = ''1''" by code_simp
  from sse_streams_in_order [OF hub_ok_new f run] have
    "datas (fst (SSE ?enc ?io (open_turns @ [(?feed, Ready ?io ?io [])]) NewEventService)) =
      datas [Connected, Data ''1'', Heartbeat] @ [itoa (int (length batch))]"
    using q(1) unfolding n by (elim conjE) simp
  then show ?thesis using q(2) one by simp
qed

end
