(* ===== verification/ProviderHandler.thy ===== *)
theory ProviderHandler
  imports Ingest
begin

text \<open>
  \<^verbatim>\<open>internal/api/handler/provider.go\<close>: listing the providers and configuring one. The JSON encoders
  and the decoder of the body are arguments.
\<close>

record configure_body =
  cb_signing_secret :: string
  cb_destination_url :: string
  cb_max_retries :: int
  cb_max_req_second :: int

definition providers_handler :: "(provider list \<Rightarrow> bytes option) \<Rightarrow> bytes \<Rightarrow> fault \<Rightarrow> db \<Rightarrow> http_response res" where
  "providers_handler enc mk ft d =
     (case Providers.GetAll mk ft d of
        Err e \<Rightarrow> Ok (http_error ''error retrieving all providers from database'' StatusInternalServerError)
      | Panic \<Rightarrow> Panic
      | Ok provs \<Rightarrow>
          (case enc provs of
             None \<Rightarrow> Ok (http_error ''error marshaling providers'' StatusInternalServerError)
           | Some b \<Rightarrow> Ok \<lparr>ht_code = StatusOK, ht_cookies = [], ht_body = b\<rparr>))"

definition configure_failed :: "go_error \<Rightarrow> http_response" where
  "configure_failed e =
     (if errors_is e ErrMissingSigningSecret \<or> errors_is e ErrMissingDestination \<or>
         errors_is e ErrInvalidRetryCount \<or> errors_is e ErrInvalidReqSecond
      then http_error (err_text e) StatusBadRequest
      else http_error (err_text e) StatusInternalServerError)"

text \<open>\<open>i\<close> is the URL parameter; \<open>enc\<close> returns the encoder's error otherwise.\<close>

definition configure_handler ::
  "configure_body json_decoder \<Rightarrow> (provider \<Rightarrow> go_error + bytes) \<Rightarrow> configure_env \<Rightarrow> string \<Rightarrow> request \<Rightarrow> db \<Rightarrow> redis \<Rightarrow>
   http_response res \<times> db \<times> redis" where
  "configure_handler dec enc ce i rq d r =
     (case DecodeBodyJSON dec rq of
        Inl m \<Rightarrow> (Ok (http_error (mr_message m) (mr_status m)), d, r)
      | Inr body \<Rightarrow>
          (case Configure ce i (cb_signing_secret body) (cb_destination_url body) (cb_max_retries body) (cb_max_req_second body) d r of
             (Panic, s) \<Rightarrow> (Panic, s)
           | (Err e, s) \<Rightarrow> (Ok (configure_failed e), s)
           | (Ok p, s) \<Rightarrow>
               (case enc p of
                  Inl e \<Rightarrow> (Ok (http_error (err_text e) StatusInternalServerError), s)
                | Inr b \<Rightarrow> (Ok \<lparr>ht_code = StatusOK, ht_cookies = [], ht_body = b\<rparr>, s))))"

end
