(* ===== verification/WorkerRepo.thy ===== *)
theory WorkerRepo
  imports EventsRepo
begin

text \<open>
  \<^verbatim>\<open>internal/worker/repository.go\<close> and \<^verbatim>\<open>cleanup.go\<close>: how workers claim events, how they
  write back the outcome of a forwarding attempt, and how old events are removed. The rows that other
  transactions have locked at that moment are an argument of a claim.
\<close>

datatype kind = WorkerKindQueue | WorkerKindRetry | WorkerKindReplay

text \<open>
  \<^verbatim>\<open>updateWebhook\<close>. The status is the string of the Go type, which is empty when no case set it.
\<close>

record update_webhook =
  uw_id :: uuid
  uw_prov_name :: string
  uw_next_retry_at :: "time option"
  uw_delivery_status :: string
  uw_response_code :: "int option"
  uw_last_error :: "string option"
  uw_forwarded_to :: "string option"

record batch_sizes =
  QueueWorkerBatch :: int
  RetryWorkerBatch :: int

definition default_batches :: batch_sizes where
  "default_batches = \<lparr>QueueWorkerBatch = 50, RetryWorkerBatch = 25\<rparr>"

definition SetWorkerBatchSizes :: "int \<Rightarrow> int \<Rightarrow> batch_sizes \<Rightarrow> batch_sizes" where
  "SetWorkerBatchSizes queue retry bs = \<lparr>QueueWorkerBatch = queue, RetryWorkerBatch = retry\<rparr>"

definition ReplayWorkerBatch :: int where
  "ReplayWorkerBatch = 1"

section \<open>Claiming events\<close>

text \<open>The sub-select on the provider is NULL, and the comparison with it not true, without a row.\<close>

definition retries_left :: "db \<Rightarrow> webhook \<Rightarrow> bool" where
  "retries_left d w \<longleftrightarrow>
     (case find (\<lambda>p. pr_id p = provider_id w) (provider_rows d) of
        None \<Rightarrow> False
      | Some p \<Rightarrow> retry_count w < max_retries p)"

definition stale :: "time \<Rightarrow> webhook \<Rightarrow> bool" where
  "stale now w \<longleftrightarrow> status w \<in> {Processing, Queued, Replaying} \<and> updated_at w < now - 60 * second"

definition due :: "time \<Rightarrow> webhook \<Rightarrow> bool" where
  "due now w \<longleftrightarrow> (case next_retry_at w of None \<Rightarrow> False | Some t \<Rightarrow> t \<le> now)"

fun claimable :: "kind \<Rightarrow> time \<Rightarrow> db \<Rightarrow> webhook \<Rightarrow> bool" where
  "claimable WorkerKindQueue now d w \<longleftrightarrow> status w = Queued"
| "claimable WorkerKindRetry now d w \<longleftrightarrow>
     (status w = Failed \<and> due now w \<and> retries_left d w) \<or> stale now w"
| "claimable WorkerKindReplay now d w \<longleftrightarrow> status w = Replaying"

fun claim_status :: "kind \<Rightarrow> delivery_status" where
  "claim_status WorkerKindQueue = Processing"
| "claim_status WorkerKindRetry = Retrying"
| "claim_status WorkerKindReplay = Replaying"

fun claim_limit :: "batch_sizes \<Rightarrow> kind \<Rightarrow> int" where
  "claim_limit bs WorkerKindQueue = QueueWorkerBatch bs"
| "claim_limit bs WorkerKindRetry = RetryWorkerBatch bs"
| "claim_limit bs WorkerKindReplay = ReplayWorkerBatch"

text \<open>The order in which claims are made; a NULL comes last.\<close>

fun claim_key :: "kind \<Rightarrow> webhook \<Rightarrow> time nulls_last \<times> uuid" where
  "claim_key WorkerKindRetry w = (nullable (next_retry_at w), wh_id w)"
| "claim_key _ w = (Val (received_at w), wh_id w)"

definition claim_ids :: "batch_sizes \<Rightarrow> kind \<Rightarrow> uuid list \<Rightarrow> time \<Rightarrow> db \<Rightarrow> uuid list" where
  "claim_ids bs k locked now d =
     map wh_id (first_by (claim_key k) (nat (claim_limit bs k))
       (filter (\<lambda>w. claimable k now d w \<and> wh_id w \<notin> set locked) (webhook_events d)))"

definition claim_stmt :: "batch_sizes \<Rightarrow> kind \<Rightarrow> uuid list \<Rightarrow> time \<Rightarrow> db \<Rightarrow> webhook list res \<times> db" where
  "claim_stmt bs k locked now d =
     (if claim_limit bs k < 0 then (Err (Driver (PgError ''LIMIT must not be negative'')), d)
      else let P = (\<lambda>w. wh_id w \<in> set (claim_ids bs k locked now d)); f = set_status now (claim_status k)
        in (Ok (returning P f (webhook_events d)), d\<lparr>webhook_events := update_where P f (webhook_events d)\<rparr>))"

record claim_env =
  cl_begin :: fault
  cl_query :: fault
  cl_commit :: fault
  cl_locked :: "uuid list"
  cl_now :: time

text \<open>
  The statement runs in a transaction: nothing of it remains unless the commit goes through, and
  a commit whose acknowledgement is lost is an error to the caller although the rows are claimed.
  Without any row, the result is the empty list and no error.
\<close>

definition GetEvents :: "batch_sizes \<Rightarrow> kind \<Rightarrow> claim_env \<Rightarrow> db \<Rightarrow> webhook list res \<times> db" where
  "GetEvents bs k ce d =
     (case ask (cl_begin ce) (\<lambda>_. Ok ()) d of
        Err e \<Rightarrow> (Err e, d)
      | Panic \<Rightarrow> (Panic, d)
      | Ok _ \<Rightarrow>
         (case ask (cl_query ce) (\<lambda>d. fst (claim_stmt bs k (cl_locked ce) (cl_now ce) d)) d of
            Err e \<Rightarrow> (Err e, d)
          | Panic \<Rightarrow> (Panic, d)
          | Ok hooks \<Rightarrow> call (cl_commit ce) (\<lambda>d. (Ok hooks, snd (claim_stmt bs k (cl_locked ce) (cl_now ce) d))) d))"

section \<open>Writing back the outcome\<close>

record write_env =
  we_fault :: fault
  we_now :: time
  we_timestamp :: "time \<Rightarrow> time"

text \<open>
  The column \<open>next_retry_at\<close> is a TIMESTAMP: \<open>we_timestamp\<close> is what it makes of a Go time (the wall
  clock of the process, without its zone, to the microsecond).
\<close>

definition apply_update :: "kind \<Rightarrow> write_env \<Rightarrow> delivery_status \<Rightarrow> string \<Rightarrow> update_webhook \<Rightarrow> webhook \<Rightarrow> webhook" where
  "apply_update k we st fwd u w =
     touch (we_now we) (w\<lparr>next_retry_at := map_option (we_timestamp we) (uw_next_retry_at u), status := st,
       response_code := uw_response_code u, last_error := uw_last_error u, forwarded_to := fwd,
       retry_count := (if k = WorkerKindRetry then retry_count w + 1 else retry_count w)\<rparr>)"

text \<open>One statement of the batch: the parameters are converted before any row is looked for.\<close>

definition update_stmt :: "kind \<Rightarrow> write_env \<Rightarrow> update_webhook \<Rightarrow> db \<Rightarrow> webhook option res \<times> db" where
  "update_stmt k we u d =
     (case (enum_in (uw_delivery_status u), uw_forwarded_to u) of
        (None, _) \<Rightarrow> (Err (Driver (PgError ''invalid input value for enum delivery_status'')), d)
      | (Some st, None) \<Rightarrow>
          (if list_ex (\<lambda>w. wh_id w = uw_id u) (webhook_events d)
             then (Err (Driver (PgError ''null value in column forwarded_to'')), d) else (Ok None, d))
      | (Some st, Some fwd) \<Rightarrow>
          let f = apply_update k we st fwd u in
          (Ok (case returning (\<lambda>w. wh_id w = uw_id u) f (webhook_events d) of [] \<Rightarrow> None | w # _ \<Rightarrow> Some w),
           d\<lparr>webhook_events := update_where (\<lambda>w. wh_id w = uw_id u) f (webhook_events d)\<rparr>))"

text \<open>
  The statements of a \<^verbatim>\<open>pgx.Batch\<close> form one implicit transaction: an error of the server in one
  of them undoes them all. A statement that finds no row is no error of the server, but scanning
  its result is one of the caller.
\<close>

fun run_batch :: "kind \<Rightarrow> write_env \<Rightarrow> update_webhook list \<Rightarrow> db \<Rightarrow> webhook option list res \<times> db" where
  "run_batch k we [] d = (Ok [], d)"
| "run_batch k we (u # us) d =
     (case update_stmt k we u d of
        (Err e, d') \<Rightarrow> (Err e, d')
      | (Panic, d') \<Rightarrow> (Panic, d')
      | (Ok x, d') \<Rightarrow> (case run_batch k we us d' of
            (Ok xs, d'') \<Rightarrow> (Ok (x # xs), d'')
          | (r, d'') \<Rightarrow> (r, d'')))"

definition batch_stmt :: "kind \<Rightarrow> write_env \<Rightarrow> update_webhook list \<Rightarrow> db \<Rightarrow> webhook list res \<times> db" where
  "batch_stmt k we us d =
     (case run_batch k we us d of
        (Ok xs, d') \<Rightarrow> (if None \<in> set xs then (Err ErrNoRows, d') else (Ok (map the xs), d'))
      | (Err e, d') \<Rightarrow> (Err e, d)
      | (Panic, d') \<Rightarrow> (Panic, d))"

definition UpdateEvents :: "kind \<Rightarrow> write_env \<Rightarrow> update_webhook list \<Rightarrow> db \<Rightarrow> webhook list res \<times> db" where
  "UpdateEvents k we updates d = (if updates = [] then (Ok [], d) else call (we_fault we) (batch_stmt k we updates) d)"

section \<open>Removing events (cleanup.go)\<close>

definition maxRows :: nat where
  "maxRows = 500000"

definition purge_stmt :: "time \<Rightarrow> db \<Rightarrow> unit res \<times> db" where
  "purge_stmt now d = (Ok (), d\<lparr>webhook_events := filter (\<lambda>w. \<not> received_at w < now - days 7) (webhook_events d)\<rparr>)"

definition evict_stmt :: "nat \<Rightarrow> db \<Rightarrow> unit res \<times> db" where
  "evict_stmt excess d =
     (let old = map wh_id (first_by received_at excess (webhook_events d))
      in (Ok (), d\<lparr>webhook_events := filter (\<lambda>w. wh_id w \<notin> set old) (webhook_events d)\<rparr>))"

record cleanup_env =
  cu_purge :: fault
  cu_count :: fault
  cu_evict :: fault
  cu_now :: time

definition runCleanup :: "cleanup_env \<Rightarrow> db \<Rightarrow> db" where
  "runCleanup cu d =
     (case call (cu_purge cu) (purge_stmt (cu_now cu)) d of
        (Ok _, d1) \<Rightarrow>
          (case ask (cu_count cu) (\<lambda>d. Ok (length (webhook_events d))) d1 of
             Ok cnt \<Rightarrow>
               (if cnt \<le> maxRows then d1
                else snd (call (cu_evict cu) (evict_stmt (cnt - maxRows)) d1))
           | _ \<Rightarrow> d1)
      | (_, d1) \<Rightarrow> d1)"

section \<open>Claims\<close>

lemma GetEvents_Ok:
  "GetEvents bs k ce d = (Ok hooks, d') \<longleftrightarrow>
     cl_begin ce = NoFault \<and> cl_query ce = NoFault \<and> cl_commit ce = NoFault \<and>
     claim_stmt bs k (cl_locked ce) (cl_now ce) d = (Ok hooks, d')"
  by (cases "claim_stmt bs k (cl_locked ce) (cl_now ce) d"; cases "cl_begin ce"; cases "cl_query ce"; cases "cl_commit ce")
    (auto simp: GetEvents_def ask_def call_def split: res.splits)

lemma GetEvents_state: "snd (GetEvents bs k ce d) \<in> {d, snd (claim_stmt bs k (cl_locked ce) (cl_now ce) d)}"
  using call_state [of "cl_commit ce" _ d]
  by (auto simp: GetEvents_def call_def split: res.splits fault.splits)

lemma claim_stmt_rows:
  assumes "claim_stmt bs k locked now d = (Ok hooks, d')"
  shows "0 \<le> claim_limit bs k"
    and "hooks = map (set_status now (claim_status k)) (filter (\<lambda>w. wh_id w \<in> set (claim_ids bs k locked now d)) (webhook_events d))"
    and "d' = d\<lparr>webhook_events := update_where (\<lambda>w. wh_id w \<in> set (claim_ids bs k locked now d)) (set_status now (claim_status k)) (webhook_events d)\<rparr>"
  using assms by (auto simp: claim_stmt_def Let_def returning_def split: if_splits)

lemma wh_id_set_status [simp]: "wh_id (set_status now st w) = wh_id w"
  by (simp add: set_status_def touch_def)

lemma status_set_status [simp]: "status (set_status now st w) = st"
  by (simp add: set_status_def touch_def)

lemma updated_at_set_status [simp]: "updated_at (set_status now st w) = now"
  by (simp add: set_status_def touch_def)

lemma claim_ids_subset:
  "i \<in> set (claim_ids bs k locked now d) \<Longrightarrow> \<exists>w \<in> set (webhook_events d). wh_id w = i \<and> claimable k now d w \<and> i \<notin> set locked"
  using first_by_subset [of "claim_key k" "nat (claim_limit bs k)"] by (fastforce simp: claim_ids_def)

lemma distinct_claim_ids: "distinct (map wh_id (webhook_events d)) \<Longrightarrow> distinct (claim_ids bs k locked now d)"
  unfolding claim_ids_def by (intro distinct_first_by distinct_map_filter)

lemma claim_stmt_identity [unchanged]:
  "map identity (webhook_events (snd (claim_stmt bs k locked now d))) = map identity (webhook_events d)"
  by (simp add: claim_stmt_def Let_def map_update_where)

lemma GetEvents_identity [unchanged]:
  "map identity (webhook_events (snd (GetEvents bs k ce d))) = map identity (webhook_events d)"
  using GetEvents_state [of bs k ce d] by (auto simp: claim_stmt_identity)

lemma GetEvents_others [unchanged]:
  "provider_rows (snd (GetEvents bs k ce d)) = provider_rows d \<and> refresh_tokens (snd (GetEvents bs k ce d)) = refresh_tokens d"
  using GetEvents_state [of bs k ce d] by (auto simp: claim_stmt_def Let_def)

lemma schema_ok_same_rows:
  assumes "schema_ok d" and "map identity (webhook_events d') = map identity (webhook_events d)"
    and "provider_rows d' = provider_rows d" and "refresh_tokens d' = refresh_tokens d"
  shows "schema_ok d'"
proof -
  have "schema_ok (d\<lparr>webhook_events := webhook_events d'\<rparr>)" by (rule schema_ok_update [OF assms(1,2)])
  then show ?thesis using assms(3,4) by (simp add: schema_ok_def)
qed

lemma GetEvents_schema: "schema_ok d \<Longrightarrow> schema_ok (snd (GetEvents bs k ce d))"
  using GetEvents_others by (intro schema_ok_same_rows [OF _ GetEvents_identity]) auto

text \<open>
  An event that a queue or retry worker has claimed at or after \<open>t\<close> and nobody has written back yet.
  No worker claims it before a minute has passed since \<open>t\<close>.
\<close>

definition held :: "time \<Rightarrow> uuid \<Rightarrow> db \<Rightarrow> bool" where
  "held t i d \<longleftrightarrow> (\<forall>w \<in> set (webhook_events d). wh_id w = i \<longrightarrow>
     status w = Retrying \<or> (status w = Processing \<and> t \<le> updated_at w))"

lemma held_not_claimable:
  assumes "held t i d" and "w \<in> set (webhook_events d)" and "wh_id w = i" and "now \<le> t + 60 * second"
  shows "\<not> claimable k now d w"
  using assms by (cases k) (auto simp: held_def stale_def)

lemma held_not_claimed: "held t i d \<Longrightarrow> now \<le> t + 60 * second \<Longrightarrow> i \<notin> set (claim_ids bs k locked now d)"
  using held_not_claimable by (fastforce dest: claim_ids_subset)

lemma claim_holds:
  assumes "k \<in> {WorkerKindQueue, WorkerKindRetry}" and "t \<le> now" and "now \<le> t + 60 * second"
    and "i \<in> set (claim_ids bs k locked now d) \<or> held t i d" and "0 \<le> claim_limit bs k"
  shows "held t i (snd (claim_stmt bs k locked now d))"
  unfolding held_def
proof (intro ballI impI)
  fix w
  assume w: "w \<in> set (webhook_events (snd (claim_stmt bs k locked now d)))" "wh_id w = i"
  let ?P = "\<lambda>y. wh_id y \<in> set (claim_ids bs k locked now d)"
  obtain y where y: "y \<in> set (webhook_events d)" "w = (if ?P y then set_status now (claim_status k) y else y)"
    using w(1) assms(5) by (auto simp: claim_stmt_def Let_def in_update_where)
  show "status w = Retrying \<or> status w = Processing \<and> t \<le> updated_at w"
  proof (cases "?P y")
    case True
    then have "status w = claim_status k" "updated_at w = now" using y(2) by simp_all
    then show ?thesis using assms(1,2) by auto
  next
    case False
    then show ?thesis using y w(2) assms(4) by (auto simp: held_def)
  qed
qed

text \<open>
  The operations of the program on the table of events, and what each of them does to it whatever
  becomes of its result. An operation concerns an event when it writes back its outcome, asks for its
  replay or creates it.
\<close>

datatype events_op =
    Claim kind claim_env
  | WriteBack kind write_env "update_webhook list"
  | Replay fault time uuid
  | Insert insert_env create_params
  | Cleanup cleanup_env

fun events_step :: "batch_sizes \<Rightarrow> events_op \<Rightarrow> db \<Rightarrow> db" where
  "events_step bs (Claim k ce) d = snd (GetEvents bs k ce d)"
| "events_step bs (WriteBack k we us) d = snd (UpdateEvents k we us d)"
| "events_step bs (Replay ft now i) d = snd (replayEvent ft now i d)"
| "events_step bs (Insert ie p) d = snd (InsertWebhook ie p d)"
| "events_step bs (Cleanup cu) d = runCleanup cu d"

fun concerns :: "uuid \<Rightarrow> events_op \<Rightarrow> bool" where
  "concerns i (Claim k ce) = False"
| "concerns i (WriteBack k we us) = (i \<in> uw_id ` set us)"
| "concerns i (Replay ft now j) = (i = j)"
| "concerns i (Insert ie p) = (i = ie_new_id ie)"
| "concerns i (Cleanup cu) = False"

definition rows_of :: "uuid \<Rightarrow> db \<Rightarrow> webhook set" where
  "rows_of i d = {w \<in> set (webhook_events d). wh_id w = i}"

lemma held_rows: "rows_of i d' \<subseteq> rows_of i d \<Longrightarrow> held t i d \<Longrightarrow> held t i d'"
  by (auto simp: held_def rows_of_def)

lemma rows_of_update_where: "(\<And>w. wh_id (f w) = wh_id w) \<Longrightarrow> (\<And>w. wh_id w = i \<Longrightarrow> \<not> P w) \<Longrightarrow>
    rows_of i (d\<lparr>webhook_events := update_where P f (webhook_events d)\<rparr>) = rows_of i d"
  by (force simp: rows_of_def in_update_where)

lemma rows_of_claim:
  assumes "i \<notin> set (claim_ids bs k (cl_locked ce) (cl_now ce) d)"
  shows "rows_of i (snd (GetEvents bs k ce d)) = rows_of i d"
proof -
  have "rows_of i (snd (claim_stmt bs k (cl_locked ce) (cl_now ce) d)) = rows_of i d"
    using assms by (auto simp: claim_stmt_def Let_def intro!: rows_of_update_where)
  with GetEvents_state [of bs k ce d] show ?thesis by (elim insertE emptyE) simp_all
qed

text \<open>The rows that a claim takes are the first of those it may take.\<close>

lemma claim_taken:
  fixes k bs now d locked
  defines "taken \<equiv> first_by (claim_key k) (nat (claim_limit bs k)) (filter (\<lambda>w. claimable k now d w \<and> wh_id w \<notin> set locked) (webhook_events d))"
  shows "w \<in> set taken \<Longrightarrow> w \<in> set (webhook_events d) \<and> claimable k now d w \<and> wh_id w \<notin> set locked"
    and "distinct (map wh_id (webhook_events d)) \<Longrightarrow>
      w \<in> set taken \<longleftrightarrow> w \<in> set (webhook_events d) \<and> wh_id w \<in> set (claim_ids bs k locked now d)"
    and "claim_stmt bs k locked now d = (Ok hooks, d') \<Longrightarrow> wh_id ` set hooks = set (claim_ids bs k locked now d)"
    and "claim_stmt bs k locked now d = (Ok hooks, d') \<Longrightarrow> distinct (map wh_id (webhook_events d)) \<Longrightarrow> length hooks = length taken"
proof -
  have ids: "claim_ids bs k locked now d = map wh_id taken" by (simp add: claim_ids_def taken_def)
  show sub: "w \<in> set (webhook_events d) \<and> claimable k now d w \<and> wh_id w \<notin> set locked" if "w \<in> set taken" for w
    using first_by_subset that by (fastforce simp: taken_def)
  show "w \<in> set taken \<longleftrightarrow> w \<in> set (webhook_events d) \<and> wh_id w \<in> set (claim_ids bs k locked now d)"
    if "distinct (map wh_id (webhook_events d))"
    using sub distinct_map_eq [OF that] by (auto simp: ids)
  show hids: "wh_id ` set hooks = set (claim_ids bs k locked now d)" if "claim_stmt bs k locked now d = (Ok hooks, d')"
    unfolding claim_stmt_rows(2) [OF that] using sub by (auto simp: ids image_image comp_def)
  show "length hooks = length taken"
    if s: "claim_stmt bs k locked now d = (Ok hooks, d')" and d: "distinct (map wh_id (webhook_events d))"
  proof -
    have "distinct (map wh_id hooks)"
      unfolding claim_stmt_rows(2) [OF s] using d by (simp add: comp_def distinct_map_filter)
    moreover have "distinct (map wh_id taken)" using distinct_claim_ids [OF d] by (metis ids)
    ultimately show ?thesis
      using distinct_card [of "map wh_id hooks"] distinct_card [of "map wh_id taken"] hids [OF s] by (simp add: ids)
  qed
qed

section \<open>Batches of updates\<close>

definition valid_update :: "update_webhook \<Rightarrow> bool" where
  "valid_update u \<longleftrightarrow> enum_in (uw_delivery_status u) \<noteq> None \<and> uw_forwarded_to u \<noteq> None"

definition updated_row :: "kind \<Rightarrow> write_env \<Rightarrow> update_webhook list \<Rightarrow> webhook \<Rightarrow> webhook" where
  "updated_row k we us w =
     (case find (\<lambda>u. uw_id u = wh_id w) us of
        None \<Rightarrow> w
      | Some u \<Rightarrow> apply_update k we (the (enum_in (uw_delivery_status u))) (the (uw_forwarded_to u)) u w)"

lemma apply_update_id [simp]: "wh_id (apply_update k we st fwd u w) = wh_id w"
  by (simp add: apply_update_def touch_def)

lemma identity_apply_update [simp]: "identity (apply_update k we st fwd u w) = identity w"
  by (simp add: apply_update_def touch_def identity_def)

lemma identity_updated_row [simp]: "identity (updated_row k we us w) = identity w"
  by (simp add: updated_row_def split: option.splits)

lemma updated_row_single:
  "updated_row k we [u] w = (if wh_id w = uw_id u
     then apply_update k we (the (enum_in (uw_delivery_status u))) (the (uw_forwarded_to u)) u w else w)"
  by (auto simp: updated_row_def)

lemma update_stmt_valid:
  assumes "valid_update u"
  shows "\<exists>x. update_stmt k we u d = (Ok x, d\<lparr>webhook_events := map (updated_row k we [u]) (webhook_events d)\<rparr>)"
proof -
  obtain st fwd where "enum_in (uw_delivery_status u) = Some st" "uw_forwarded_to u = Some fwd"
    using assms by (auto simp: valid_update_def)
  then show ?thesis by (simp add: update_stmt_def Let_def update_where_def updated_row_single [abs_def])
qed

lemma update_stmt_invalid:
  assumes "\<not> valid_update u" and "uw_id u \<in> wh_id ` set (webhook_events d)"
  shows "\<exists>e. update_stmt k we u d = (Err e, d)"
  using assms by (auto simp: update_stmt_def valid_update_def list_ex_iff split: option.splits)

lemma updated_row_Cons:
  assumes "uw_id u \<notin> uw_id ` set us"
  shows "updated_row k we us (updated_row k we [u] w) = updated_row k we (u # us) w"
proof (cases "wh_id w = uw_id u")
  case True
  then have "find (\<lambda>v. uw_id v = wh_id w) us = None" using assms by (metis (mono_tags, lifting) find_None_iff image_eqI)
  then show ?thesis using True by (simp add: updated_row_def)
next
  case False
  then show ?thesis by (simp add: updated_row_def)
qed

lemma update_stmt_Ok:
  assumes "update_stmt k we u d = (Ok x, d')"
  shows "d' = d\<lparr>webhook_events := map (updated_row k we [u]) (webhook_events d)\<rparr>"
    and "uw_id u \<in> wh_id ` set (webhook_events d) \<Longrightarrow> valid_update u"
    and "x = Some w \<Longrightarrow> wh_id w = uw_id u \<and> w \<in> set (webhook_events d')"
proof -
  have none: "map (updated_row k we [u]) (webhook_events d) = webhook_events d"
    if "\<not> list_ex (\<lambda>w. wh_id w = uw_id u) (webhook_events d)"
    using that by (auto simp: list_ex_iff updated_row_single intro: map_idI)
  show d': "d' = d\<lparr>webhook_events := map (updated_row k we [u]) (webhook_events d)\<rparr>"
    using assms none
    by (auto simp: update_stmt_def Let_def update_where_def updated_row_single [abs_def] split: option.splits if_splits)
  show "uw_id u \<in> wh_id ` set (webhook_events d) \<Longrightarrow> valid_update u"
    using assms update_stmt_invalid [of u d k we] by auto
  show "x = Some w \<Longrightarrow> wh_id w = uw_id u \<and> w \<in> set (webhook_events d')"
    using assms by (auto simp: update_stmt_def Let_def returning_def filter_eq_Cons_iff in_update_where split: option.splits if_splits list.splits)
qed

lemma updated_row_other: "wh_id w \<notin> uw_id ` set us \<Longrightarrow> updated_row k we us w = w"
  unfolding updated_row_def by (metis (mono_tags, lifting) find_None_iff image_eqI option.simps(4))

lemma run_batch_Ok:
  assumes "run_batch k we us d = (Ok xs, d')" and "distinct (map uw_id us)"
  shows "d' = d\<lparr>webhook_events := map (updated_row k we us) (webhook_events d)\<rparr> \<and>
    (\<forall>u \<in> set us. uw_id u \<in> wh_id ` set (webhook_events d) \<longrightarrow> valid_update u) \<and>
    list_all2 (\<lambda>u x. \<forall>w. x = Some w \<longrightarrow> wh_id w = uw_id u \<and> w \<in> set (webhook_events d')) us xs"
  using assms
proof (induction us arbitrary: d xs)
  case Nil
  have "updated_row k we [] = (\<lambda>w. w)" by (simp add: updated_row_def fun_eq_iff)
  then show ?case using Nil by simp
next
  case (Cons u us)
  obtain x d1 ys where u: "update_stmt k we u d = (Ok x, d1)" and us: "run_batch k we us d1 = (Ok ys, d')" and xs: "xs = x # ys"
    using Cons.prems(1) by (auto split: prod.splits res.splits)
  note U = update_stmt_Ok [OF u] and IH = Cons.IH [OF us]
  have ids: "wh_id (updated_row k we [u] w) = wh_id w" for w by (simp add: updated_row_single)
  have d': "d' = d\<lparr>webhook_events := map (updated_row k we (u # us)) (webhook_events d)\<rparr>"
    using IH U(1) Cons.prems(2) by (simp add: updated_row_Cons comp_def)
  have dd: "distinct (map uw_id us)" using Cons.prems(2) by simp
  have IH1: "webhook_events d' = map (updated_row k we us) (webhook_events d1)"
    and IH2: "\<forall>v \<in> set us. uw_id v \<in> wh_id ` set (webhook_events d1) \<longrightarrow> valid_update v"
    and IH3: "list_all2 (\<lambda>u x. \<forall>w. x = Some w \<longrightarrow> wh_id w = uw_id u \<and> w \<in> set (webhook_events d')) us ys"
    using IH [OF dd] by (simp, blast, blast)
  have x: "wh_id w = uw_id u \<and> w \<in> set (webhook_events d')" if "x = Some w" for w
  proof -
    have w: "wh_id w = uw_id u" "w \<in> set (webhook_events d1)" using U(3) [OF that] by auto
    then have "updated_row k we us w = w" using Cons.prems(2) by (intro updated_row_other) simp
    then show ?thesis using w unfolding IH1 by (metis image_eqI list.set_map)
  qed
  have same: "wh_id ` set (webhook_events d1) = wh_id ` set (webhook_events d)" by (simp add: U(1) image_image ids)
  have "\<forall>v \<in> set (u # us). uw_id v \<in> wh_id ` set (webhook_events d) \<longrightarrow> valid_update v"
    using IH2 U(2) unfolding same by simp
  then show ?case using d' x IH3 unfolding xs by simp
qed

lemma run_batch_rows: "map wh_id (webhook_events (snd (run_batch k we us d))) = map wh_id (webhook_events d) \<and>
    map identity (webhook_events (snd (run_batch k we us d))) = map identity (webhook_events d) \<and>
    provider_rows (snd (run_batch k we us d)) = provider_rows d \<and> refresh_tokens (snd (run_batch k we us d)) = refresh_tokens d"
proof (induction us arbitrary: d)
  case (Cons u us)
  obtain r d1 where u: "update_stmt k we u d = (r, d1)" by fastforce
  have "map wh_id (webhook_events d1) = map wh_id (webhook_events d) \<and> map identity (webhook_events d1) = map identity (webhook_events d) \<and>
      provider_rows d1 = provider_rows d \<and> refresh_tokens d1 = refresh_tokens d"
    using u by (auto simp: update_stmt_def Let_def map_update_where split: option.splits if_splits)
  then show ?case using Cons.IH [of d1] u by (cases r) (auto split: prod.splits res.splits)
qed simp

lemma batch_stmt_state: "snd (batch_stmt k we us d) = d \<or> snd (batch_stmt k we us d) = snd (run_batch k we us d)"
  by (auto simp: batch_stmt_def split: prod.splits res.splits)

lemma UpdateEvents_state: "snd (UpdateEvents k we us d) \<in> {d, snd (run_batch k we us d)}"
  using call_state [of "we_fault we" "batch_stmt k we us" d] batch_stmt_state [of k we us d]
  by (auto simp: UpdateEvents_def)

lemma UpdateEvents_identity [unchanged]:
  "map identity (webhook_events (snd (UpdateEvents k we us d))) = map identity (webhook_events d)"
  using UpdateEvents_state [of k we us d] run_batch_rows by auto

lemma UpdateEvents_schema: "schema_ok d \<Longrightarrow> schema_ok (snd (UpdateEvents k we us d))"
  using UpdateEvents_state [of k we us d] run_batch_rows [of k we us d]
  by (intro schema_ok_same_rows [OF _ UpdateEvents_identity]) auto

section \<open>Cleanup\<close>

lemma filter_schema: "schema_ok d \<Longrightarrow> schema_ok (d\<lparr>webhook_events := filter P (webhook_events d)\<rparr>)"
  by (auto simp: schema_ok_def distinct_map_filter distinct_event_keys_filter list_all_iff)

lemma runCleanup_filter: "\<exists>P. runCleanup cu d = d\<lparr>webhook_events := filter P (webhook_events d)\<rparr>"
proof -
  have keep: "\<exists>P. d = d\<lparr>webhook_events := filter P (webhook_events d)\<rparr>" for d :: db
    by (rule exI [of _ "\<lambda>_. True"]) simp
  have call: "\<exists>P. snd (call ft stmt d) = d\<lparr>webhook_events := filter P (webhook_events d)\<rparr>"
    if "\<exists>P. snd (stmt d) = d\<lparr>webhook_events := filter P (webhook_events d)\<rparr>" for ft and stmt :: "db \<Rightarrow> unit res \<times> db" and d
    using that keep [of d] call_state [of ft stmt d] by (elim insertE emptyE) simp_all
  obtain r d1 where c: "call (cu_purge cu) (purge_stmt (cu_now cu)) d = (r, d1)" by fastforce
  have "\<exists>P. d1 = d\<lparr>webhook_events := filter P (webhook_events d)\<rparr>"
    using call [of "purge_stmt (cu_now cu)" d "cu_purge cu"] c by (auto simp: purge_stmt_def)
  then obtain P where P: "d1 = d\<lparr>webhook_events := filter P (webhook_events d)\<rparr>" by blast
  have "\<exists>Q. snd (call (cu_evict cu) (evict_stmt n) d1) = d1\<lparr>webhook_events := filter Q (webhook_events d1)\<rparr>" for n
    by (rule call) (auto simp: evict_stmt_def Let_def)
  then have "\<exists>Q. runCleanup cu d = d1\<lparr>webhook_events := filter Q (webhook_events d1)\<rparr>"
    using c keep [of d1] by (auto simp: runCleanup_def split: res.splits)
  then show ?thesis using P by (auto intro: exI)
qed

text \<open>Evicting by id the first rows of a table removes exactly these rows.\<close>

lemma evicted_rows:
  assumes "distinct (map wh_id rows)"
  shows "filter (\<lambda>w. wh_id w \<notin> wh_id ` set (first_by key n rows)) rows = filter (\<lambda>w. w \<notin> set (first_by key n rows)) rows"
    and "length (filter (\<lambda>w. w \<notin> set (first_by key n rows)) rows) = length rows - n"
proof -
  let ?old = "first_by key n rows"
  have sub: "set ?old \<subseteq> set rows" by (rule first_by_subset)
  show "filter (\<lambda>w. wh_id w \<notin> wh_id ` set ?old) rows = filter (\<lambda>w. w \<notin> set ?old) rows"
    using distinct_map_eq [OF assms] sub by (intro filter_cong) auto
  have d: "distinct rows" "distinct ?old" using assms distinct_first_by [OF assms, of key n] by (simp_all add: distinct_map)
  have "length (filter (\<lambda>w. w \<notin> set ?old) rows) = card (set rows - set ?old)"
    using distinct_card [of "filter (\<lambda>w. w \<notin> set ?old) rows"] d(1) by (simp add: set_diff_eq)
  also have "\<dots> = length rows - length ?old"
    using d sub by (simp add: card_Diff_subset distinct_card)
  finally show "length (filter (\<lambda>w. w \<notin> set ?old) rows) = length rows - n" by (simp add: length_first_by)
qed

lemma runCleanup_schema: "schema_ok d \<Longrightarrow> schema_ok (runCleanup cu d)"
  using runCleanup_filter [of cu d] filter_schema [of d] by auto

section \<open>Events that are being worked on\<close>

lemma rows_of_run_batch: "i \<notin> uw_id ` set us \<Longrightarrow> rows_of i (snd (run_batch k we us d)) = rows_of i d"
proof (induction us arbitrary: d)
  case (Cons u us)
  obtain r d1 where u: "update_stmt k we u d = (r, d1)" by fastforce
  have "rows_of i d1 = rows_of i d"
    using u Cons.prems by (auto simp: update_stmt_def Let_def intro!: rows_of_update_where split: option.splits if_splits)
  then show ?case using Cons.IH [of d1] Cons.prems u by (cases r) (auto split: prod.splits res.splits)
qed simp

lemma rows_of_insert: "i \<noteq> ie_new_id ie \<Longrightarrow> rows_of i (snd (InsertWebhook ie p d)) \<subseteq> rows_of i d"
  using call_state [of "ie_fault ie" "insert_stmt ie p" d] unfolding InsertWebhook_state
  by (cases rule: insert_stmt_cases [of ie p d]) (auto simp: rows_of_def new_row_def)

text \<open>Within a minute of its claim nothing changes an event that nothing concerns.\<close>

lemma events_step_held:
  assumes "held t i d" and "\<not> concerns i x" and "\<And>k ce. x = Claim k ce \<Longrightarrow> cl_now ce \<le> t + 60 * second"
  shows "held t i (events_step bs x d)"
proof (rule held_rows [OF _ assms(1)])
  show "rows_of i (events_step bs x d) \<subseteq> rows_of i d"
  proof (cases x)
    case (Claim k ce)
    then show ?thesis using rows_of_claim held_not_claimed [OF assms(1) assms(3)] by simp
  next
    case (WriteBack k we us)
    then have "rows_of i (snd (run_batch k we us d)) = rows_of i d" using assms(2) by (intro rows_of_run_batch) simp
    with UpdateEvents_state [of k we us d] show ?thesis unfolding WriteBack events_step.simps by (elim insertE emptyE) simp_all
  next
    case (Replay ft now j)
    then have "rows_of i (snd (replay_stmt now j d)) = rows_of i d"
      using assms(2) by (auto simp: replay_stmt_def intro!: rows_of_update_where)
    with call_state [of ft "replay_stmt now j" d] show ?thesis unfolding Replay events_step.simps replayEvent_def
      by (elim insertE emptyE) simp_all
  next
    case (Insert ie p)
    then show ?thesis using assms(2) rows_of_insert by simp
  next
    case (Cleanup cu)
    then show ?thesis using runCleanup_filter [of cu d] by (auto simp: rows_of_def)
  qed
qed

lemma events_run_held:
  assumes "held t i d" and "\<forall>x \<in> set xs. \<not> concerns i x" and "\<And>k ce. Claim k ce \<in> set xs \<Longrightarrow> cl_now ce \<le> t + 60 * second"
  shows "held t i (fold (events_step bs) xs d)"
  using assms
proof (induction xs arbitrary: d)
  case (Cons x xs)
  have "held t i (events_step bs x d)" using Cons.prems by (intro events_step_held) auto
  then have "held t i (fold (events_step bs) xs (events_step bs x d))" using Cons.prems by (intro Cons.IH) auto
  then show ?case by simp
qed simp

section \<open>Properties\<close>

lemma claimable_status:
  "claimable k now d w \<Longrightarrow>
     status w \<noteq> Delivered \<and> (status w = Failed \<longrightarrow> (\<exists>t. next_retry_at w = Some t \<and> t \<le> now) \<and> retries_left d w)"
  by (cases k) (auto simp: due_def stale_def split: option.splits)

text \<open>
  C12. A successful claim returns at most as many events as the batch size; each was claimable for
  this kind of worker, was not locked, and is stored with the claim's status; none was delivered
  before, and one that had failed was due for its next attempt with attempts left; every event that was
  claimable and not locked but is left behind comes no earlier in the worker's order than any event
  taken, and is left behind only because the batch is full; all other rows are untouched.
\<close>

theorem claim_takes_earliest:
  assumes "GetEvents bs k ce d = (Ok hooks, d')" and "distinct (map wh_id (webhook_events d))"
  shows "int (length hooks) \<le> claim_limit bs k \<and>
    (\<forall>h \<in> set hooks. \<exists>w \<in> set (webhook_events d). h = set_status (cl_now ce) (claim_status k) w \<and>
       claimable k (cl_now ce) d w \<and> wh_id w \<notin> set (cl_locked ce) \<and> h \<in> set (webhook_events d') \<and> status w \<noteq> Delivered \<and>
       (status w = Failed \<longrightarrow> (\<exists>t. next_retry_at w = Some t \<and> t \<le> cl_now ce) \<and> retries_left d w)) \<and>
    (\<forall>w \<in> set (webhook_events d). claimable k (cl_now ce) d w \<and> wh_id w \<notin> set (cl_locked ce) \<and> wh_id w \<notin> wh_id ` set hooks \<longrightarrow>
       int (length hooks) = claim_limit bs k \<and>
       (\<forall>v \<in> set (webhook_events d). wh_id v \<in> wh_id ` set hooks \<longrightarrow> claim_key k v \<le> claim_key k w)) \<and>
    webhook_events d' = map (\<lambda>w. if wh_id w \<in> wh_id ` set hooks then set_status (cl_now ce) (claim_status k) w else w) (webhook_events d)"
proof -
  let ?now = "cl_now ce" and ?locked = "cl_locked ce" and ?rows = "webhook_events d"
  let ?ok = "\<lambda>w. claimable k ?now d w \<and> wh_id w \<notin> set ?locked"
  let ?taken = "first_by (claim_key k) (nat (claim_limit bs k)) (filter ?ok ?rows)"
  have s: "claim_stmt bs k ?locked ?now d = (Ok hooks, d')" using assms(1) by (simp add: GetEvents_Ok)
  note rows = claim_stmt_rows [OF s] and sub = claim_taken(1) [where k = k and bs = bs and now = ?now and d = d and locked = ?locked]
  note pick = claim_taken(2) [OF assms(2), where k = k and bs = bs and now = ?now and locked = ?locked]
  note hids = claim_taken(3) [OF s] and len = claim_taken(4) [OF s assms(2)]
  have 1: "int (length hooks) \<le> claim_limit bs k" using len rows(1) by (simp add: length_first_by)
  have 2: "\<exists>w \<in> set ?rows. h = set_status ?now (claim_status k) w \<and> ?ok w \<and> h \<in> set (webhook_events d') \<and> status w \<noteq> Delivered \<and>
      (status w = Failed \<longrightarrow> (\<exists>t. next_retry_at w = Some t \<and> t \<le> ?now) \<and> retries_left d w)" if h: "h \<in> set hooks" for h
  proof -
    obtain w where w: "w \<in> set ?rows" "wh_id w \<in> set (claim_ids bs k ?locked ?now d)" "h = set_status ?now (claim_status k) w"
      using h unfolding rows(2) by auto
    moreover have "?ok w" using pick [of w] w sub [of w] by simp
    moreover have "h \<in> set (webhook_events d')" using w unfolding rows(3) by (auto simp: in_update_where)
    ultimately show ?thesis using claimable_status [of k ?now d w] by blast
  qed
  have 3: "int (length hooks) = claim_limit bs k \<and> (\<forall>v \<in> set ?rows. wh_id v \<in> wh_id ` set hooks \<longrightarrow> claim_key k v \<le> claim_key k w)"
    if w: "w \<in> set ?rows" "?ok w" "wh_id w \<notin> wh_id ` set hooks" for w
  proof -
    have out: "w \<notin> set ?taken" using w hids pick by auto
    have "\<not> length (filter ?ok ?rows) \<le> nat (claim_limit bs k)" using first_by_all [of "filter ?ok ?rows"] out w by auto
    then have "int (length hooks) = claim_limit bs k" using len rows(1) by (simp add: length_first_by)
    moreover have "claim_key k v \<le> claim_key k w" if "v \<in> set ?rows" "wh_id v \<in> wh_id ` set hooks" for v
      using first_by_least [of v "claim_key k" _ "filter ?ok ?rows" w] pick that out w hids by auto
    ultimately show ?thesis by blast
  qed
  have 4: "webhook_events d' = map (\<lambda>w. if wh_id w \<in> wh_id ` set hooks then set_status ?now (claim_status k) w else w) ?rows"
    unfolding rows(3) hids by (simp add: update_where_def)
  from 1 2 3 4 show ?thesis by auto
qed

definition sample_row :: "uuid \<Rightarrow> delivery_status \<Rightarrow> time \<Rightarrow> webhook" where
  "sample_row i st t = \<lparr>wh_id = i, provider_id = 1, provider_name = Stripe, event_id = None, event_type = ''charge'',
     headers = ''{}'', payload = ''{}'', status = st, forwarded_to = ''http://old'', response_code = None, retry_count = 0,
     next_retry_at = None, last_error = None, received_at = t, created_at = t, updated_at = t\<rparr>"

definition sample_rows :: db where
  "sample_rows = \<lparr>webhook_events = [sample_row 1 Queued 30, sample_row 2 Queued 10, sample_row 3 Failed 5, sample_row 4 Queued 20],
     provider_rows = [], refresh_tokens = []\<rparr>"

definition sample_claim :: claim_env where
  "sample_claim = \<lparr>cl_begin = NoFault, cl_query = NoFault, cl_commit = NoFault, cl_locked = [4], cl_now = 100\<rparr>"

lemma sample_claim_run:
  "GetEvents \<lparr>QueueWorkerBatch = 1, RetryWorkerBatch = 25\<rparr> WorkerKindQueue sample_claim sample_rows =
     (Ok [set_status 100 Processing (sample_row 2 Queued 10)],
      sample_rows\<lparr>webhook_events := (webhook_events sample_rows)[1 := set_status 100 Processing (sample_row 2 Queued 10)]\<rparr>)"
  by code_simp

theorem claim_takes_earliest_witness:
  "claim_key WorkerKindQueue (sample_row 2 Queued 10) \<le> claim_key WorkerKindQueue (sample_row 1 Queued 30)"
proof -
  have "distinct (map wh_id (webhook_events sample_rows))" by (simp add: sample_rows_def sample_row_def)
  from claim_takes_earliest [OF sample_claim_run this] show ?thesis
    by (simp add: sample_rows_def sample_claim_def) (simp add: sample_row_def set_status_def touch_def)
qed


text \<open>
  A queue worker's attempt fails, and fifty nanoseconds later the event is due again: a retry worker
  gets it within the same minute, after the write-back.
\<close>

definition retry_rows :: db where
  "retry_rows = sample_rows\<lparr>provider_rows := [\<lparr>pr_id = 1, pr_name = Stripe, signing_secret = [], destination_url = ''http://app'',
     max_retries = 3, max_req_second = 90, is_configured = True, pr_created_at = 0\<rparr>]\<rparr>"

definition failed_write_back :: events_op where
  "failed_write_back = WriteBack WorkerKindQueue \<lparr>we_fault = NoFault, we_now = 120, we_timestamp = (\<lambda>t. t)\<rparr>
     [\<lparr>uw_id = 2, uw_prov_name = Stripe, uw_next_retry_at = Some 150, uw_delivery_status = ''failed'', uw_response_code = Some 503,
       uw_last_error = None, uw_forwarded_to = Some ''http://app''\<rparr>]"



definition sample_write :: write_env where
  "sample_write = \<lparr>we_fault = NoFault, we_now = 200, we_timestamp = (\<lambda>t. t)\<rparr>"

definition sample_update :: "uuid \<Rightarrow> string \<Rightarrow> update_webhook" where
  "sample_update i st = \<lparr>uw_id = i, uw_prov_name = Stripe, uw_next_retry_at = None, uw_delivery_status = st,
     uw_response_code = Some 200, uw_last_error = None, uw_forwarded_to = Some ''http://new''\<rparr>"


text \<open>
  C38. One update with a status that is not in the enum undoes its whole batch: the database is as
  before, whatever the other updates say.
\<close>

theorem invalid_status_undoes_batch:
  assumes "u \<in> set us" and "enum_in (uw_delivery_status u) = None"
  shows "snd (UpdateEvents k we us d) = d \<and> \<not> is_ok (fst (UpdateEvents k we us d))"
proof -
  have "\<not> is_ok (fst (run_batch k we us d))" using assms(1)
  proof (induction us arbitrary: d)
    case (Cons v vs)
    obtain r d1 where v: "update_stmt k we v d = (r, d1)" by fastforce
    show ?case
    proof (cases "v = u")
      case True
      then show ?thesis using v assms(2) by (auto simp: update_stmt_def)
    next
      case False
      then have "\<not> is_ok (fst (run_batch k we vs d1))" using Cons by simp
      then show ?thesis using v by (cases r) (auto split: prod.splits res.splits)
    qed
  qed simp
  then have "snd (batch_stmt k we us d) = d \<and> \<not> is_ok (fst (batch_stmt k we us d))"
    by (auto simp: batch_stmt_def split: prod.splits res.splits)
  moreover have "us \<noteq> []" using assms(1) by auto
  ultimately show ?thesis by (cases "we_fault we") (auto simp: UpdateEvents_def call_def)
qed

theorem invalid_status_undoes_batch_witness:
  "snd (UpdateEvents WorkerKindQueue sample_write [sample_update 2 ''delivered'', sample_update 1 []] sample_rows) = sample_rows"
  using invalid_status_undoes_batch [of "sample_update 1 []" "[sample_update 2 ''delivered'', sample_update 1 []]" WorkerKindQueue sample_write sample_rows]
  by (simp add: sample_update_def)

text \<open>
  C37. An event in status retrying is never claimed again, by any kind of worker at any time: if the
  retry worker that claimed it does not write its outcome back, no worker forwards it any more.
\<close>

theorem retrying_never_claimed:
  assumes "GetEvents bs k ce d = (Ok hooks, d')" and "distinct (map wh_id (webhook_events d))"
    and "w \<in> set (webhook_events d)" and "status w = Retrying"
  shows "wh_id w \<notin> wh_id ` set hooks \<and> w \<in> set (webhook_events d')"
proof -
  have s: "claim_stmt bs k (cl_locked ce) (cl_now ce) d = (Ok hooks, d')" using assms(1) by (simp add: GetEvents_Ok)
  have "\<not> claimable k (cl_now ce) d w" using assms(4) by (cases k) (auto simp: stale_def)
  then have "wh_id w \<notin> set (claim_ids bs k (cl_locked ce) (cl_now ce) d)"
    using distinct_map_eq [OF assms(2)] assms(3) by (auto dest!: claim_ids_subset)
  then show ?thesis
    using claim_taken(3) [OF s] assms(3) by (auto simp: claim_stmt_rows(3) [OF s] in_update_where)
qed

theorem retrying_never_claimed_witness:
  "case GetEvents default_batches WorkerKindRetry (sample_claim\<lparr>cl_now := 10 ^ 20\<rparr>)
       (sample_rows\<lparr>webhook_events := [sample_row 5 Retrying 0]\<rparr>) of (r, d') \<Rightarrow>
     r = Ok [] \<and> sample_row 5 Retrying 0 \<in> set (webhook_events d')"
proof -
  let ?d = "sample_rows\<lparr>webhook_events := [sample_row 5 Retrying 0]\<rparr>"
  have g: "GetEvents default_batches WorkerKindRetry (sample_claim\<lparr>cl_now := 10 ^ 20\<rparr>) ?d = (Ok [], ?d)" by code_simp
  show ?thesis
    using retrying_never_claimed [OF g, of "sample_row 5 Retrying 0"] unfolding g by (simp add: sample_row_def)
qed

text \<open>
  C30. A cleanup that meets no fault removes exactly the events received more than seven days ago and
  then, if more than 500000 remain, the oldest of these: afterwards at most 500000 are left, all of
  the last seven days, every event removed by the second step is no younger than any kept, and the
  rows that are kept are unchanged.
\<close>

theorem cleanup_keeps_newest:
  assumes "cu_purge cu = NoFault" and "cu_count cu = NoFault" and "cu_evict cu = NoFault"
    and "distinct (map wh_id (webhook_events d))"
  shows "length (webhook_events (runCleanup cu d)) \<le> 500000 \<and>
    (\<forall>w \<in> set (webhook_events (runCleanup cu d)). w \<in> set (webhook_events d) \<and> cu_now cu - days 7 \<le> received_at w) \<and>
    (\<forall>v \<in> set (webhook_events d). v \<notin> set (webhook_events (runCleanup cu d)) \<longrightarrow>
       received_at v < cu_now cu - days 7 \<or>
       length (webhook_events (runCleanup cu d)) = 500000 \<and>
       (\<forall>w \<in> set (webhook_events (runCleanup cu d)). received_at v \<le> received_at w))"
proof -
  let ?rows = "filter (\<lambda>w. \<not> received_at w < cu_now cu - days 7) (webhook_events d)"
  let ?n = "length ?rows - maxRows"
  let ?old = "first_by received_at ?n ?rows"
  have dist: "distinct (map wh_id ?rows)" using assms(4) by (rule distinct_map_filter)
  have run: "webhook_events (runCleanup cu d) =
      (if length ?rows \<le> maxRows then ?rows else filter (\<lambda>w. wh_id w \<notin> wh_id ` set ?old) ?rows)"
    using assms(1-3) by (simp add: runCleanup_def purge_stmt_def evict_stmt_def Let_def)
  show ?thesis
  proof (cases "length ?rows \<le> maxRows")
    case True
    then show ?thesis unfolding run by (auto simp: maxRows_def)
  next
    case False
    have keep: "filter (\<lambda>w. wh_id w \<notin> wh_id ` set ?old) ?rows = filter (\<lambda>w. w \<notin> set ?old) ?rows"
      using evicted_rows(1) [OF dist] .
    have "length (filter (\<lambda>w. w \<notin> set ?old) ?rows) = maxRows"
      using evicted_rows(2) [OF dist, of received_at ?n] False by simp
    moreover have "received_at v \<le> received_at w" if "v \<in> set ?old" "w \<in> set ?rows" "w \<notin> set ?old" for v w
      using first_by_least [OF that] .
    ultimately show ?thesis using False unfolding run keep by (auto simp: maxRows_def)
  qed
qed

theorem cleanup_keeps_newest_witness:
  "length (webhook_events (runCleanup \<lparr>cu_purge = NoFault, cu_count = NoFault, cu_evict = NoFault, cu_now = days 7 + 15\<rparr> sample_rows)) \<le> 500000"
  using cleanup_keeps_newest [of "\<lparr>cu_purge = NoFault, cu_count = NoFault, cu_evict = NoFault, cu_now = days 7 + 15\<rparr>" sample_rows]
  by (simp add: sample_rows_def sample_row_def)

end
