(* ===== verification/GoTime.thy ===== *)
theory GoTime
  imports GoStd "HOL-Library.Monad_Syntax"
begin

text \<open>
  What the program uses of Go's package \<^verbatim>\<open>time\<close> to turn a point in time into text and back: the
  Gregorian calendar, \<^verbatim>\<open>Time.Format(time.RFC3339)\<close>, and \<^verbatim>\<open>Time.MarshalJSON\<close> and \<^verbatim>\<open>Time.UnmarshalJSON\<close>,
  which use \<^verbatim>\<open>time.RFC3339Nano\<close>. A point in time counts nanoseconds from 1 January 1970, UTC.
\<close>

section \<open>The calendar\<close>

definition leap :: "int \<Rightarrow> bool" where
  "leap y \<longleftrightarrow> y mod 4 = 0 \<and> (y mod 100 \<noteq> 0 \<or> y mod 400 = 0)"

definition days_before_year :: "int \<Rightarrow> int" where
  "days_before_year y = 365 * (y - 1) + (y - 1) div 4 - (y - 1) div 100 + (y - 1) div 400"

definition year_days :: "int \<Rightarrow> int" where
  "year_days y = (if leap y then 366 else 365)"

lemma leap_arith:
  fixes a b c :: int
  assumes "a = a' + (if p then 1 else 0)" and "b = b' + (if q then 1 else 0)" and "c = c' + (if r then 1 else 0)"
    and "r \<Longrightarrow> q" and "q \<Longrightarrow> p"
  shows "365 * y + a - b + c = 365 * (y - 1) + a' - b' + c' + (if p \<and> (\<not> q \<or> r) then 366 else 365)"
  using assms by auto

lemma days_before_next_year: "days_before_year (y + 1) = days_before_year y + year_days y"
proof -
  have nxt: "y div k = (y - 1) div k + (if y mod k = 0 then 1 else 0)" if "0 < k" for k
  proof (cases "y mod k = 0")
    case True
    then obtain q where "y = k * q" by (auto simp: mod_eq_0_iff_dvd dvd_def)
    moreover have "(k * q - 1) div k = q - 1" using that by (intro int_div_pos_eq [of _ _ _ "k - 1"]) (auto simp: algebra_simps)
    ultimately show ?thesis using that by simp
  next
    case False
    moreover have "0 \<le> y mod k" "y mod k < k" using that by simp_all
    ultimately have "0 \<le> y mod k - 1" "y mod k - 1 < k" by linarith+
    moreover have "y - 1 = k * (y div k) + (y mod k - 1)" by (simp add: mult_div_mod_eq)
    ultimately have "(y - 1) div k = y div k" by (intro int_div_pos_eq)
    then show ?thesis using False by simp
  qed
  have "365 * y + y div 4 - y div 100 + y div 400 =
      365 * (y - 1) + (y - 1) div 4 - (y - 1) div 100 + (y - 1) div 400 + (if y mod 4 = 0 \<and> (y mod 100 \<noteq> 0 \<or> y mod 400 = 0) then 366 else 365)"
  proof (rule leap_arith)
    show "y div 4 = (y - 1) div 4 + (if y mod 4 = 0 then 1 else 0)" by (rule nxt) simp
    show "y div 100 = (y - 1) div 100 + (if y mod 100 = 0 then 1 else 0)" by (rule nxt) simp
    show "y div 400 = (y - 1) div 400 + (if y mod 400 = 0 then 1 else 0)" by (rule nxt) simp
    show "y mod 400 = 0 \<Longrightarrow> y mod 100 = 0" by presburger
    show "y mod 100 = 0 \<Longrightarrow> y mod 4 = 0" by presburger
  qed
  then show ?thesis by (simp only: days_before_year_def year_days_def leap_def add_diff_cancel_right')
qed

text \<open>The year of a day counted from 1 January of year 1: an estimate that is at most one too small.\<close>

definition year_of :: "int \<Rightarrow> int" where
  "year_of d = (let y = 400 * d div 146097 + 1 in if days_before_year (y + 1) \<le> d then y + 1 else y)"

lemma int_div_bounds: "0 < (k :: int) \<Longrightarrow> k * (x div k) \<le> x \<and> x < k * (x div k) + k"
  by (metis mult_div_mod_eq pos_mod_bound pos_mod_sign add_increasing2 add_less_cancel_left order_refl)

lemma days_before_year_bounds:
  "146097 * (y - 1) - 699 \<le> 400 * days_before_year y" "400 * days_before_year y \<le> 146097 * (y - 1) + 396"
  using int_div_bounds [of 4 "y - 1"] int_div_bounds [of 100 "y - 1"] int_div_bounds [of 400 "y - 1"]
  unfolding days_before_year_def by simp_all

lemma year_of_bounds: "days_before_year (year_of d) \<le> d \<and> d < days_before_year (year_of d + 1)"
proof -
  define y where "y = 400 * d div 146097 + 1"
  have e: "146097 * (y - 1) \<le> 400 * d" "400 * d < 146097 * y" using int_div_bounds [of 146097 "400 * d"] by (simp_all add: y_def)
  have "days_before_year y \<le> d" using days_before_year_bounds(2) [of y] e(1) by linarith
  moreover have "d \<le> days_before_year (y + 1) + 1" using days_before_year_bounds(1) [of "y + 1"] e(2) by simp
  moreover have "days_before_year (y + 1) + 365 \<le> days_before_year (y + 2)"
    using days_before_next_year [of "y + 1"] by (simp add: year_days_def add.commute split: if_splits)
  ultimately show ?thesis unfolding year_of_def y_def [symmetric] by (simp add: Let_def add.commute)
qed

definition month_lengths :: "int \<Rightarrow> int list" where
  "month_lengths y = [31, if leap y then 29 else 28, 31, 30, 31, 30, 31, 31, 30, 31, 30, 31]"

lemma sum_month_lengths [simp]: "sum_list (month_lengths y) = year_days y"
  by (simp add: month_lengths_def year_days_def)

text \<open>Month and day of the month of a day counted within the year from zero.\<close>

fun split_days :: "int list \<Rightarrow> int \<Rightarrow> nat \<times> int" where
  "split_days [] d = (1, d + 1)"
| "split_days (n # ns) d = (if d < n then (1, d + 1) else let (m, k) = split_days ns (d - n) in (Suc m, k))"

lemma split_days_sum:
  assumes "split_days ns d = (m, k)" and "0 \<le> d" and "d < sum_list ns"
  shows "1 \<le> m \<and> m \<le> length ns \<and> 1 \<le> k \<and> k \<le> ns ! (m - 1) \<and> sum_list (take (m - 1) ns) + k - 1 = d"
  using assms
proof (induction ns d arbitrary: m rule: split_days.induct)
  case (2 n ns d)
  show ?case
  proof (cases "d < n")
    case False
    then obtain m' where m: "split_days ns (d - n) = (m', k)" "m = Suc m'"
      using "2.prems"(1) by (auto split: prod.splits)
    from "2.IH" [OF False m(1)] False "2.prems" show ?thesis by (cases m') (auto simp: m(2))
  qed (use 2 in auto)
qed simp

text \<open>From a date to the number of the day, and back.\<close>

definition day_number :: "int \<Rightarrow> nat \<Rightarrow> int \<Rightarrow> int" where
  "day_number y m k = days_before_year y + sum_list (take (m - 1) (month_lengths y)) + k - 1"

definition civil :: "int \<Rightarrow> int \<times> nat \<times> int" where
  "civil d = (let y = year_of d in (y, split_days (month_lengths y) (d - days_before_year y)))"

definition date_ok :: "int \<Rightarrow> nat \<Rightarrow> int \<Rightarrow> bool" where
  "date_ok y m k \<longleftrightarrow> 1 \<le> m \<and> m \<le> 12 \<and> 1 \<le> k \<and> k \<le> month_lengths y ! (m - 1)"

lemma day_number_civil:
  assumes "civil d = (y, m, k)"
  shows "day_number y m k = d \<and> date_ok y m k"
proof -
  have y: "y = year_of d" and s: "split_days (month_lengths y) (d - days_before_year y) = (m, k)"
    using assms by (auto simp: civil_def Let_def)
  have "0 \<le> d - days_before_year y" "d - days_before_year y < sum_list (month_lengths y)"
    using year_of_bounds [of d] by (auto simp: y days_before_next_year)
  from split_days_sum [OF s this] show ?thesis
    by (auto simp: day_number_def date_ok_def month_lengths_def)
qed

lemma date_ok_day: "date_ok y m k \<Longrightarrow> 1 \<le> k \<and> k \<le> 31"
  by (auto simp: date_ok_def month_lengths_def nth_Cons' split: if_splits)

section \<open>Numbers of fixed width\<close>

fun pad_num :: "nat \<Rightarrow> nat \<Rightarrow> string" where
  "pad_num 0 n = []"
| "pad_num (Suc k) n = pad_num k (n div 10) @ [byte (48 + n mod 10)]"

definition read_num :: "nat \<Rightarrow> string \<Rightarrow> (nat \<times> string) option" where
  "read_num k s =
     (let ds = take k s in if length ds = k \<and> list_all is_digit ds then Some (nat (digits_value ds), drop k s) else None)"

lemma code_digit [simp]: "d < 10 \<Longrightarrow> code (byte (48 + d)) = 48 + d"
  by (simp add: of_char_of)

lemma length_pad_num [simp]: "length (pad_num k n) = k"
  by (induction k n rule: pad_num.induct) simp_all

lemma digits_pad_num: "list_all is_digit (pad_num k n)"
  by (induction k n rule: pad_num.induct) (auto simp: is_digit_def)

lemma digits_value_snoc: "digits_value (ds @ [c]) = 10 * digits_value ds + (int (code c) - 48)"
  by (simp add: digits_value_def)

lemma digits_value_pad_num: "n < 10 ^ k \<Longrightarrow> digits_value (pad_num k n) = int n"
proof (induction k n rule: pad_num.induct)
  case (2 k n)
  then have "digits_value (pad_num k (n div 10)) = int (n div 10)" by (intro "2.IH") (auto intro!: div_less_iff_less_mult [THEN iffD2])
  then show ?case by (simp add: digits_value_snoc) presburger
qed (simp add: digits_value_def)

lemma read_pad_num [simp]: "n < 10 ^ k \<Longrightarrow> read_num k (pad_num k n @ rest) = Some (n, rest)"
  by (simp add: read_num_def digits_pad_num digits_value_pad_num)

text \<open>The fraction of a second, without zeros at its end.\<close>

definition trim_zeros :: "string \<Rightarrow> string" where
  "trim_zeros s = rev (dropWhile (\<lambda>c. c = CHR ''0'') (rev s))"

lemma trim_zeros_pad: "take (length s) (trim_zeros s @ replicate (length s) (CHR ''0'')) = s"
proof -
  let ?z = "takeWhile (\<lambda>c. c = CHR ''0'') (rev s)"
  have z: "?z = replicate (length ?z) (CHR ''0'')" by (rule replicate_eqI) (auto dest: set_takeWhileD)
  have "rev s = ?z @ dropWhile (\<lambda>c. c = CHR ''0'') (rev s)" by simp
  then have "s = trim_zeros s @ rev ?z" unfolding trim_zeros_def by (metis rev_append rev_rev_ident)
  also have "rev ?z = replicate (length ?z) (CHR ''0'')" using arg_cong [OF z, of rev] by (simp only: rev_replicate)
  finally have s: "s = trim_zeros s @ replicate (length ?z) (CHR ''0'')" .
  then have "length s = length (trim_zeros s) + length ?z" by (metis length_append length_replicate)
  then show ?thesis using s by (simp add: min_def)
qed

lemma digits_trim_zeros: "list_all is_digit s \<Longrightarrow> list_all is_digit (trim_zeros s)"
  by (auto simp: trim_zeros_def list_all_iff dest: set_dropWhileD)

section \<open>RFC 3339\<close>

text \<open>A zone is its offset from UTC in seconds; only whole minutes of it are written.\<close>

definition year_text :: "int \<Rightarrow> string" where
  "year_text y =
     (let n = nat \<bar>y\<bar>; ds = (if n < 10000 then pad_num 4 n else digits n) in if y < 0 then CHR ''-'' # ds else ds)"

definition zone_text :: "int \<Rightarrow> string" where
  "zone_text off =
     (if off = 0 then ''Z''
      else let m = nat \<bar>off\<bar> div 60
        in (if off < 0 then CHR ''-'' else CHR ''+'') # pad_num 2 (m div 60) @ '':'' @ pad_num 2 (m mod 60))"

definition fraction_text :: "nat \<Rightarrow> string" where
  "fraction_text ns = (if ns = 0 then [] else CHR ''.'' # trim_zeros (pad_num 9 ns))"

text \<open>Day 719162 after 1 January of year 1 is 1 January 1970. \<open>nano\<close>: the layout has the fraction.\<close>

definition format_time :: "bool \<Rightarrow> int \<Rightarrow> time \<Rightarrow> string" where
  "format_time nano off t =
     (let u = t + off * second; secs = u div second; sod = nat (secs mod 86400);
          (y, m, k) = civil (secs div 86400 + 719162)
      in year_text y @ ''-'' @ pad_num 2 m @ ''-'' @ pad_num 2 (nat k) @ ''T'' @
         pad_num 2 (sod div 3600) @ '':'' @ pad_num 2 (sod div 60 mod 60) @ '':'' @ pad_num 2 (sod mod 60) @
         (if nano then fraction_text (nat (u mod second)) else []) @ zone_text off)"

definition year_in :: "int \<Rightarrow> time \<Rightarrow> int" where
  "year_in off t = fst (civil ((t + off * second) div second div 86400 + 719162))"

text \<open>\<^verbatim>\<open>Time.MarshalJSON\<close> refuses years that RFC 3339 cannot write, and zones of a day or more.\<close>

definition marshal_time :: "int \<Rightarrow> time \<Rightarrow> string option" where
  "marshal_time off t =
     (if 0 \<le> year_in off t \<and> year_in off t \<le> 9999 \<and> \<bar>off\<bar> < 86400 then Some (format_time True off t) else None)"

definition expect :: "char \<Rightarrow> string \<Rightarrow> string option" where
  "expect c s = (case s of x # r \<Rightarrow> if x = c then Some r else None | [] \<Rightarrow> None)"

definition read_fraction :: "string \<Rightarrow> nat \<times> string" where
  "read_fraction s =
     (case s of
        c # d # r \<Rightarrow>
          (if c = CHR ''.'' \<and> is_digit d
           then let ds = takeWhile is_digit (d # r)
             in (nat (digits_value (take 9 (ds @ replicate 9 (CHR ''0'')))), dropWhile is_digit (d # r))
           else (0, s))
      | _ \<Rightarrow> (0, s))"

definition read_zone :: "string \<Rightarrow> int option" where
  "read_zone s =
     (if s = ''Z'' then Some 0
      else case s of
        c # r \<Rightarrow>
          (if c = CHR ''+'' \<or> c = CHR ''-'' then do {
             (h, r) \<leftarrow> read_num 2 r; r \<leftarrow> expect (CHR '':'') r; (m, r) \<leftarrow> read_num 2 r;
             if h \<le> 23 \<and> m \<le> 59 \<and> r = []
             then Some ((if c = CHR ''-'' then -1 else 1) * int ((h * 60 + m) * 60)) else None }
           else None)
      | [] \<Rightarrow> None)"

text \<open>
  \<^verbatim>\<open>parseRFC3339\<close>, which \<^verbatim>\<open>UnmarshalJSON\<close> tries first and which accepts all that \<^verbatim>\<open>MarshalJSON\<close> writes.
\<close>

definition parse_time :: "string \<Rightarrow> time option" where
  "parse_time s = do {
     (y, s) \<leftarrow> read_num 4 s; s \<leftarrow> expect (CHR ''-'') s;
     (m, s) \<leftarrow> read_num 2 s; s \<leftarrow> expect (CHR ''-'') s;
     (k, s) \<leftarrow> read_num 2 s; s \<leftarrow> expect (CHR ''T'') s;
     (hr, s) \<leftarrow> read_num 2 s; s \<leftarrow> expect (CHR '':'') s;
     (mi, s) \<leftarrow> read_num 2 s; s \<leftarrow> expect (CHR '':'') s;
     (sec, s) \<leftarrow> read_num 2 s;
     let (ns, s) = read_fraction s;
     off \<leftarrow> read_zone s;
     if date_ok (int y) m (int k) \<and> hr \<le> 23 \<and> mi \<le> 59 \<and> sec \<le> 59
     then Some (((day_number (int y) m (int k) - 719162) * 86400 + int (hr * 3600 + mi * 60 + sec) - off) * second + int ns)
     else None }"

lemma expect_Cons [simp]: "expect c (c # s) = Some s"
  by (simp add: expect_def)

lemma read_fraction_text:
  assumes "ns < 10 ^ 9" and "\<not> is_digit c" and "c \<noteq> CHR ''.''"
  shows "read_fraction (fraction_text ns @ c # rest) = (ns, c # rest)"
proof (cases "ns = 0")
  case True
  then show ?thesis using assms(3) by (cases rest) (auto simp: fraction_text_def read_fraction_def)
next
  case False
  define ds where "ds = trim_zeros (pad_num 9 ns)"
  have pad: "take 9 (ds @ replicate 9 (CHR ''0'')) = pad_num 9 ns"
    using trim_zeros_pad [of "pad_num 9 ns"] by (simp only: ds_def length_pad_num)
  have "ds \<noteq> []"
  proof
    assume "ds = []"
    then have "digits_value (pad_num 9 ns) = digits_value (replicate 9 (CHR ''0''))" using pad by simp
    also have "\<dots> = 0" by code_simp
    finally show False using False assms(1) by (simp add: digits_value_pad_num del: pad_num.simps)
  qed
  then obtain d ds' where d: "ds = d # ds'" by (cases ds) auto
  have all: "list_all is_digit ds" unfolding ds_def by (intro digits_trim_zeros digits_pad_num)
  have "takeWhile is_digit (ds @ c # rest) = ds" "dropWhile is_digit (ds @ c # rest) = c # rest"
    using all assms(2) by (simp_all add: list_all_iff)
  moreover have "is_digit d" using all by (simp add: d)
  ultimately show ?thesis
    using False pad digits_value_pad_num [OF assms(1)]
    unfolding fraction_text_def ds_def [symmetric] by (simp add: read_fraction_def d Let_def del: pad_num.simps)
qed

lemma read_zone_text:
  assumes "60 dvd off" and "\<bar>off\<bar> < 86400"
  shows "read_zone (zone_text off) = Some off"
proof (cases "off = 0")
  case True
  then show ?thesis by (simp add: zone_text_def read_zone_def)
next
  case False
  define m where "m = nat \<bar>off\<bar> div 60"
  have off: "int m * 60 = \<bar>off\<bar>" using assms(1) by (simp add: m_def zdiv_int dvd_div_mult_self)
  then have "m < 1440" using assms(2) by linarith
  then have "m div 60 < 10 ^ 2" "m mod 60 < 10 ^ 2" "m div 60 \<le> 23" "m mod 60 \<le> 59" by (simp_all add: less_mult_imp_div_less div_le_mono)
  moreover have "(m div 60 * 60 + m mod 60) * 60 = m * 60" by simp
  ultimately show ?thesis
    using False off read_pad_num [of "m mod 60" 2 "[]"]
    by (auto simp: zone_text_def read_zone_def m_def [symmetric] Let_def simp del: pad_num.simps)
qed

lemma zone_text_start: "\<exists>c r. zone_text off = c # r \<and> \<not> is_digit c \<and> c \<noteq> CHR ''.''"
  by (auto simp: zone_text_def is_digit_def Let_def)

lemma clock_parts: "sod < (86400 :: nat) \<Longrightarrow> sod div 3600 \<le> 23 \<and> sod div 60 mod 60 \<le> 59 \<and> sod mod 60 \<le> 59 \<and>
    sod div 3600 * 3600 + sod div 60 mod 60 * 60 + sod mod 60 = sod"
proof -
  assume "sod < 86400"
  moreover have "sod div 3600 = sod div 60 div 60" by (simp add: div_mult2_eq [of sod 60 60, simplified])
  moreover have "sod div 60 div 60 * 60 + sod div 60 mod 60 = sod div 60" "sod div 60 * 60 + sod mod 60 = sod" by simp_all
  then have "sod div 60 div 60 * 3600 + sod div 60 mod 60 * 60 + sod mod 60 = sod" by linarith
  ultimately show ?thesis by (auto simp: less_Suc_eq_le [symmetric] less_mult_imp_div_less)
qed

text \<open>What \<^verbatim>\<open>MarshalJSON\<close> writes in any zone of whole minutes is read back as the same point in time.\<close>

lemma parse_marshal_time:
  assumes "marshal_time off t = Some s" and "60 dvd off"
  shows "parse_time s = Some t"
proof -
  define u where "u = t + off * second"
  define sod where "sod = nat (u div second mod 86400)"
  obtain y m k where c: "civil (u div second div 86400 + 719162) = (y, m, k)" by (metis prod_cases3)
  have y: "0 \<le> y" "y \<le> 9999" and off: "\<bar>off\<bar> < 86400" and s: "s = format_time True off t"
    using assms(1) c by (auto simp: marshal_time_def year_in_def u_def split: if_splits)
  note day = day_number_civil [OF c]
  have ok: "date_ok y m k" using day by simp
  have mk: "m < 10 ^ 2" "nat k < 10 ^ 2" "0 \<le> k" using date_ok_day [OF ok] ok by (auto simp: date_ok_def)
  have "sod < 86400" by (simp add: sod_def nat_less_iff)
  note parts = clock_parts [OF this]
  have ns: "nat (u mod second) < 10 ^ 9" by (simp add: nat_less_iff)
  obtain z r where z: "zone_text off = z # r" "\<not> is_digit z" "z \<noteq> CHR ''.''" using zone_text_start by blast
  have yt: "year_text y = pad_num 4 (nat y)" "nat y < 10 ^ 4" using y by (auto simp: year_text_def Let_def)
  have f: "s = pad_num 4 (nat y) @ ''-'' @ pad_num 2 m @ ''-'' @ pad_num 2 (nat k) @ ''T'' @
      pad_num 2 (sod div 3600) @ '':'' @ pad_num 2 (sod div 60 mod 60) @ '':'' @ pad_num 2 (sod mod 60) @
      fraction_text (nat (u mod second)) @ zone_text off"
    unfolding s format_time_def Let_def u_def [symmetric] sod_def [symmetric] c by (simp add: yt)
  have "parse_time s = Some (((day_number y m k - 719162) * 86400 + int sod - off) * second + int (nat (u mod second)))"
    unfolding f parse_time_def
    using ok parts mk y read_zone_text [OF assms(2) off] read_fraction_text [OF ns z(2,3), of r] yt(2)
    by (simp add: z(1) del: pad_num.simps)
  also have "int sod = u div second mod 86400" by (simp add: sod_def)
  also have "day_number y m k - 719162 = u div second div 86400" using day by simp
  finally show ?thesis by (simp add: u_def algebra_simps)
qed

end
