(* ===== verification/Health.thy ===== *)
theory Health
  imports Http WorkerRepo Pool GoTime
begin

text \<open>
  \<^verbatim>\<open>internal/health/{resources,health}.go\<close> and \<^verbatim>\<open>internal/api/handler/health.go\<close>: the sizes that the
  program computes from the number of CPUs, and the health check.
\<close>

section \<open>Resources\<close>

text \<open>The constants of \<open>resources.go\<close>.\<close>

definition dbConnsPerCPU :: int where "dbConnsPerCPU = 2"
definition minDBConns :: int where "minDBConns = 10"
definition minReservedConns :: int where "minReservedConns = 4"
definition minWorkerBudget :: int where "minWorkerBudget = 4"
definition minQueueWorkers :: int where "minQueueWorkers = 2"
definition minRetryWorkers :: int where "minRetryWorkers = 1"
definition queueWorkerShareNum :: int where "queueWorkerShareNum = 2"
definition queueWorkerShareDen :: int where "queueWorkerShareDen = 3"
definition queueBatchPerCPU :: int where "queueBatchPerCPU = 6"
definition retryBatchPerCPU :: int where "retryBatchPerCPU = 3"
definition minQueueBatch :: int where "minQueueBatch = 20"
definition maxQueueBatch :: int where "maxQueueBatch = 100"
definition minRetryBatch :: int where "minRetryBatch = 10"
definition maxRetryBatch :: int where "maxRetryBatch = 50"

lemmas resource_constants = dbConnsPerCPU_def minDBConns_def minReservedConns_def minWorkerBudget_def
  minQueueWorkers_def minRetryWorkers_def queueWorkerShareNum_def queueWorkerShareDen_def queueBatchPerCPU_def
  retryBatchPerCPU_def minQueueBatch_def maxQueueBatch_def minRetryBatch_def maxRetryBatch_def

record resources =
  QueueWorkers :: int
  RetryWorkers :: int
  QueueBatch :: int
  RetryBatch :: int
  DBMaxConns :: int

definition clamp :: "int \<Rightarrow> int \<Rightarrow> int \<Rightarrow> int" where
  "clamp val lo hi = (if val < lo then lo else if val > hi then hi else val)"

text \<open>Go's division truncates; all operands here are non-negative unless the arithmetic has wrapped.\<close>

definition go_div :: "int \<Rightarrow> int \<Rightarrow> int" where
  "go_div a b = sgn a * sgn b * (\<bar>a\<bar> div \<bar>b\<bar>)"

definition ComputeResources :: "int \<Rightarrow> resources" where
  "ComputeResources numCPU =
     (let dbMaxConns = max (wrap64 (numCPU * dbConnsPerCPU)) minDBConns;
          budget = max (wrap64 (dbMaxConns - minReservedConns)) minWorkerBudget;
          queueWorkers = max minQueueWorkers (go_div (wrap64 (budget * queueWorkerShareNum)) queueWorkerShareDen);
          retryWorkers = max minRetryWorkers (wrap64 (budget - queueWorkers));
          queueBatch = clamp (wrap64 (numCPU * queueBatchPerCPU)) minQueueBatch maxQueueBatch;
          retryBatch = clamp (wrap64 (numCPU * retryBatchPerCPU)) minRetryBatch maxRetryBatch
      in \<lparr>QueueWorkers = queueWorkers, RetryWorkers = retryWorkers, QueueBatch = queueBatch,
          RetryBatch = retryBatch, DBMaxConns = dbMaxConns\<rparr>)"

section \<open>The health check\<close>

definition HEALTHY :: string where "HEALTHY = ''healthy''"
definition UNHEALTHY :: string where "UNHEALTHY = ''unhealthy''"

definition bytesPerMB :: nat where
  "bytesPerMB = 1024 * 1024"

record dependency_check =
  dc_status :: string
  dc_latency_ms :: int

record resource_stats =
  AllocMB :: "64 word"
  TotalAllocMB :: "64 word"
  SysMB :: "64 word"
  NumGoroutine :: "64 word"
  NumGC :: "64 word"
  DiskFreeMB :: "64 word"

record health_check =
  hc_status :: string
  hc_uptime :: int
  hc_version :: string
  hc_timestamp :: string
  hc_checks :: "(string \<times> dependency_check) list"
  hc_resources :: resource_stats

text \<open>What one ping does: its error, if any, and the clock around it.\<close>

record ping =
  pg_error :: "driver_error option"
  pg_start :: time
  pg_end :: time

definition milliseconds :: "int \<Rightarrow> int" where
  "milliseconds n = go_div n 1000000"

definition checkRedis :: "ping \<Rightarrow> dependency_check" where
  "checkRedis p = \<lparr>dc_status = (if pg_error p \<noteq> None then UNHEALTHY else HEALTHY),
     dc_latency_ms = milliseconds (pg_end p - pg_start p)\<rparr>"

definition checkDB :: "ping \<Rightarrow> dependency_check" where
  "checkDB p = \<lparr>dc_status = (if pg_error p \<noteq> None then UNHEALTHY else HEALTHY),
     dc_latency_ms = milliseconds (pg_end p - pg_start p)\<rparr>"

text \<open>
  The uptime goes through a \<^verbatim>\<open>float64\<close> number of seconds; the conversion back truncates. \<open>rnd\<close> is the
  rounding of the division, which is exact on whole seconds.
\<close>

definition getUpTime :: "(int \<Rightarrow> real) \<Rightarrow> time \<Rightarrow> time \<Rightarrow> int" where
  "getUpTime rnd started now =
     (let x = rnd (now - started) in if 0 \<le> x then \<lfloor>x\<rfloor> else \<lceil>x\<rceil>)"

text \<open>The layout is RFC 3339 without a fraction, in UTC.\<close>

definition getTimeStamp :: "time \<Rightarrow> string" where
  "getTimeStamp now = format_time False 0 now"

text \<open>The build settings of the binary; there are none when the build information is missing.\<close>

definition getVersion :: "(string \<times> string) list option \<Rightarrow> string" where
  "getVersion info = (case info of
      None \<Rightarrow> ''unknown''
    | Some settings \<Rightarrow> (case map_of settings ''vcs.revision'' of Some v \<Rightarrow> v | None \<Rightarrow> ''unknown''))"

text \<open>What the runtime and the file system report.\<close>

record machine =
  ms_alloc :: "64 word"
  ms_total_alloc :: "64 word"
  ms_sys :: "64 word"
  ms_goroutines :: "64 word"
  ms_num_gc :: "32 word"
  fs_stat :: "(64 word \<times> 64 word) option"

definition getResources :: "machine \<Rightarrow> resource_stats" where
  "getResources m =
     \<lparr>AllocMB = ms_alloc m div of_nat bytesPerMB, TotalAllocMB = ms_total_alloc m div of_nat bytesPerMB,
      SysMB = ms_sys m div of_nat bytesPerMB, NumGoroutine = ms_goroutines m, NumGC = ucast (ms_num_gc m),
      DiskFreeMB = (case fs_stat m of None \<Rightarrow> 0 | Some (bavail, bsize) \<Rightarrow> bavail * bsize div of_nat bytesPerMB)\<rparr>"

record health_env =
  he_rounding :: "int \<Rightarrow> real"
  he_started :: time
  he_now :: time
  he_build :: "(string \<times> string) list option"
  he_stamp :: time
  he_db :: ping
  he_redis :: ping
  he_redis_first :: bool
  he_machine :: machine

text \<open>A map that two goroutines fill under a lock, in either order.\<close>

definition put_check :: "string \<Rightarrow> dependency_check \<Rightarrow> (string \<times> dependency_check) list \<Rightarrow> (string \<times> dependency_check) list" where
  "put_check k c cs = (k, c) # filter (\<lambda>(k', _). k' \<noteq> k) cs"

definition status_of :: "(string \<times> dependency_check) list \<Rightarrow> string \<Rightarrow> string" where
  "status_of cs k = (case map_of cs k of Some c \<Rightarrow> dc_status c | None \<Rightarrow> [])"

definition GetHealthCheck :: "health_env \<Rightarrow> health_check" where
  "GetHealthCheck he =
     (let db = checkDB (he_db he);
          rds = checkRedis (he_redis he);
          checks = (if he_redis_first he then put_check ''postgres'' db (put_check ''redis'' rds [])
                    else put_check ''redis'' rds (put_check ''postgres'' db []))
      in \<lparr>hc_status = (if status_of checks ''postgres'' \<noteq> HEALTHY \<or> status_of checks ''redis'' \<noteq> HEALTHY then UNHEALTHY else HEALTHY),
          hc_uptime = getUpTime (he_rounding he) (he_started he) (he_now he),
          hc_version = getVersion (he_build he),
          hc_timestamp = getTimeStamp (he_stamp he),
          hc_checks = checks,
          hc_resources = getResources (he_machine he)\<rparr>)"

definition health_handler :: "(health_check \<Rightarrow> bytes option) \<Rightarrow> health_env \<Rightarrow> http_response" where
  "health_handler enc he =
     (let check = GetHealthCheck he in
      case enc check of
        None \<Rightarrow> write_header StatusInternalServerError
      | Some b \<Rightarrow> \<lparr>ht_code = (if hc_status check = HEALTHY then StatusOK else StatusServiceUnavailable),
          ht_cookies = [], ht_body = b\<rparr>)"

section \<open>Properties\<close>

lemma clamp_bounds: "lo \<le> hi \<Longrightarrow> lo \<le> clamp v lo hi \<and> clamp v lo hi \<le> hi"
  by (simp add: clamp_def)

lemma batch_bounds:
  "minQueueBatch \<le> QueueBatch (ComputeResources n) \<and> QueueBatch (ComputeResources n) \<le> maxQueueBatch"
  "minRetryBatch \<le> RetryBatch (ComputeResources n) \<and> RetryBatch (ComputeResources n) \<le> maxRetryBatch"
  unfolding ComputeResources_def Let_def resources.simps
  by (rule clamp_bounds, simp add: resource_constants)+

text \<open>
  C31. On a machine with any realistic number of CPUs the computed worker counts and the reserved
  connections add up to the size of the connection pool; there are at least two queue workers and
  one retry worker; the batch sizes are within their bounds, so the workers' \<open>LIMIT\<close> is positive.
\<close>

theorem resources_fit_pool:
  assumes "0 < n" and "n < 2 ^ 59"
  shows "QueueWorkers (ComputeResources n) + RetryWorkers (ComputeResources n) + minReservedConns = DBMaxConns (ComputeResources n) \<and>
    minQueueWorkers \<le> QueueWorkers (ComputeResources n) \<and> minRetryWorkers \<le> RetryWorkers (ComputeResources n) \<and>
    minDBConns \<le> DBMaxConns (ComputeResources n) \<and>
    minQueueBatch \<le> QueueBatch (ComputeResources n) \<and> QueueBatch (ComputeResources n) \<le> maxQueueBatch \<and>
    minRetryBatch \<le> RetryBatch (ComputeResources n) \<and> RetryBatch (ComputeResources n) \<le> maxRetryBatch"
proof -
  define m where "m = max (n * 2) 10"
  have m: "10 \<le> m" "m < 2 ^ 61" using assms by (simp_all add: m_def)
  then have "0 \<le> m * 2 - 8" by simp
  then have d: "go_div (m * 2 - 8) 3 = (m * 2 - 8) div 3" by (auto simp: go_div_def sgn_if)
  have w: "wrap64 (n * 2) = n * 2" "wrap64 (m - 4) = m - 4" "wrap64 (m * 2 - 8) = m * 2 - 8"
    using assms m by simp_all
  have q: "4 \<le> (m * 2 - 8) div 3" "(m * 2 - 8) div 3 \<le> m - 6" using m by linarith+
  then have "wrap64 (m - 4 - (m * 2 - 8) div 3) = m - 4 - (m * 2 - 8) div 3" 
    using m by (intro wrap64_id) (simp_all add: algebra_simps)
  note r = this
  let ?R = "ComputeResources n"
  have db: "DBMaxConns ?R = m"
    by (simp add: ComputeResources_def Let_def dbConnsPerCPU_def minDBConns_def w(1) m_def)
  have "max (wrap64 (DBMaxConns ?R - minReservedConns)) minWorkerBudget = m - 4"
    unfolding db minReservedConns_def minWorkerBudget_def w(2) using m by simp
  then have qw: "QueueWorkers ?R = max 2 (go_div (wrap64 ((m - 4) * 2)) 3)"
    by (simp add: ComputeResources_def Let_def minQueueWorkers_def queueWorkerShareNum_def queueWorkerShareDen_def)
  then have qw: "QueueWorkers ?R = (m * 2 - 8) div 3" using w(3) d q(1) by (simp add: left_diff_distrib)
  have "RetryWorkers ?R = max 1 (wrap64 (m - 4 - QueueWorkers ?R))"
    using \<open>max (wrap64 (DBMaxConns ?R - minReservedConns)) minWorkerBudget = m - 4\<close>
    by (simp add: ComputeResources_def Let_def minRetryWorkers_def)
  then have rw: "RetryWorkers ?R = m - 4 - (m * 2 - 8) div 3" using r q(2) by (simp add: qw)
  show ?thesis using q m batch_bounds [of n] unfolding db qw rw minReservedConns_def minQueueWorkers_def minRetryWorkers_def minDBConns_def
    by linarith
qed

theorem resources_fit_pool_witness: "QueueWorkers (ComputeResources 8) + RetryWorkers (ComputeResources 8) + 4 = 16"
proof -
  have "minReservedConns = 4" "DBMaxConns (ComputeResources 8) = 16" by code_simp+
  then show ?thesis using resources_fit_pool [of 8] by simp
qed

text \<open>
  The pool of \<^verbatim>\<open>worker/pool.go\<close> does not use these counts: its fixed numbers of queue and retry workers
  exceed the whole connection pool on machines with up to five CPUs.
\<close>

lemma fixed_workers_exceed_pool:
  assumes "0 < n" and "n \<le> 5"
  shows "DBMaxConns (ComputeResources n) < int TotalQueueWorkers + int TotalRetryWorkers"
proof -
  have "DBMaxConns (ComputeResources n) = max (wrap64 (n * 2)) 10"
    by (simp add: ComputeResources_def Let_def dbConnsPerCPU_def minDBConns_def)
  then show ?thesis using assms by (simp add: TotalQueueWorkers_def TotalRetryWorkers_def)
qed

text \<open>The answer of the health endpoint does not depend on which of the two checks finishes first.\<close>

lemma health_iff_dependencies:
  "ht_code (health_handler enc he) = 200 \<longleftrightarrow>
     pg_error (he_db he) = None \<and> pg_error (he_redis he) = None \<and> enc (GetHealthCheck he) \<noteq> None"
  by (auto simp: health_handler_def GetHealthCheck_def Let_def checkDB_def checkRedis_def put_check_def status_of_def
      HEALTHY_def UNHEALTHY_def write_header_def split: option.splits)

end
