(* ===== verification/Config.thy ===== *)
theory Config
  imports Http
begin

text \<open>
  \<^verbatim>\<open>internal/config/{envs,db}.go\<close>: the settings read from the environment, and the connection pool that
  is created once. The environment is a function (\<^verbatim>\<open>os.Getenv\<close> gives the empty string for a name that
  is not set); parsing a log level belongs to zerolog and is an argument.
\<close>

section \<open>Settings\<close>

record 'level config =
  DBType :: string
  DBUser :: string
  DBPassword :: string
  DBHost :: string
  DBPort :: int
  DBName :: string
  RedisURL :: string
  cfg_UserEmail :: string
  cfg_UserPassword :: string
  LogLevel :: 'level
  JWTSecret :: string
  MasterKey :: string
  IsDevelopment :: bool

definition getEnvString :: "(string \<Rightarrow> string) \<Rightarrow> string \<Rightarrow> string res" where
  "getEnvString getenv name = (if getenv name = [] then Panic else Ok (getenv name))"

text \<open>\<^verbatim>\<open>strconv.ParseBool\<close>.\<close>

definition parse_bool :: "string \<Rightarrow> bool option" where
  "parse_bool s =
     (if s \<in> {''1'', ''t'', ''T'', ''true'', ''TRUE'', ''True''} then Some True
      else if s \<in> {''0'', ''f'', ''F'', ''false'', ''FALSE'', ''False''} then Some False
      else None)"

definition getEnvBool :: "(string \<Rightarrow> string) \<Rightarrow> string \<Rightarrow> bool res" where
  "getEnvBool getenv name =
     (if getenv name = [] then Panic else case parse_bool (getenv name) of None \<Rightarrow> Panic | Some b \<Rightarrow> Ok b)"

definition getEnvInt :: "(string \<Rightarrow> string) \<Rightarrow> string \<Rightarrow> int res" where
  "getEnvInt getenv name =
     (if getenv name = [] then Panic else case atoi (getenv name) of None \<Rightarrow> Panic | Some n \<Rightarrow> Ok n)"

definition getEnvLevel :: "(string \<Rightarrow> 'level option) \<Rightarrow> (string \<Rightarrow> string) \<Rightarrow> string \<Rightarrow> 'level res" where
  "getEnvLevel parse_level getenv name =
     (if getenv name = [] then Panic else case parse_level (getenv name) of None \<Rightarrow> Panic | Some l \<Rightarrow> Ok l)"

definition initConfig :: "(string \<Rightarrow> 'level option) \<Rightarrow> (string \<Rightarrow> string) \<Rightarrow> 'level config res" where
  "initConfig parse_level getenv =
     res_bind (getEnvString getenv ''DB_TYPE'') (\<lambda>dbType.
     res_bind (getEnvString getenv ''DB_USER'') (\<lambda>dbUser.
     res_bind (getEnvString getenv ''DB_PASSWORD'') (\<lambda>dbPassword.
     res_bind (getEnvString getenv ''DB_HOST'') (\<lambda>dbHost.
     res_bind (getEnvInt getenv ''DB_PORT'') (\<lambda>dbPort.
     res_bind (getEnvString getenv ''DB_NAME'') (\<lambda>dbName.
     res_bind (getEnvString getenv ''REDIS_URL'') (\<lambda>redisURL.
     res_bind (getEnvString getenv ''USER_EMAIL'') (\<lambda>email.
     res_bind (getEnvString getenv ''USER_PASSWORD'') (\<lambda>password.
     res_bind (getEnvLevel parse_level getenv ''LOG_LEVEL'') (\<lambda>lvl.
     res_bind (getEnvString getenv ''TOKEN_SECRET'') (\<lambda>secret.
     res_bind (getEnvString getenv ''MASTER_KEY'') (\<lambda>mk.
     res_bind (getEnvBool getenv ''IS_DEVELOPMENT'') (\<lambda>dev.
       Ok \<lparr>DBType = dbType, DBUser = dbUser, DBPassword = dbPassword, DBHost = dbHost, DBPort = dbPort,
           DBName = dbName, RedisURL = redisURL, cfg_UserEmail = email, cfg_UserPassword = password,
           LogLevel = lvl, JWTSecret = secret, MasterKey = mk, IsDevelopment = dev\<rparr>)))))))))))))"

definition required :: "string list" where
  "required = [''DB_TYPE'', ''DB_USER'', ''DB_PASSWORD'', ''DB_HOST'', ''DB_PORT'', ''DB_NAME'', ''REDIS_URL'',
     ''USER_EMAIL'', ''USER_PASSWORD'', ''LOG_LEVEL'', ''TOKEN_SECRET'', ''MASTER_KEY'', ''IS_DEVELOPMENT'']"

lemma initConfig_panics: "x \<in> set required \<Longrightarrow> getenv x = [] \<Longrightarrow> initConfig parse_level getenv = Panic"
  by (auto simp: required_def initConfig_def getEnvString_def getEnvInt_def getEnvBool_def getEnvLevel_def split: option.splits)

lemma initConfig_Ok_iff:
  "is_ok (initConfig parse_level getenv) \<longleftrightarrow>
     list_all (\<lambda>x. getenv x \<noteq> []) required \<and> atoi (getenv ''DB_PORT'') \<noteq> None \<and>
     parse_level (getenv ''LOG_LEVEL'') \<noteq> None \<and> parse_bool (getenv ''IS_DEVELOPMENT'') \<noteq> None"
  by (auto simp: required_def initConfig_def getEnvString_def getEnvInt_def getEnvBool_def getEnvLevel_def split: option.splits)

section \<open>The connection pool\<close>

text \<open>\<open>pg_once\<close>: \<^verbatim>\<open>pgOnce\<close> has run; \<open>pg_instance\<close>: the singleton, if it was created.\<close>

record 'pool pg_state =
  pg_once :: bool
  pg_instance :: "'pool option"

definition conn_string :: "'level config \<Rightarrow> string" where
  "conn_string c = DBType c @ ''://'' @ DBUser c @ '':'' @ DBPassword c @ ''@'' @ DBHost c @ '':'' @ itoa (DBPort c) @
     ''/'' @ DBName c @ ''?timezone=UTC''"

text \<open>A conversion to \<^verbatim>\<open>int32\<close> keeps the low 32 bits.\<close>

definition wrap32 :: "int \<Rightarrow> int" where
  "wrap32 x = (x + 2 ^ 31) mod 2 ^ 32 - 2 ^ 31"

text \<open>\<open>parse\<close> and \<open>connect\<close> are pgxpool's \<^verbatim>\<open>ParseConfig\<close> and \<^verbatim>\<open>NewWithConfig\<close>.\<close>

definition NewPG ::
  "(string \<Rightarrow> go_error + 'cfg) \<Rightarrow> ('cfg \<Rightarrow> int \<Rightarrow> go_error + 'pool) \<Rightarrow> 'level config \<Rightarrow> int \<Rightarrow> 'pool pg_state \<Rightarrow>
   ('pool option \<times> go_error option) \<times> 'pool pg_state" where
  "NewPG parse connect c maxConns s =
     (if pg_once s then ((pg_instance s, None), s)
      else case parse (conn_string c) of
        Inl e \<Rightarrow> ((pg_instance s, Some (Wrap [e] (''unable to parse connection string: '' @ err_text e))), s\<lparr>pg_once := True\<rparr>)
      | Inr cfg \<Rightarrow>
          (case connect cfg (wrap32 maxConns) of
             Inl e \<Rightarrow> ((pg_instance s, Some (Wrap [e] (''unable to create connection pool: '' @ err_text e))), s\<lparr>pg_once := True\<rparr>)
           | Inr pool \<Rightarrow> ((Some pool, None), \<lparr>pg_once = True, pg_instance = Some pool\<rparr>)))"

text \<open>
  After the first call every further call returns the same instance and no error: when the first call
  has failed, the later ones return a nil instance and a nil error.
\<close>

lemma NewPG_once:
  assumes "NewPG parse connect c n s = ((inst, err), s')"
  shows "NewPG parse' connect' c' n' s' = ((pg_instance s', None), s') \<and>
    (\<not> pg_once s \<longrightarrow> inst = pg_instance s' \<or> err \<noteq> None)"
  using assms by (auto simp: NewPG_def split: if_splits sum.splits)

end
