(* ===== verification/App.thy ===== *)
theory App
  imports AuthHandler EventsHandler ProviderHandler Health Config
begin

text \<open>
  \<^verbatim>\<open>internal/app/app.go\<close> and the \<^verbatim>\<open>RegisterRoutes\<close> functions of the handlers: which handler serves
  which route, and which routes stand behind the middleware. Matching a path against the patterns is
  chi's work and an argument; so are the throttle and the timeout, which can only answer earlier or
  make calls fail.
\<close>

section \<open>Routes\<close>

datatype route =
    LoginRoute | LogoutRoute | RefreshRoute | MeRoute
  | WebhookRoute endpoint
  | HealthRoute
  | ProvidersRoute | ConfigureRoute string
  | EventsRoute string | SearchRoute | ReplayRoute string | StatsRoute
  | StreamRoute

text \<open>Method and pattern under which \<open>New\<close> registers each route.\<close>

fun pattern :: "route \<Rightarrow> string \<times> string" where
  "pattern LoginRoute = (''POST'', ''/api/login'')"
| "pattern LogoutRoute = (''POST'', ''/api/logout'')"
| "pattern RefreshRoute = (''POST'', ''/api/refresh'')"
| "pattern MeRoute = (''GET'', ''/api/me'')"
| "pattern (WebhookRoute StripeEndpoint) = (''POST'', ''/api/webhooks/stripe'')"
| "pattern (WebhookRoute ShopifyEndpoint) = (''POST'', ''/api/webhooks/shopify'')"
| "pattern (WebhookRoute GitEndpoint) = (''POST'', ''/api/webhooks/github'')"
| "pattern HealthRoute = (''GET'', ''/api/health'')"
| "pattern ProvidersRoute = (''GET'', ''/api/providers'')"
| "pattern (ConfigureRoute i) = (''PATCH'', ''/api/providers/{id}'')"
| "pattern (EventsRoute cursor) = (''GET'', ''/api/events'')"
| "pattern SearchRoute = (''POST'', ''/api/events'')"
| "pattern (ReplayRoute i) = (''POST'', ''/api/events/{id}/replay'')"
| "pattern StatsRoute = (''GET'', ''/api/events/stats'')"
| "pattern StreamRoute = (''GET'', ''/api/events/stream'')"

text \<open>The group with \<^verbatim>\<open>r.Use(auth.Jwt(authSvc))\<close>, and the stream.\<close>

fun behind_jwt :: "route \<Rightarrow> bool" where
  "behind_jwt ProvidersRoute = True"
| "behind_jwt (ConfigureRoute i) = True"
| "behind_jwt (EventsRoute cursor) = True"
| "behind_jwt SearchRoute = True"
| "behind_jwt (ReplayRoute i) = True"
| "behind_jwt StatsRoute = True"
| "behind_jwt StreamRoute = True"
| "behind_jwt _ = False"

section \<open>The router\<close>

text \<open>The methods that \<^verbatim>\<open>New\<close> hands to the router, and the middleware it wraps around them.\<close>

datatype handler_method =
    AuthLogin | AuthLogout | AuthRefreshToken | AuthMe
  | ReceiveAt endpoint
  | HealthGetHealth
  | ProviderGetAll | ProviderConfigure
  | EventsGetAll | EventsSearch | EventsReplayEvent | EventsGetStats | EventsSSE

definition ThrottleMaxConcurrent :: int where "ThrottleMaxConcurrent = 500"
definition ThrottleMaxBacklog :: int where "ThrottleMaxBacklog = 2000"
definition ThrottleBacklogTimeout :: int where "ThrottleBacklogTimeout = 5"
definition MaxRequestTime :: int where "MaxRequestTime = 5"

datatype middleware =
    LogRequests | CleanPath | StripSlashes
  | ThrottleBacklog int int time
  | Timeout time
  | JwtMiddleware

record registration =
  rg_uses :: "middleware list"
  rg_method :: string
  rg_path :: string
  rg_handler :: handler_method

type_synonym router = "registration list"

definition on_method :: "string \<Rightarrow> string \<Rightarrow> handler_method \<Rightarrow> router \<Rightarrow> router" where
  "on_method m p h r = r @ [\<lparr>rg_uses = [], rg_method = m, rg_path = p, rg_handler = h\<rparr>]"

definition with_uses :: "middleware list \<Rightarrow> router \<Rightarrow> router" where
  "with_uses ms = map (rg_uses_update (\<lambda>us. ms @ us))"

definition under :: "string \<Rightarrow> router \<Rightarrow> router" where
  "under p = map (rg_path_update (\<lambda>q. p @ q))"

definition RegisterRoutes_auth :: "router \<Rightarrow> router" where
  "RegisterRoutes_auth r =
     on_method ''GET'' ''/me'' AuthMe (on_method ''POST'' ''/refresh'' AuthRefreshToken
       (on_method ''POST'' ''/logout'' AuthLogout (on_method ''POST'' ''/login'' AuthLogin r)))"

definition RegisterRoutes_stripe :: "router \<Rightarrow> router" where
  "RegisterRoutes_stripe = on_method ''POST'' ''/webhooks/stripe'' (ReceiveAt StripeEndpoint)"

definition RegisterRoutes_shopify :: "router \<Rightarrow> router" where
  "RegisterRoutes_shopify = on_method ''POST'' ''/webhooks/shopify'' (ReceiveAt ShopifyEndpoint)"

definition RegisterRoutes_git :: "router \<Rightarrow> router" where
  "RegisterRoutes_git = on_method ''POST'' ''/webhooks/github'' (ReceiveAt GitEndpoint)"

definition RegisterRoutes_health :: "router \<Rightarrow> router" where
  "RegisterRoutes_health = on_method ''GET'' ''/health'' HealthGetHealth"

definition RegisterRoutes_provider :: "router \<Rightarrow> router" where
  "RegisterRoutes_provider r =
     on_method ''PATCH'' ''/providers/{id}'' ProviderConfigure (on_method ''GET'' ''/providers'' ProviderGetAll r)"

definition RegisterRoutes_events :: "router \<Rightarrow> router" where
  "RegisterRoutes_events r =
     on_method ''GET'' ''/events/stats'' EventsGetStats (on_method ''POST'' ''/events/{id}/replay'' EventsReplayEvent
       (on_method ''POST'' ''/events'' EventsSearch (on_method ''GET'' ''/events'' EventsGetAll r)))"

text \<open>The whole tree as \<^verbatim>\<open>New\<close> builds it: the group below \<^verbatim>\<open>/api\<close> and, outside of its timeout, the stream.\<close>

definition app_router :: router where
  "app_router =
     (let public = RegisterRoutes_health (RegisterRoutes_git (RegisterRoutes_shopify (RegisterRoutes_stripe (RegisterRoutes_auth []))));
          protected = with_uses [JwtMiddleware] (RegisterRoutes_events (RegisterRoutes_provider []));
          api = under ''/api'' (with_uses [Timeout (MaxRequestTime * second)] (public @ protected));
          stream = with_uses [JwtMiddleware] (on_method ''GET'' ''/api/events/stream'' EventsSSE [])
      in with_uses [LogRequests, CleanPath, StripSlashes,
           ThrottleBacklog ThrottleMaxConcurrent ThrottleMaxBacklog (ThrottleBacklogTimeout * second)] (api @ stream))"

section \<open>Serving a request\<close>

text \<open>What the environment does during one request, for every handler.\<close>

record app_env =
  ax_lib :: jwt_lib
  ax_auth :: auth_service
  ax_credentials :: credentials
  ax_secure :: bool
  ax_checked_at :: time
  ax_auth_env :: auth_env
  ax_login_dec :: "login_body json_decoder"
  ax_receive :: receive_env
  ax_object :: "(string \<times> string) list \<Rightarrow> bytes"
  ax_health :: health_env
  ax_health_enc :: "health_check \<Rightarrow> bytes option"
  ax_master_key :: bytes
  ax_fault :: fault
  ax_now :: time
  ax_providers_enc :: "provider list \<Rightarrow> bytes option"
  ax_configure_dec :: "configure_body json_decoder"
  ax_configure_enc :: "provider \<Rightarrow> go_error + bytes"
  ax_configure :: configure_env
  ax_time_nano :: "string \<Rightarrow> time option"
  ax_events_enc :: "webhook list \<Rightarrow> bytes option"
  ax_search_dec :: "request \<Rightarrow> search_request option"
  ax_search_enc :: "search_response \<Rightarrow> bytes option"
  ax_pg :: pg
  ax_time :: "string \<Rightarrow> time option"
  ax_uuid :: "string \<Rightarrow> uuid res"
  ax_stats_enc :: "stats \<Rightarrow> bytes option"
  ax_stream_io :: frame_io
  ax_stream_turns :: "(hub_op list \<times> sse_case) list"

definition on_tokens :: "(tokens \<Rightarrow> 'a \<times> tokens) \<Rightarrow> world \<Rightarrow> 'a \<times> world" where
  "on_tokens f w = (case f (refresh_tokens (wd_db w)) of (r, ts) \<Rightarrow> (r, w\<lparr>wd_db := (wd_db w)\<lparr>refresh_tokens := ts\<rparr>\<rparr>))"

definition webhook_answer :: "((string \<times> string) list \<Rightarrow> bytes) \<Rightarrow> response \<Rightarrow> http_response" where
  "webhook_answer obj rsp =
     \<lparr>ht_code = rsp_code rsp, ht_cookies = [], ht_body = (if rsp_body rsp = [] then [] else obj (rsp_body rsp))\<rparr>"

fun handle :: "app_env \<Rightarrow> route \<Rightarrow> request \<Rightarrow> world \<Rightarrow> http_response res \<times> world" where
  "handle ax LoginRoute rq w =
     on_tokens (login (ax_login_dec ax) (ax_lib ax) (ax_auth ax) (ax_credentials ax) (ax_secure ax) (ax_auth_env ax) rq) w"
| "handle ax LogoutRoute rq w = on_tokens (logout (ax_secure ax) (ax_auth_env ax) rq) w"
| "handle ax RefreshRoute rq w =
     on_tokens (refresh_handler (ax_lib ax) (ax_auth ax) (ax_secure ax) (ax_auth_env ax) rq) w"
| "handle ax MeRoute rq w = (me (ax_lib ax) (ax_auth ax) (ax_checked_at ax) rq, w)"
| "handle ax (WebhookRoute ep) rq w =
     (case Receive ep (ax_receive ax) rq w of (r, w') \<Rightarrow> (res_bind r (\<lambda>rsp. Ok (webhook_answer (ax_object ax) rsp)), w'))"
| "handle ax HealthRoute rq w = (Ok (health_handler (ax_health_enc ax) (ax_health ax)), w)"
| "handle ax ProvidersRoute rq w = (providers_handler (ax_providers_enc ax) (ax_master_key ax) (ax_fault ax) (wd_db w), w)"
| "handle ax (ConfigureRoute i) rq w =
     (case configure_handler (ax_configure_dec ax) (ax_configure_enc ax) (ax_configure ax) i rq (wd_db w) (wd_redis w) of
        (r, d, rd) \<Rightarrow> (r, w\<lparr>wd_db := d, wd_redis := rd\<rparr>))"
| "handle ax (EventsRoute cursor) rq w =
     (getAll_handler (ax_time_nano ax) (ax_events_enc ax) (ax_fault ax) cursor (wd_db w), w)"
| "handle ax SearchRoute rq w =
     (search_handler (ax_search_dec ax) (ax_search_enc ax) (ax_fault ax) (ax_pg ax) (ax_time ax) rq (wd_db w), w)"
| "handle ax (ReplayRoute i) rq w =
     (case replay_handler (ax_uuid ax) (ax_fault ax) (ax_now ax) i (wd_db w) of (r, d) \<Rightarrow> (r, w\<lparr>wd_db := d\<rparr>))"
| "handle ax StatsRoute rq w = (getStats_handler (ax_stats_enc ax) (ax_fault ax) (ax_now ax) (wd_db w), w)"
| "handle ax StreamRoute rq w =
     (case SSE (ax_events_enc ax) (ax_stream_io ax) (ax_stream_turns ax) (wd_hub w) of
        (fs, returned, panicked, h) \<Rightarrow>
          (if panicked then Panic else Ok \<lparr>ht_code = StatusOK, ht_cookies = [], ht_body = concat (map frame_bytes fs)\<rparr>,
           w\<lparr>wd_hub := h\<rparr>))"

definition serve_route :: "app_env \<Rightarrow> route \<Rightarrow> request \<Rightarrow> world \<Rightarrow> http_response res \<times> world" where
  "serve_route ax rt =
     (if behind_jwt rt then Jwt (ax_lib ax) (ax_auth ax) (ax_checked_at ax) (handle ax rt) else handle ax rt)"

section \<open>Properties\<close>

text \<open>
  The table of routes is the router's: each route is registered exactly once, with its handler, below
  \<^verbatim>\<open>auth.Jwt\<close> just when \<open>behind_jwt\<close> says so, and with a time limit unless it is the stream.
\<close>

fun method_of :: "route \<Rightarrow> handler_method" where
  "method_of LoginRoute = AuthLogin"
| "method_of LogoutRoute = AuthLogout"
| "method_of RefreshRoute = AuthRefreshToken"
| "method_of MeRoute = AuthMe"
| "method_of (WebhookRoute ep) = ReceiveAt ep"
| "method_of HealthRoute = HealthGetHealth"
| "method_of ProvidersRoute = ProviderGetAll"
| "method_of (ConfigureRoute i) = ProviderConfigure"
| "method_of (EventsRoute cursor) = EventsGetAll"
| "method_of SearchRoute = EventsSearch"
| "method_of (ReplayRoute i) = EventsReplayEvent"
| "method_of StatsRoute = EventsGetStats"
| "method_of StreamRoute = EventsSSE"

lemmas router_defs = app_router_def RegisterRoutes_auth_def RegisterRoutes_stripe_def RegisterRoutes_shopify_def
  RegisterRoutes_git_def RegisterRoutes_health_def RegisterRoutes_provider_def RegisterRoutes_events_def
  on_method_def with_uses_def under_def

lemma router_entries:
  "map (\<lambda>r. ((rg_method r, rg_path r), rg_handler r, JwtMiddleware \<in> set (rg_uses r), Timeout (5 * second) \<in> set (rg_uses r))) app_router =
    map (\<lambda>rt. (pattern rt, method_of rt, behind_jwt rt, rt \<noteq> StreamRoute))
      [LoginRoute, LogoutRoute, RefreshRoute, MeRoute, WebhookRoute StripeEndpoint, WebhookRoute ShopifyEndpoint,
       WebhookRoute GitEndpoint, HealthRoute, ProvidersRoute, ConfigureRoute [], EventsRoute [], SearchRoute, ReplayRoute [],
       StatsRoute, StreamRoute]"
  by (simp add: router_defs MaxRequestTime_def)

lemma router_distinct: "distinct (map (\<lambda>r. (rg_method r, rg_path r)) app_router)"
  by (simp add: router_defs)

lemma router_serves:
  "\<exists>!r. r \<in> set app_router \<and> (rg_method r, rg_path r) = pattern rt \<and> rg_handler r = method_of rt \<and>
     (JwtMiddleware \<in> set (rg_uses r) \<longleftrightarrow> behind_jwt rt)"
proof -
  have "(pattern rt, method_of rt, behind_jwt rt, rt \<noteq> StreamRoute) \<in>
      set (map (\<lambda>r. ((rg_method r, rg_path r), rg_handler r, JwtMiddleware \<in> set (rg_uses r), Timeout (5 * second) \<in> set (rg_uses r))) app_router)"
    unfolding router_entries by (cases rt rule: pattern.cases) simp_all
  then obtain r where "r \<in> set app_router" and "(pattern rt, method_of rt, behind_jwt rt, rt \<noteq> StreamRoute) =
      ((rg_method r, rg_path r), rg_handler r, JwtMiddleware \<in> set (rg_uses r), Timeout (5 * second) \<in> set (rg_uses r))"
    unfolding set_map by (rule imageE)
  then show ?thesis using router_distinct by (intro ex1I [of _ r]) (simp_all add: distinct_map inj_on_def)
qed

definition signed_in :: "app_env \<Rightarrow> request \<Rightarrow> bool" where
  "signed_in ax rq = admitted (ax_lib ax) (ax_auth ax) (ax_checked_at ax) rq"

text \<open>Everything of the state but the sessions.\<close>

definition business :: "world \<Rightarrow> webhook list \<times> provider list \<times> redis \<times> hub \<times> pool_signal" where
  "business w = (webhook_events (wd_db w), provider_rows (wd_db w), wd_redis w, wd_hub w, wd_signal w)"

lemma business_on_tokens [simp]: "business (snd (on_tokens f w)) = business w"
  by (simp add: on_tokens_def business_def split_beta)

lemma serve_refused:
  assumes "behind_jwt rt" and "\<not> signed_in ax rq"
  shows "snd (serve_route ax rt rq w) = w \<and>
    (case fst (serve_route ax rt rq w) of Ok rsp \<Rightarrow> ht_code rsp = 401 | r \<Rightarrow> r = Panic)"
  using assms Jwt_refused [of "ax_lib ax" "ax_auth ax" "ax_checked_at ax" rq "handle ax rt" w]
  by (simp add: serve_route_def signed_in_def)

lemma serve_admitted: "signed_in ax rq \<Longrightarrow> serve_route ax rt rq w = handle ax rt rq w"
  by (simp add: serve_route_def signed_in_def Jwt_admitted)

text \<open>
  C6. Without a valid token in the access cookie every route under \<^verbatim>\<open>/api/providers\<close> and
  \<^verbatim>\<open>/api/events\<close>, the stream included, is answered with 401 (or the JWT library panics) and changes
  nothing. And whatever the route, such a request leaves the events, the providers, Redis, the live
  feed and the workers' signal alone, unless it is a webhook with the right signature.
\<close>

theorem only_sessions_and_signatures_act:
  assumes "\<not> signed_in ax rq" and "\<And>ep. rt = WebhookRoute ep \<Longrightarrow> \<not> authentic ep (ax_receive ax) rq (wd_redis w)"
  shows "business (snd (serve_route ax rt rq w)) = business w \<and>
    (prefix ''/api/providers'' (snd (pattern rt)) \<or> prefix ''/api/events'' (snd (pattern rt)) \<longrightarrow>
       snd (serve_route ax rt rq w) = w \<and>
       (case fst (serve_route ax rt rq w) of Ok rsp \<Rightarrow> ht_code rsp = 401 | r \<Rightarrow> r = Panic))"
proof (cases "behind_jwt rt")
  case True
  then show ?thesis using serve_refused [OF True assms(1)] by simp
next
  case False
  then have s: "serve_route ax rt rq w = handle ax rt rq w" by (simp add: serve_route_def)
  have "business (snd (handle ax rt rq w)) = business w"
  proof (cases rt)
    case (WebhookRoute ep)
    have "snd (Receive ep (ax_receive ax) rq w) = w"
      by (rule ingests_keeps(4) [OF Receive_ingests]) (rule assms(2) [OF WebhookRoute])
    then show ?thesis using WebhookRoute by (simp add: split_beta)
  qed (use False in simp_all)
  moreover have "\<not> prefix ''/api/providers'' (snd (pattern rt))" "\<not> prefix ''/api/events'' (snd (pattern rt))"
    using False by (cases rt rule: pattern.cases; simp)+
  ultimately show ?thesis by (simp add: s)
qed

definition sample_ping :: ping where
  "sample_ping = \<lparr>pg_error = None, pg_start = 0, pg_end = 0\<rparr>"

definition sample_health :: health_env where
  "sample_health = \<lparr>he_rounding = (\<lambda>n. of_int n / 1000000000), he_started = 0, he_now = second, he_build = None,
     he_stamp = second, he_db = sample_ping, he_redis = sample_ping, he_redis_first = False,
     he_machine = \<lparr>ms_alloc = 0, ms_total_alloc = 0, ms_sys = 0, ms_goroutines = 1, ms_num_gc = 0, fs_stat = None\<rparr>\<rparr>"

definition sample_app :: app_env where
  "sample_app = \<lparr>ax_lib = sample_jwt, ax_auth = sample_auth, ax_credentials = sample_credentials, ax_secure = True,
     ax_checked_at = 2 * second, ax_auth_env = sample_at 2, ax_login_dec = sample_decoder, ax_receive = git_env,
     ax_object = (\<lambda>fs. concat (map snd fs)), ax_health = sample_health, ax_health_enc = (\<lambda>c. Some (hc_status c)),
     ax_master_key = [], ax_fault = NoFault, ax_now = 2 * second, ax_providers_enc = (\<lambda>ps. Some []),
     ax_configure_dec = (\<lambda>n rq. NotDecoded ErrEOF), ax_configure_enc = (\<lambda>p. Inr []), ax_configure = sample_configure_env,
     ax_time_nano = (\<lambda>t. None), ax_events_enc = (\<lambda>es. Some (itoa (int (length es)))), ax_search_dec = (\<lambda>rq. None),
     ax_search_enc = (\<lambda>r. None), ax_pg = \<lparr>pg_uuid_text = (\<lambda>u. []), pg_ilike = (\<lambda>s p. False)\<rparr>, ax_time = (\<lambda>t. None), ax_uuid = (\<lambda>i. Ok 1), ax_stats_enc = (\<lambda>st. None),
     ax_stream_io = \<lparr>io_write = True, io_flush = True\<rparr>, ax_stream_turns = []\<rparr>"

theorem only_sessions_and_signatures_act_witness:
  "snd (serve_route sample_app (ReplayRoute ''1'') sample_request (git_world [git_hook])) = git_world [git_hook]"
proof -
  have "\<not> signed_in sample_app sample_request"
    by (simp add: signed_in_def admitted_def request_cookie_def sample_request_def List.map_filter_simps)
  then show ?thesis
    using only_sessions_and_signatures_act [of sample_app sample_request "ReplayRoute ''1''"] by simp
qed

end
