(* ===== verification/Limiter.thy ===== *)
theory Limiter
  imports Providers
begin

text \<open>
  \<^verbatim>\<open>internal/worker/limiter.go\<close>: the leaky bucket that bounds the forwarding rate of a provider.
  The Lua script runs atomically in Redis. Its numbers are doubles: the argument \<open>rnd\<close> is the
  rounding of a result to one, and the identity where a statement is about exact arithmetic.
\<close>

definition ErrRedis :: go_error where
  "ErrRedis = Sentinel ''[limiter] redis error occurred''"
definition ErrRedisTimeout :: go_error where
  "ErrRedisTimeout = Sentinel ''[limiter] redis timeout occurred''"
definition ErrRedisNotConfigured :: go_error where
  "ErrRedisNotConfigured = Sentinel ''[limiter] redis client not configured''"

section \<open>The script\<close>

text \<open>The bucket is absent when the hash does not exist: then both fields have their defaults.\<close>

definition allow_script :: "(rat \<Rightarrow> rat) \<Rightarrow> int \<Rightarrow> rat \<Rightarrow> bucket option \<Rightarrow> bool \<times> bucket" where
  "allow_script rnd maxReq now b =
     (let level0 = (case b of None \<Rightarrow> 0 | Some b \<Rightarrow> level b);
          lastLeak = (case b of None \<Rightarrow> now | Some b \<Rightarrow> last_leak b);
          elapsed = rnd (now - lastLeak);
          level1 = rnd (level0 - rnd (elapsed * of_int maxReq));
          level2 = (if level1 < 0 then 0 else level1)
      in if rnd (level2 + 1) \<le> of_int maxReq then (True, \<lparr>level = rnd (level2 + 1), last_leak = now\<rparr>)
         else (False, \<lparr>level = level2, last_leak = now\<rparr>))"

text \<open>\<open>EXPIRE\<close> removes the hash 60 seconds after its last use, by the clock of Redis.\<close>

definition live_bucket :: "rat \<Rightarrow> string \<Rightarrow> redis \<Rightarrow> bucket option" where
  "live_bucket rnow key r =
     (case buckets r key of None \<Rightarrow> None | Some (b, expiry) \<Rightarrow> if rnow < expiry then Some b else None)"

definition run_script :: "(rat \<Rightarrow> rat) \<Rightarrow> rat \<Rightarrow> string \<Rightarrow> int \<Rightarrow> rat \<Rightarrow> redis \<Rightarrow> bool res \<times> redis" where
  "run_script rnd rnow key maxReq now r =
     (let (allowed, b) = allow_script rnd maxReq now (live_bucket rnow key r)
      in (Ok allowed, r\<lparr>buckets := (buckets r)(key \<mapsto> (b, rnow + 60))\<rparr>))"

section \<open>The limiter\<close>

text \<open>
  \<open>InitRateLimiter\<close> sets the client once; the state is whether the \<^verbatim>\<open>sync.Once\<close> has fired and
  whether the limiter has a client.
\<close>

definition InitRateLimiter :: "bool \<Rightarrow> bool \<times> bool \<Rightarrow> bool \<times> bool" where
  "InitRateLimiter rdb_given st = (case st of (once, has_rdb) \<Rightarrow> if once then (once, has_rdb) else (True, rdb_given \<or> has_rdb))"

record allow_env =
  al_has_rdb :: bool
  al_fault :: fault
  al_now_ms :: int
  al_redis_now :: rat
  al_rnd :: "rat \<Rightarrow> rat"

definition limit_key :: "string \<Rightarrow> string" where
  "limit_key name = ''ratelimit:'' @ name"

definition Allow :: "allow_env \<Rightarrow> provider \<Rightarrow> redis \<Rightarrow> bool res \<times> redis" where
  "Allow al prov r =
     (if max_req_second prov \<le> 0 then (Ok False, r)
      else if \<not> al_has_rdb al then (Err ErrRedisNotConfigured, r)
      else let now = al_rnd al (of_int (al_now_ms al) / 1000) in
        case call (al_fault al)
          (run_script (al_rnd al) (al_redis_now al) (limit_key (pr_name prov)) (max_req_second prov) now) r of
          (Err e, r') \<Rightarrow>
            (if errors_is e (Driver DeadlineExceeded) then (Err ErrRedisTimeout, r') else (Err (errorf2 ErrRedis e), r'))
        | (res, r') \<Rightarrow> (res, r'))"

section \<open>Bounds of the bucket\<close>

text \<open>What is used of rounding: it is monotone and exact on the integers that occur.\<close>

definition rounding :: "(rat \<Rightarrow> rat) \<Rightarrow> bool" where
  "rounding rnd \<longleftrightarrow> mono rnd \<and> (\<forall>n. 0 \<le> n \<and> n \<le> 1001 \<longrightarrow> rnd (of_int n) = of_int n)"

definition bucket_ok :: "int \<Rightarrow> bucket \<Rightarrow> bool" where
  "bucket_ok maxReq b \<longleftrightarrow> 0 \<le> level b \<and> level b \<le> of_int maxReq"

lemma rounding_int: "rounding rnd \<Longrightarrow> 0 \<le> n \<Longrightarrow> n \<le> 1001 \<Longrightarrow> rnd (of_int n) = of_int n"
  by (simp add: rounding_def)

lemma rounding_zero: "rounding rnd \<Longrightarrow> rnd 0 = 0"
  using rounding_int [of rnd 0] by simp

lemma allow_script_ok:
  assumes r: "rounding rnd" and m: "0 < m" "m \<le> 1000"
    and b: "\<And>b0. b = Some b0 \<Longrightarrow> bucket_ok m b0 \<and> last_leak b0 \<le> now"
  shows "bucket_ok m (snd (allow_script rnd m now b))"
proof -
  define l0 where "l0 = (case b of None \<Rightarrow> 0 | Some b \<Rightarrow> level b)"
  define la where "la = (case b of None \<Rightarrow> now | Some b \<Rightarrow> last_leak b)"
  define l1 where "l1 = rnd (l0 - rnd (rnd (now - la) * of_int m))"
  have mono: "x \<le> y \<Longrightarrow> rnd x \<le> rnd y" for x y using r by (simp add: rounding_def mono_def)
  have rm: "rnd (of_int m) = of_int m" using rounding_int [OF r, of m] m by simp
  have l0: "0 \<le> l0" "l0 \<le> of_int m" and la: "la \<le> now"
    using b m by (auto simp: l0_def la_def bucket_ok_def split: option.splits)
  have "0 \<le> rnd (now - la)" using mono [of 0 "now - la"] la rounding_zero [OF r] by simp
  then have "0 \<le> rnd (rnd (now - la) * of_int m)"
    using mono [of 0 "rnd (now - la) * of_int m"] m rounding_zero [OF r] by simp
  then have "l1 \<le> of_int m" using mono [of "l0 - rnd (rnd (now - la) * of_int m)" "of_int m"] l0 rm by (simp add: l1_def)
  moreover have "0 \<le> rnd (l2 + 1)" if "0 \<le> l2" for l2 using mono [of 0 "l2 + 1"] that rounding_zero [OF r] by simp
  ultimately show ?thesis
    using m unfolding allow_script_def Let_def l0_def [symmetric] la_def [symmetric] l1_def [symmetric]
    by (auto simp: bucket_ok_def)
qed

section \<open>How many requests are allowed\<close>

text \<open>
  With exact arithmetic: the level plus the water that has been able to leak since time zero never
  decreases, and increases by one with every request that is allowed.
\<close>

definition water :: "int \<Rightarrow> bucket \<Rightarrow> rat" where
  "water m b = level b + of_int m * last_leak b"

lemma allow_script_water:
  assumes "allow_script (\<lambda>x. x) m now (Some b) = (a, b')"
  shows "water m b + (if a then 1 else 0) \<le> water m b'" and "last_leak b' = now"
    and "a \<Longrightarrow> level b' \<le> of_int m"
  using assms by (auto simp: allow_script_def water_def Let_def algebra_simps split: if_splits)

lemma allow_script_fresh: "0 < m \<Longrightarrow> allow_script (\<lambda>x. x) m now None = (True, \<lparr>level = 1, last_leak = now\<rparr>)"
  by (simp add: allow_script_def Let_def)

text \<open>Requests one after another, each with its time; the bucket is live throughout.\<close>

fun allowed_times :: "int \<Rightarrow> rat list \<Rightarrow> bucket \<Rightarrow> rat list" where
  "allowed_times m [] b = []"
| "allowed_times m (t # ts) b =
     (case allow_script (\<lambda>x. x) m t (Some b) of (a, b') \<Rightarrow> (if a then [t] else []) @ allowed_times m ts b')"

lemma allowed_times_bound:
  "allowed_times m ts b \<noteq> [] \<Longrightarrow>
     water m b + of_nat (length (allowed_times m ts b)) \<le> of_int m + of_int m * last (allowed_times m ts b)"
proof (induction ts arbitrary: b)
  case (Cons t ts)
  obtain a b' where s: "allow_script (\<lambda>x. x) m t (Some b) = (a, b')" by fastforce
  note w = allow_script_water [OF s]
  show ?case
  proof (cases "allowed_times m ts b' = []")
    case True
    then show ?thesis using Cons.prems w s by (auto simp: water_def split: if_splits)
  next
    case False
    then show ?thesis using Cons.IH [of b'] w(1) s by auto
  qed
qed simp

lemma allow_script_level: "allow_script (\<lambda>x. x) m now b = (True, b') \<Longrightarrow> 1 \<le> level b'"
  by (auto simp: allow_script_def Let_def split: if_splits)

lemma allowed_times_window:
  "allowed_times m ts b \<noteq> [] \<Longrightarrow>
     of_nat (length (allowed_times m ts b)) \<le> of_int m + of_int m * (last (allowed_times m ts b) - hd (allowed_times m ts b))"
proof (induction ts arbitrary: b)
  case (Cons t ts)
  obtain a b' where s: "allow_script (\<lambda>x. x) m t (Some b) = (a, b')" by fastforce
  show ?case
  proof (cases a)
    case True
    then have w: "1 + of_int m * t \<le> water m b'" "level b' \<le> of_int m" "1 \<le> level b'"
      using allow_script_level [of m t "Some b" b'] allow_script_water [OF s] s by (auto simp: water_def)
    show ?thesis
    proof (cases "allowed_times m ts b' = []")
      case True
      then show ?thesis using w s \<open>a\<close> by simp
    next
      case False
      then show ?thesis using allowed_times_bound [OF False] w(1) s \<open>a\<close> by (simp add: algebra_simps)
    qed
  next
    case False
    then show ?thesis using Cons s by simp
  qed
qed simp

text \<open>A bucket that has been idle for a second is as good as a new one, so its expiry is not noticed.\<close>

lemma idle_bucket_fresh:
  assumes "bucket_ok m b" and "1 \<le> now - last_leak b" and "0 < m"
  shows "allow_script (\<lambda>x. x) m now (Some b) = allow_script (\<lambda>x. x) m now None"
proof -
  have "of_int m * 1 \<le> of_int m * (now - last_leak b)" using assms(2,3) by (intro mult_left_mono) auto
  then have "level b - (now - last_leak b) * of_int m \<le> 0" using assms(1) by (simp add: bucket_ok_def algebra_simps)
  then have "(if level b - (now - last_leak b) * of_int m < 0 then 0 else level b - (now - last_leak b) * of_int m) = 0"
    by simp
  then show ?thesis by (simp add: allow_script_def Let_def)
qed

section \<open>Sequences of calls\<close>

definition secs :: "allow_env \<Rightarrow> rat" where
  "secs al = of_int (al_now_ms al) / 1000"

text \<open>Exact arithmetic, no faults, and one clock.\<close>

definition exact_env :: "allow_env \<Rightarrow> bool" where
  "exact_env al \<longleftrightarrow> al_has_rdb al \<and> al_fault al = NoFault \<and> al_rnd al = (\<lambda>x. x) \<and> al_redis_now al = secs al"

fun allow_times :: "provider \<Rightarrow> allow_env list \<Rightarrow> redis \<Rightarrow> rat list" where
  "allow_times prov [] r = []"
| "allow_times prov (al # als) r =
     (case Allow al prov r of (res, r') \<Rightarrow> (if res = Ok True then [secs al] else []) @ allow_times prov als r')"

text \<open>What the table of buckets holds for a provider at a given time.\<close>

definition bucket_state :: "provider \<Rightarrow> rat \<Rightarrow> redis \<Rightarrow> bool" where
  "bucket_state prov t r \<longleftrightarrow>
     (case buckets r (limit_key (pr_name prov)) of
        None \<Rightarrow> True
      | Some (b, expiry) \<Rightarrow> bucket_ok (max_req_second prov) b \<and> last_leak b \<le> t \<and> expiry = last_leak b + 60)"

definition bucket_of :: "provider \<Rightarrow> rat \<Rightarrow> redis \<Rightarrow> bucket" where
  "bucket_of prov t r = (case buckets r (limit_key (pr_name prov)) of None \<Rightarrow> \<lparr>level = 0, last_leak = t\<rparr> | Some (b, _) \<Rightarrow> b)"

lemma Allow_exact:
  assumes "exact_env al" and "0 < max_req_second prov" and "max_req_second prov \<le> 1000" and "bucket_state prov (secs al) r"
    and "allow_script (\<lambda>x. x) (max_req_second prov) (secs al) (Some (bucket_of prov (secs al) r)) = (a, b)"
  shows "Allow al prov r = (Ok a, r\<lparr>buckets := (buckets r)(limit_key (pr_name prov) \<mapsto> (b, secs al + 60))\<rparr>)"
    and "last_leak b = secs al" and "bucket_ok (max_req_second prov) b"
proof -
  let ?m = "max_req_second prov" and ?k = "limit_key (pr_name prov)" and ?t = "secs al"
  have "allow_script (\<lambda>x. x) ?m ?t (live_bucket ?t ?k r) = (a, b)"
  proof (cases "buckets r ?k")
    case None
    then show ?thesis using assms(5) by (simp add: live_bucket_def bucket_of_def allow_script_def Let_def)
  next
    case (Some x)
    obtain b0 e where x: "x = (b0, e)" by (cases x)
    then have b0: "bucket_ok ?m b0" "e = last_leak b0 + 60" using assms(4) Some by (auto simp: bucket_state_def)
    show ?thesis
    proof (cases "?t < e")
      case True
      then show ?thesis using assms(5) Some x by (simp add: live_bucket_def bucket_of_def)
    next
      case False
      then have "1 \<le> ?t - last_leak b0" using b0(2) by simp
      then show ?thesis using idle_bucket_fresh [OF b0(1) _ assms(2)] assms(5) Some x False
        by (simp add: live_bucket_def bucket_of_def)
    qed
  qed
  then show "Allow al prov r = (Ok a, r\<lparr>buckets := (buckets r)(?k \<mapsto> (b, ?t + 60))\<rparr>)"
    using assms(1,2) by (simp add: Allow_def Let_def exact_env_def run_script_def flip: secs_def)
  show "last_leak b = ?t" by (rule allow_script_water(2) [OF assms(5)])
  have "bucket_ok ?m (snd (allow_script (\<lambda>x. x) ?m ?t (Some (bucket_of prov ?t r))))"
    using assms(2-4)
    by (intro allow_script_ok) (auto simp: rounding_def mono_def bucket_state_def bucket_of_def bucket_ok_def split: option.splits)
  then show "bucket_ok ?m b" using assms(5) by simp
qed

lemma allow_times_eq:
  assumes "list_all exact_env als" and "0 < max_req_second prov" and "max_req_second prov \<le> 1000"
    and "sorted (map al_now_ms als)" and "als \<noteq> [] \<Longrightarrow> bucket_state prov (secs (hd als)) r"
  shows "allow_times prov als r = allowed_times (max_req_second prov) (map secs als) (bucket_of prov (secs (hd als)) r)"
  using assms
proof (induction als arbitrary: r)
  case (Cons al als)
  let ?m = "max_req_second prov"
  obtain a b where s: "allow_script (\<lambda>x. x) ?m (secs al) (Some (bucket_of prov (secs al) r)) = (a, b)" by fastforce
  let ?r = "r\<lparr>buckets := (buckets r)(limit_key (pr_name prov) \<mapsto> (b, secs al + 60))\<rparr>"
  have A: "Allow al prov r = (Ok a, ?r)" "last_leak b = secs al" "bucket_ok ?m b"
    using Allow_exact [OF _ _ _ _ s] Cons.prems by auto
  have "als \<noteq> [] \<Longrightarrow> secs al \<le> secs (hd als)"
    using Cons.prems(4) by (cases als) (auto simp: secs_def divide_right_mono)
  then have "als \<noteq> [] \<Longrightarrow> bucket_state prov (secs (hd als)) ?r" using A by (simp add: bucket_state_def)
  then have "allow_times prov als ?r = allowed_times ?m (map secs als) (bucket_of prov (secs (hd als)) ?r)"
    using Cons.prems by (intro Cons.IH) auto
  then show ?case using A(1) s by (simp add: bucket_of_def)
qed simp

section \<open>Properties\<close>

text \<open>
  Whatever the rounding of the doubles, a call of the limiter with a limit of the allowed range,
  at a time not before the last one, keeps the level of the bucket between zero and the limit; with
  a limit of zero nothing is allowed and Redis is not asked.
\<close>

theorem allow_keeps_level_bounded:
  assumes "rounding (al_rnd al)" and "max_req_second prov \<le> 1000"
    and "\<And>b e. buckets r (limit_key (pr_name prov)) = Some (b, e) \<Longrightarrow>
      bucket_ok (max_req_second prov) b \<and> last_leak b \<le> al_rnd al (of_int (al_now_ms al) / 1000)"
    and "Allow al prov r = (res, r')"
  shows "(\<forall>b e. buckets r' (limit_key (pr_name prov)) = Some (b, e) \<longrightarrow> bucket_ok (max_req_second prov) b) \<and>
    (\<forall>k. k \<noteq> limit_key (pr_name prov) \<longrightarrow> buckets r' k = buckets r k) \<and> kv r' = kv r \<and>
    (max_req_second prov \<le> 0 \<longrightarrow> res = Ok False \<and> r' = r)"
proof (cases "max_req_second prov \<le> 0 \<or> \<not> al_has_rdb al")
  case True
  then show ?thesis using assms(3,4) by (auto simp: Allow_def split: if_splits)
next
  case False
  let ?m = "max_req_second prov" and ?k = "limit_key (pr_name prov)"
  let ?now = "al_rnd al (of_int (al_now_ms al) / 1000)"
  let ?run = "run_script (al_rnd al) (al_redis_now al) ?k ?m ?now"
  have "bucket_ok ?m (snd (allow_script (al_rnd al) ?m ?now (live_bucket (al_redis_now al) ?k r)))"
    using assms(1-3) False
    by (intro allow_script_ok) (auto simp: live_bucket_def split: option.splits prod.splits if_splits)
  then have "(\<forall>b e. buckets (snd (?run r)) ?k = Some (b, e) \<longrightarrow> bucket_ok ?m b) \<and>
      (\<forall>k. k \<noteq> ?k \<longrightarrow> buckets (snd (?run r)) k = buckets r k) \<and> kv (snd (?run r)) = kv r"
    by (auto simp: run_script_def split_beta Let_def)
  moreover have "r' \<in> {r, snd (?run r)}"
    using False assms(4) call_state [of "al_fault al" ?run r]
    by (auto simp: Allow_def Let_def split: prod.splits res.splits if_splits)
  ultimately show ?thesis using assms(3) False by auto
qed


definition exact_at :: "int \<Rightarrow> allow_env" where
  "exact_at ms = \<lparr>al_has_rdb = True, al_fault = NoFault, al_now_ms = ms, al_redis_now = of_int ms / 1000, al_rnd = (\<lambda>x. x)\<rparr>"

text \<open>Three requests within half a second, at a limit of two per second.\<close>

lemma burst_over_limit:
  "allow_times (sample_provider\<lparr>max_req_second := 2\<rparr>) (map exact_at [0, 0, 0, 500]) \<lparr>kv = Map.empty, buckets = Map.empty\<rparr> = [0, 0, 1 / 2]"
  by (simp add: Allow_def exact_at_def run_script_def allow_script_def live_bucket_def Let_def secs_def limit_key_def)

theorem allow_keeps_level_bounded_witness:
  "\<exists>b e. buckets (snd (Allow (exact_at 5) sample_provider \<lparr>kv = Map.empty, buckets = Map.empty\<rparr>)) (limit_key Stripe) = Some (b, e) \<and>
     bucket_ok 90 b"
proof -
  let ?r = "snd (Allow (exact_at 5) sample_provider \<lparr>kv = Map.empty, buckets = Map.empty\<rparr>)"
  have "rounding (al_rnd (exact_at 5))" "max_req_second sample_provider \<le> 1000"
    by (simp_all add: rounding_def mono_def exact_at_def sample_provider_def)
  from allow_keeps_level_bounded [OF this, of "\<lparr>kv = Map.empty, buckets = Map.empty\<rparr>" _ ?r]
  have "buckets ?r (limit_key Stripe) = Some (b, e) \<Longrightarrow> bucket_ok 90 b" for b e
    by (simp add: sample_provider_def) (metis surjective_pairing)
  moreover have "buckets ?r (limit_key Stripe) \<noteq> None"
    by (simp add: Allow_def sample_provider_def exact_at_def run_script_def split_beta Let_def)
  ultimately show ?thesis by (auto simp del: split_paired_Ex)
qed


end
