(* ===== verification/WorkerService.thy ===== *)
theory WorkerService
  imports WorkerRepo Limiter Ingest
begin

text \<open>
  \<^verbatim>\<open>internal/worker/service.go\<close>: forwarding a batch of events to the providers' destinations,
  and the loop that claims, forwards, writes back and publishes.
\<close>

definition ErrNoHooksToWork :: go_error where
  "ErrNoHooksToWork = Sentinel ''[Worker] no webhooks to work at the moment''"
definition ErrRateLimited :: go_error where
  "ErrRateLimited = Sentinel ''[Worker] rate limited''"

definition RetryIntervalSeconds :: int where
  "RetryIntervalSeconds = 30"

section \<open>The outcome of an attempt\<close>

text \<open>
  \<^verbatim>\<open>time.Duration(n) * time.Second\<close> is a product of 64-bit integers, and \<^verbatim>\<open>Time.Add\<close> adds the result.
\<close>

definition after_seconds :: "time \<Rightarrow> int \<Rightarrow> time" where
  "after_seconds now n = now + wrap64 (n * second)"

definition setDefaultUpdateValues :: "time \<Rightarrow> string \<Rightarrow> update_webhook \<Rightarrow> update_webhook" where
  "setDefaultUpdateValues now err u =
     u\<lparr>uw_delivery_status := DeliveryStatusFailed, uw_last_error := Some err,
       uw_next_retry_at := Some (after_seconds now RetryIntervalSeconds), uw_response_code := None\<rparr>"

definition setSuccessUpdateValues :: "int \<Rightarrow> update_webhook \<Rightarrow> update_webhook" where
  "setSuccessUpdateValues c u =
     u\<lparr>uw_delivery_status := DeliveryStatusDelivered, uw_response_code := Some c, uw_last_error := None,
       uw_next_retry_at := None\<rparr>"

definition setFailureUpdateValues :: "int \<Rightarrow> string \<Rightarrow> update_webhook \<Rightarrow> update_webhook" where
  "setFailureUpdateValues c err u =
     u\<lparr>uw_delivery_status := DeliveryStatusFailed, uw_response_code := Some c, uw_last_error := Some err,
       uw_next_retry_at := None\<rparr>"

definition setRetryableUpdateValues :: "time \<Rightarrow> int \<Rightarrow> string \<Rightarrow> update_webhook \<Rightarrow> update_webhook" where
  "setRetryableUpdateValues now c err u =
     u\<lparr>uw_delivery_status := DeliveryStatusFailed, uw_response_code := Some c, uw_last_error := Some err,
       uw_next_retry_at := Some (after_seconds now RetryIntervalSeconds)\<rparr>"

definition setRateLimitedUpdateValues :: "time \<Rightarrow> int \<Rightarrow> string \<Rightarrow> string \<Rightarrow> update_webhook \<Rightarrow> update_webhook" where
  "setRateLimitedUpdateValues now c err retryAfter u =
     (let nextRetry = (case atoi retryAfter of
          Some n \<Rightarrow> if 0 < n then after_seconds now n else after_seconds now RetryIntervalSeconds
        | None \<Rightarrow> after_seconds now RetryIntervalSeconds)
      in u\<lparr>uw_delivery_status := DeliveryStatusFailed, uw_response_code := Some c, uw_last_error := Some err,
           uw_next_retry_at := Some nextRetry\<rparr>)"

section \<open>Forwarding one event\<close>

text \<open>
  What \<^verbatim>\<open>client.Do\<close> returns: a transport error, or the final response with its code, its status
  line and its headers (redirects are followed by the client).
\<close>

datatype http_result = TransportError string | Response int string header

record http_request =
  hr_url :: string
  hr_header :: header
  hr_body :: bytes

text \<open>
  The environment of one attempt: the faults of the cache, the limiter's environment, whether the
  URL makes a request, the parsed headers, the destination's answer, and the time at its end.
\<close>

record forward_env =
  fe_codec :: codec
  fe_get_fault :: fault
  fe_allow :: allow_env
  fe_new_request :: "string \<Rightarrow> string option"
  fe_unmarshal_headers :: unmarshal_headers
  fe_do :: "http_request \<Rightarrow> http_result"
  fe_now :: time

definition outcome :: "time \<Rightarrow> int \<Rightarrow> string \<Rightarrow> header \<Rightarrow> update_webhook \<Rightarrow> update_webhook" where
  "outcome now c line hdr u =
     (if 200 \<le> c \<and> c < 300 then setSuccessUpdateValues c u
      else if c = 429 \<or> c = 503 then setRateLimitedUpdateValues now c (err_text ErrRateLimited) (header_get hdr ''Retry-After'') u
      else if 400 \<le> c \<and> c < 500 then setFailureUpdateValues c line u
      else if 500 \<le> c then setRetryableUpdateValues now c line u
      else u)"

definition forward_headers :: "string \<Rightarrow> unmarshal_headers \<Rightarrow> bytes \<Rightarrow> header res" where
  "forward_headers name un raw =
     (if name = Stripe then stripe_SetForwardHeaders un raw []
      else if name = Github then github_SetForwardHeaders un raw []
      else if name = Shopify then shopify_SetForwardHeaders un raw []
      else Ok [])"

text \<open>
  The body of the goroutine. \<open>updates.forwardedTo\<close> points into the goroutine's copy of the event, so
  it follows the change of the destination. The result is the update, the request that was sent if
  there was one, and the state of Redis. (None of the calls panics, as the lemmas on them show; the
  branches are there because their results have that case.)
\<close>

definition new_update :: "webhook \<Rightarrow> string \<Rightarrow> update_webhook" where
  "new_update hook fwd = \<lparr>uw_id = wh_id hook, uw_prov_name = provider_name hook, uw_next_retry_at = None,
     uw_delivery_status = [], uw_response_code = None, uw_last_error = None, uw_forwarded_to = Some fwd\<rparr>"

definition forward_one :: "forward_env \<Rightarrow> webhook \<Rightarrow> redis \<Rightarrow> update_webhook \<times> http_request option \<times> redis" where
  "forward_one fe hook r =
     (let u0 = new_update hook (forwarded_to hook);
          fail = (\<lambda>e u. setDefaultUpdateValues (fe_now fe) (err_text e) u)
      in case cache_get (fe_codec fe) (fe_get_fault fe) (provider_name hook) r of
           Err e \<Rightarrow> (fail e u0, None, r)
         | Panic \<Rightarrow> (u0, None, r)
         | Ok prov \<Rightarrow>
            (let u1 = new_update hook (destination_url prov)
             in case Allow (fe_allow fe) prov r of
                  (Err e, r') \<Rightarrow> (fail e u1, None, r')
                | (Panic, r') \<Rightarrow> (u1, None, r')
                | (Ok False, r') \<Rightarrow> (setRateLimitedUpdateValues (fe_now fe) 429 (err_text ErrRateLimited) [] u1, None, r')
                | (Ok True, r') \<Rightarrow>
                   (case fe_new_request fe (destination_url prov) of
                      Some e \<Rightarrow> (setDefaultUpdateValues (fe_now fe) e u1, None, r')
                    | None \<Rightarrow>
                       (case forward_headers (provider_name hook) (fe_unmarshal_headers fe) (headers hook) of
                          Err e \<Rightarrow> (fail e u1, None, r')
                        | Panic \<Rightarrow> (u1, None, r')
                        | Ok h \<Rightarrow>
                           (let req = \<lparr>hr_url = destination_url prov, hr_header = h, hr_body = payload hook\<rparr>
                            in case fe_do fe req of
                                 TransportError e \<Rightarrow> (setDefaultUpdateValues (fe_now fe) e u1, Some req, r')
                               | Response c line hdr \<Rightarrow> (outcome (fe_now fe) c line hdr u1, Some req, r'))))))"

section \<open>Forwarding a batch\<close>

text \<open>
  One goroutine per event; the order in which they reach the limiter is the schedule, an arbitrary
  permutation: those that a given list leaves out come last. Each goroutine writes its own slot of
  the result.
\<close>

definition complete_schedule :: "nat \<Rightarrow> nat list \<Rightarrow> nat list" where
  "complete_schedule n is = (let js = filter (\<lambda>i. i < n) (remdups is) in js @ filter (\<lambda>i. i \<notin> set js) [0..<n])"

fun forward_schedule ::
  "(nat \<Rightarrow> forward_env) \<Rightarrow> webhook list \<Rightarrow> nat list \<Rightarrow> update_webhook option list \<Rightarrow> redis \<Rightarrow>
     update_webhook option list \<times> http_request list \<times> redis" where
  "forward_schedule fe hooks [] ups r = (ups, [], r)"
| "forward_schedule fe hooks (i # is) ups r =
     (let (u, qs, r') = forward_one (fe i) (hooks ! i) r;
          (ups', qss, r'') = forward_schedule fe hooks is (ups[i := Some u]) r'
      in (ups', (case qs of None \<Rightarrow> [] | Some q \<Rightarrow> [q]) @ qss, r''))"

definition forwardEvent ::
  "(nat \<Rightarrow> forward_env) \<Rightarrow> nat list \<Rightarrow> webhook list \<Rightarrow> redis \<Rightarrow> update_webhook option list \<times> http_request list \<times> redis" where
  "forwardEvent fe schedule hooks r = 
     forward_schedule fe hooks (complete_schedule (length hooks) schedule) (replicate (length hooks) None) r"

section \<open>The loop\<close>

record iteration =
  it_claim :: claim_env
  it_forward :: "nat \<Rightarrow> forward_env"
  it_schedule :: "nat list"
  it_write :: write_env

definition getNext :: "batch_sizes \<Rightarrow> kind \<Rightarrow> claim_env \<Rightarrow> db \<Rightarrow> webhook list res \<times> db" where
  "getNext bs k ce d =
     (case GetEvents bs k ce d of
        (Err e, d') \<Rightarrow> (if errors_is e ErrNoRows then (Err ErrNoHooksToWork, d') else (Err e, d'))
      | (r, d') \<Rightarrow> (r, d'))"

definition updateEvent :: "kind \<Rightarrow> write_env \<Rightarrow> update_webhook list \<Rightarrow> db \<Rightarrow> webhook list res \<times> db" where
  "updateEvent k we us d = UpdateEvents k we us d"

definition send :: "webhook \<Rightarrow> hub \<Rightarrow> hub" where
  "send hook h = snd (Send hook h)"

text \<open>One round; the flag says whether the loop goes on.\<close>

definition run_once :: "batch_sizes \<Rightarrow> kind \<Rightarrow> iteration \<Rightarrow> world \<Rightarrow> bool \<times> http_request list \<times> world" where
  "run_once bs k it w =
     (case getNext bs k (it_claim it) (wd_db w) of
        (Ok hooks, d1) \<Rightarrow>
          (let (ups, qs, r1) = forwardEvent (it_forward it) (it_schedule it) hooks (wd_redis w)
           in case updateEvent k (it_write it) (map the ups) d1 of
                (Ok updatedHooks, d2) \<Rightarrow>
                  (True, qs, w\<lparr>wd_db := d2, wd_redis := r1, wd_hub := fold send updatedHooks (wd_hub w)\<rparr>)
              | (_, d2) \<Rightarrow> (True, qs, w\<lparr>wd_db := d2, wd_redis := r1\<rparr>))
      | (_, d1) \<Rightarrow> (False, [], w\<lparr>wd_db := d1\<rparr>))"

text \<open>
  The loop over what the environment does in each round: the result says whether the loop has ended
  within these rounds.
\<close>

fun run :: "batch_sizes \<Rightarrow> kind \<Rightarrow> iteration list \<Rightarrow> world \<Rightarrow> bool \<times> http_request list \<times> world" where
  "run bs k [] w = (False, [], w)"
| "run bs k (it # its) w =
     (case run_once bs k it w of
        (False, qs, w') \<Rightarrow> (True, qs, w')
      | (True, qs, w') \<Rightarrow> (case run bs k its w' of (ended, qss, w'') \<Rightarrow> (ended, qs @ qss, w'')))"

section \<open>What an attempt does\<close>

lemma complete_schedule: "set (complete_schedule n is) = {0..<n} \<and> distinct (complete_schedule n is)"
  by (auto simp: complete_schedule_def Let_def)

lemma complete_schedule_any:
  "distinct is \<Longrightarrow> set is = {0..<n} \<Longrightarrow> complete_schedule n is = is"
  by (auto simp: complete_schedule_def Let_def filter_empty_conv distinct_remdups_id)

lemma Allow_no_panic: "Allow al prov r \<noteq> (Panic, r')"
  by (cases "al_fault al")
    (auto simp: Allow_def Let_def call_def run_script_def split_beta split: prod.splits res.splits if_splits)

lemma forward_headers_no_panic: "forward_headers name un raw \<noteq> Panic"
  by (cases "un raw")
    (auto simp: forward_headers_def stripe_SetForwardHeaders_def github_SetForwardHeaders_def shopify_SetForwardHeaders_def
      set_forward_headers_def)

lemmas update_values = setDefaultUpdateValues_def setSuccessUpdateValues_def setFailureUpdateValues_def
  setRetryableUpdateValues_def setRateLimitedUpdateValues_def Let_def

lemma set_values_same [simp]:
  "uw_id (setDefaultUpdateValues now e u) = uw_id u" "uw_forwarded_to (setDefaultUpdateValues now e u) = uw_forwarded_to u"
  "uw_id (setRateLimitedUpdateValues now c e ra u) = uw_id u"
  "uw_forwarded_to (setRateLimitedUpdateValues now c e ra u) = uw_forwarded_to u"
  "uw_id (outcome now c line hdr u) = uw_id u" "uw_forwarded_to (outcome now c line hdr u) = uw_forwarded_to u"
  by (simp_all add: outcome_def update_values)

text \<open>
  The ways an attempt can end: it fails before a request is made, it is held back by the limiter, or
  one request is made.
\<close>

lemma forward_one_cases:
  obtains (failed) e fwd r' where
      "forward_one fe hook r = (setDefaultUpdateValues (fe_now fe) e (new_update hook fwd), None, r')"
  | (limited) prov r' where "cache_get (fe_codec fe) NoFault (provider_name hook) r = Ok prov" "Allow (fe_allow fe) prov r = (Ok False, r')"
      "forward_one fe hook r =
        (setRateLimitedUpdateValues (fe_now fe) 429 (err_text ErrRateLimited) [] (new_update hook (destination_url prov)), None, r')"
  | (sent) prov r' h req where "cache_get (fe_codec fe) NoFault (provider_name hook) r = Ok prov" "Allow (fe_allow fe) prov r = (Ok True, r')"
      "forward_headers (provider_name hook) (fe_unmarshal_headers fe) (headers hook) = Ok h"
      "req = \<lparr>hr_url = destination_url prov, hr_header = h, hr_body = payload hook\<rparr>"
      "forward_one fe hook r = (case fe_do fe req of
         TransportError e \<Rightarrow> (setDefaultUpdateValues (fe_now fe) e (new_update hook (destination_url prov)), Some req, r')
       | Response c line hdr \<Rightarrow> (outcome (fe_now fe) c line hdr (new_update hook (destination_url prov)), Some req, r'))"
proof (cases "cache_get (fe_codec fe) (fe_get_fault fe) (provider_name hook) r")
  case prov0: (Ok prov)
  then have prov: "cache_get (fe_codec fe) NoFault (provider_name hook) r = Ok prov" by (rule cache_get_Ok [THEN conjunct2])
  obtain a r' where A: "Allow (fe_allow fe) prov r = (a, r')" by fastforce
  consider "a = Ok False" | "a = Ok True" | e where "a = Err e" using A Allow_no_panic by (metis (full_types) res.exhaust)
  then show ?thesis
  proof cases
    case 1
    then show ?thesis using limited [OF prov] A prov0 by (simp add: forward_one_def Let_def)
  next
    case 2
    then show ?thesis
      using failed sent [OF prov] A prov0
      by (cases "fe_new_request fe (destination_url prov)";
          cases "forward_headers (provider_name hook) (fe_unmarshal_headers fe) (headers hook)")
        (auto simp: forward_one_def Let_def forward_headers_no_panic)
  next
    case 3
    then show ?thesis using failed A prov0 by (simp add: forward_one_def Let_def)
  qed
qed (use failed in \<open>simp_all add: forward_one_def Let_def\<close>)

lemma new_update_parts [simp]:
  "uw_id (new_update hook fwd) = wh_id hook" "uw_forwarded_to (new_update hook fwd) = Some fwd"
  "uw_delivery_status (new_update hook fwd) = []"
  by (simp_all add: new_update_def)

lemma forward_one_id: "forward_one fe hook r = (u, q, r') \<Longrightarrow> uw_id u = wh_id hook \<and> uw_forwarded_to u \<noteq> None"
  by (cases rule: forward_one_cases [of fe hook r]) (auto split: http_result.splits)

lemma forward_one_request:
  "forward_one fe hook r = (u, Some req, r') \<Longrightarrow>
     \<exists>prov h. cache_get (fe_codec fe) NoFault (provider_name hook) r = Ok prov \<and> fst (Allow (fe_allow fe) prov r) = Ok True \<and>
       forward_headers (provider_name hook) (fe_unmarshal_headers fe) (headers hook) = Ok h \<and>
       req = \<lparr>hr_url = destination_url prov, hr_header = h, hr_body = payload hook\<rparr>"
  by (cases rule: forward_one_cases [of fe hook r]) (auto split: http_result.splits)

section \<open>What a batch does\<close>

definition slots_ok :: "webhook list \<Rightarrow> update_webhook option list \<Rightarrow> bool" where
  "slots_ok hooks ups \<longleftrightarrow> list_all2 (\<lambda>h x. \<forall>u. x = Some u \<longrightarrow> uw_id u = wh_id h \<and> uw_forwarded_to u \<noteq> None) hooks ups"

text \<open>One step of the schedule, with the request it makes.\<close>

lemma forward_schedule_Cons:
  assumes "forward_schedule fe hooks (j # is) ups r = (ups', qs, r')"
  obtains u q r1 qss where "forward_one (fe j) (hooks ! j) r = (u, q, r1)"
    "forward_schedule fe hooks is (ups[j := Some u]) r1 = (ups', qss, r')"
    "qs = (case q of None \<Rightarrow> [] | Some x \<Rightarrow> [x]) @ qss"
  using assms by (auto simp: Let_def split: prod.splits)

lemma forward_schedule_slots:
  "forward_schedule fe hooks is ups r = (ups', qs, r') \<Longrightarrow> slots_ok hooks ups \<Longrightarrow> slots_ok hooks ups'"
proof (induction "is" arbitrary: ups r qs)
  case (Cons j "is")
  from Cons.prems(1) show ?case
  proof (rule forward_schedule_Cons)
    fix u q r1 qss
    assume f: "forward_one (fe j) (hooks ! j) r = (u, q, r1)"
      and rest: "forward_schedule fe hooks is (ups[j := Some u]) r1 = (ups', qss, r')"
    have "slots_ok hooks (ups[j := Some u])"
      using Cons.prems(2) forward_one_id [OF f] by (auto simp: slots_ok_def list_all2_conv_all_nth nth_update_if split: if_splits)
    then show ?thesis using Cons.IH [OF rest] by blast
  qed
qed simp

lemma forward_schedule_filled:
  "forward_schedule fe hooks is ups r = (ups', qs, r') \<Longrightarrow> i < length ups \<Longrightarrow> i \<in> set is \<or> ups ! i \<noteq> None \<Longrightarrow> ups' ! i \<noteq> None"
proof (induction "is" arbitrary: ups r qs)
  case (Cons j "is")
  from Cons.prems(1) show ?case
  proof (rule forward_schedule_Cons)
    fix u q r1 qss
    assume rest: "forward_schedule fe hooks is (ups[j := Some u]) r1 = (ups', qss, r')"
    show ?thesis using Cons.IH [OF rest] Cons.prems(2,3) by (auto simp: nth_update_if split: if_splits)
  qed
qed simp

lemma forward_schedule_requests:
  "forward_schedule fe hooks is ups r = (ups', qs, r') \<Longrightarrow> length qs \<le> length is"
proof (induction "is" arbitrary: ups r qs)
  case (Cons j "is")
  from Cons.prems show ?case by (rule forward_schedule_Cons) (use Cons.IH in \<open>fastforce split: option.splits\<close>)
qed simp

text \<open>Every event of the batch gets one update, in its place, and at most one request is made for each.\<close>

lemma forwardEvent_updates:
  assumes "forwardEvent fe sched hooks r = (ups, qs, r')"
  shows "map (\<lambda>x. uw_id (the x)) ups = map wh_id hooks" and "None \<notin> set ups" and "length qs \<le> length hooks"
    and "list_all (\<lambda>x. uw_forwarded_to (the x) \<noteq> None) ups"
proof -
  let ?is = "complete_schedule (length hooks) sched"
  note run = assms [unfolded forwardEvent_def]
  have "slots_ok hooks (replicate (length hooks) None)" by (simp add: slots_ok_def list_all2_conv_all_nth)
  then have ok: "slots_ok hooks ups" by (rule forward_schedule_slots [OF run])
  have len: "length ups = length hooks" using ok by (simp add: slots_ok_def list_all2_lengthD)
  have some: "ups ! i \<noteq> None" if "i < length hooks" for i
    using forward_schedule_filled [OF run, of i] complete_schedule [of "length hooks" sched] that by simp
  show "None \<notin> set ups" using some len by (metis in_set_conv_nth)
  show "map (\<lambda>x. uw_id (the x)) ups = map wh_id hooks"
    using ok some len by (intro nth_equalityI) (auto simp: slots_ok_def list_all2_conv_all_nth)
  show "list_all (\<lambda>x. uw_forwarded_to (the x) \<noteq> None) ups"
    using ok some len by (fastforce simp: slots_ok_def list_all2_conv_all_nth list_all_length)
  have "length ?is = length hooks" using complete_schedule [of "length hooks" sched] distinct_card [of ?is] by simp
  then show "length qs \<le> length hooks" using forward_schedule_requests [OF run] by simp
qed

section \<open>Properties of forwarding\<close>

text \<open>
  C13. The outcome of an attempt. It is recorded as delivered exactly when a request was made and the
  final response was a 2xx; a 4xx other than 429 is recorded as failed with no retry scheduled;
  every other failure (cache, limiter, request, headers, transport, 429, 5xx) is failed with a retry
  scheduled; a response with none of these codes leaves the status empty.
\<close>

theorem attempt_outcome:
  "case forward_one fe hook r of (u, q, r') \<Rightarrow>
     uw_id u = wh_id hook \<and>
     (uw_delivery_status u = DeliveryStatusDelivered \<longleftrightarrow>
        (\<exists>req c line h. q = Some req \<and> fe_do fe req = Response c line h \<and> 200 \<le> c \<and> c < 300)) \<and>
     (uw_delivery_status u = [] \<longleftrightarrow>
        (\<exists>req c line h. q = Some req \<and> fe_do fe req = Response c line h \<and> c < 400 \<and> \<not> (200 \<le> c \<and> c < 300))) \<and>
     (uw_delivery_status u = DeliveryStatusFailed \<and> uw_next_retry_at u = None \<longleftrightarrow>
        (\<exists>req c line h. q = Some req \<and> fe_do fe req = Response c line h \<and> 400 \<le> c \<and> c < 500 \<and> c \<noteq> 429)) \<and>
     uw_delivery_status u \<in> {DeliveryStatusDelivered, DeliveryStatusFailed, []}"
proof (cases rule: forward_one_cases [of fe hook r])
  case (failed e fwd r')
  then show ?thesis by (simp add: setDefaultUpdateValues_def)
next
  case (limited prov r')
  then show ?thesis by (simp add: setRateLimitedUpdateValues_def Let_def)
next
  case (sent prov r' h req)
  show ?thesis
  proof (cases "fe_do fe req")
    case (TransportError e)
    then show ?thesis using sent by (simp add: setDefaultUpdateValues_def)
  next
    case (Response c line hdr)
    then show ?thesis using sent(5) by (auto simp: outcome_def update_values)
  qed
qed

text \<open>
  C25. A request is made only for an event whose provider is in the cache and whose limiter has allowed
  it; it goes to the provider's current destination, with the stored payload as its body and only
  allowlisted headers of the event, and the update records that destination.
\<close>

theorem request_goes_to_current_destination:
  assumes "forward_one fe hook r = (u, Some req, r')"
  shows "\<exists>prov. cache_get (fe_codec fe) NoFault (provider_name hook) r = Ok prov \<and> Allow (fe_allow fe) prov r = (Ok True, r') \<and>
    hr_url req = destination_url prov \<and> hr_body req = payload hook \<and> uw_forwarded_to u = Some (destination_url prov) \<and>
    (\<forall>k. header_values (hr_header req) k \<noteq> [] \<longrightarrow>
      k \<in> set (github_allowed @ shopify_allowed @ stripe_allowed))"
  using assms
proof (cases rule: forward_one_cases [of fe hook r])
  case (sent prov r'' h req')
  have "k \<in> set (github_allowed @ shopify_allowed @ stripe_allowed)" if "header_values h k \<noteq> []" for k
  proof -
    have "header_values (forward_allowed allowed parsed []) k \<noteq> [] \<Longrightarrow> k \<in> set allowed" for allowed parsed
      by (simp add: header_values_forward split: if_splits)
    then show ?thesis using that sent(3)
      by (auto simp: forward_headers_def stripe_SetForwardHeaders_def github_SetForwardHeaders_def shopify_SetForwardHeaders_def
          set_forward_headers_def split: if_splits sum.splits)
  qed
  moreover have "req = req'" "r' = r''" "uw_forwarded_to u = Some (destination_url prov)"
    using assms sent(5) by (auto split: http_result.splits)
  ultimately show ?thesis using sent by auto
qed (use assms in auto)

definition sample_forward :: forward_env where
  "sample_forward = \<lparr>fe_codec = \<lparr>marshal = (\<lambda>p. Ok ''x''), unmarshal = (\<lambda>b. Some (sample_provider\<lparr>destination_url := ''http://app''\<rparr>))\<rparr>,
     fe_get_fault = NoFault, fe_allow = exact_at 0, fe_new_request = (\<lambda>u. None), fe_unmarshal_headers = (\<lambda>b. Inr []),
     fe_do = (\<lambda>q. Response 302 ''302 Found'' []), fe_now = 1000\<rparr>"

lemma sample_forward_run:
  "forward_one sample_forward (sample_row 1 Processing 0) sample_cache =
     (new_update (sample_row 1 Processing 0) ''http://app'',
      Some \<lparr>hr_url = ''http://app'', hr_header = [], hr_body = ''{}''\<rparr>,
      sample_cache\<lparr>buckets := [''ratelimit:Stripe'' \<mapsto> (\<lparr>level = 1, last_leak = 0\<rparr>, 60)]\<rparr>)"
  by (simp add: forward_one_def sample_forward_def sample_cache_def sample_row_def sample_provider_def cache_get_def GetBytes_def
      Allow_def exact_at_def run_script_def allow_script_def live_bucket_def limit_key_def Let_def forward_headers_def
      stripe_SetForwardHeaders_def set_forward_headers_def forward_allowed_def outcome_def)

theorem attempt_outcome_witness:
  "uw_delivery_status (fst (forward_one sample_forward (sample_row 1 Processing 0) sample_cache)) = []"
  using attempt_outcome [of "sample_row 1 Processing 0" sample_forward sample_cache] unfolding sample_forward_run by simp

theorem request_goes_to_current_destination_witness:
  "\<exists>prov. cache_get (fe_codec sample_forward) NoFault Stripe sample_cache = Ok prov \<and> destination_url prov = ''http://app''"
  using request_goes_to_current_destination [OF sample_forward_run] by (auto simp: sample_row_def)

text \<open>
  C32. After a 429 or 503 with a Retry-After of \<open>n\<close> seconds the next attempt is scheduled \<open>n\<close> seconds
  later, for every \<open>n\<close> up to 9223372036; beyond that the product of 64-bit integers wraps around, and
  with 9223372037 the next attempt is scheduled in the past.
\<close>

theorem retry_after_honoured_until_overflow:
  assumes "c \<in> {429, 503}" and "atoi (header_get hdr ''Retry-After'') = Some n" and "0 < n"
  shows "(n \<le> 9223372036 \<longrightarrow> uw_next_retry_at (outcome now c line hdr u) = Some (now + n * second)) \<and>
    (n = 9223372037 \<longrightarrow> (\<exists>t. uw_next_retry_at (outcome now c line hdr u) = Some t \<and> t < now))"
  using assms by (auto simp: outcome_def setRateLimitedUpdateValues_def after_seconds_def wrap64_def Let_def)

theorem retry_after_honoured_until_overflow_witness:
  "\<exists>t. uw_next_retry_at (outcome 0 503 ''503'' [(''Retry-After'', [''9223372037''])] (sample_update 1 [])) = Some t \<and> t < 0"
proof -
  have "atoi (header_get [(''Retry-After'', [''9223372037''])] ''Retry-After'') = Some 9223372037" by code_simp
  from retry_after_honoured_until_overflow [OF _ this, of 503] show ?thesis by simp
qed

text \<open>
  Whatever the order in which the goroutines of a batch run, the batch yields one update for each
  of its events, in the order of the events, and makes at most one request per event.
\<close>

theorem batch_updates_every_event:
  "case forwardEvent fe sched hooks r of (ups, qs, r') \<Rightarrow>
     map (\<lambda>x. uw_id (the x)) ups = map wh_id hooks \<and> None \<notin> set ups \<and> length qs \<le> length hooks"
  using forwardEvent_updates [of fe sched hooks r] by (cases "forwardEvent fe sched hooks r") auto

section \<open>The loop does not stop\<close>

text \<open>
  C36. When there is nothing to claim, \<open>GetEvents\<close> returns the empty batch and no error, so the sentinel
  that ends the loop never arises: as long as no claim fails the loop goes on, whatever the number
  of rounds. It makes no request and changes nothing while there is nothing to claim.
\<close>

theorem idle_worker_spins:
  assumes "\<And>it. it \<in> set its \<Longrightarrow> cl_begin (it_claim it) = NoFault \<and> cl_query (it_claim it) = NoFault \<and> cl_commit (it_claim it) = NoFault"
    and "0 \<le> claim_limit bs k"
  shows "\<not> fst (run bs k its w) \<and>
    ((\<forall>it \<in> set its. list_all (\<lambda>x. \<not> claimable k (cl_now (it_claim it)) (wd_db w) x) (webhook_events (wd_db w))) \<longrightarrow>
      run bs k its w = (False, [], w))"
  using assms(1)
proof (induction its arbitrary: w)
  case (Cons it its)
  have ok: "\<exists>hooks d'. GetEvents bs k (it_claim it) (wd_db w) = (Ok hooks, d')"
    using Cons.prems [of it] assms(2) by (auto simp: GetEvents_Ok claim_stmt_def Let_def)
  then obtain w' qs where once: "run_once bs k it w = (True, qs, w')"
    by (fastforce simp: run_once_def getNext_def split: prod.splits res.splits)
  have idle: "run_once bs k it w = (True, [], w)"
    if "list_all (\<lambda>x. \<not> claimable k (cl_now (it_claim it)) (wd_db w) x) (webhook_events (wd_db w))"
  proof -
    have "filter (\<lambda>x. claimable k (cl_now (it_claim it)) (wd_db w) x \<and> P x) (webhook_events (wd_db w)) = []" for P
      using that by (auto simp: list_all_iff filter_empty_conv)
    then have "GetEvents bs k (it_claim it) (wd_db w) = (Ok [], wd_db w)"
      using Cons.prems [of it] assms(2)
      by (simp add: GetEvents_Ok claim_stmt_def Let_def claim_ids_def first_by_def returning_def update_where_def)
    then show ?thesis
      by (simp add: run_once_def getNext_def forwardEvent_def complete_schedule_def updateEvent_def UpdateEvents_def)
  qed
  have IH: "\<not> fst (run bs k its v) \<and>
      ((\<forall>it \<in> set its. list_all (\<lambda>x. \<not> claimable k (cl_now (it_claim it)) (wd_db v) x) (webhook_events (wd_db v))) \<longrightarrow>
        run bs k its v = (False, [], v))" for v
    by (rule Cons.IH, rule Cons.prems) simp
  have "\<not> fst (run bs k (it # its) w)" using IH [of w'] once by (simp add: split_beta)
  moreover have "run bs k (it # its) w = (False, [], w)"
    if "\<forall>it \<in> set (it # its). list_all (\<lambda>x. \<not> claimable k (cl_now (it_claim it)) (wd_db w) x) (webhook_events (wd_db w))"
    using IH [of w] idle that by simp
  ultimately show ?case by blast
qed simp

definition sample_iteration :: iteration where
  "sample_iteration = \<lparr>it_claim = sample_claim, it_forward = (\<lambda>i. sample_forward), it_schedule = [], it_write = sample_write\<rparr>"

theorem idle_worker_spins_witness:
  "run default_batches WorkerKindQueue [sample_iteration, sample_iteration, sample_iteration] (git_world []) = (False, [], git_world [])"
  using idle_worker_spins [of "[sample_iteration, sample_iteration, sample_iteration]" default_batches WorkerKindQueue "git_world []"]
  by (simp add: sample_iteration_def sample_claim_def default_batches_def git_world_parts)

end
