(* ===== verification/Workers.thy ===== *)
theory Workers
  imports WorkerService
begin

text \<open>
  The goroutines of \<^verbatim>\<open>internal/worker\<close>: the loops around \<open>run\<close> and \<open>runCleanup\<close> that wait for a
  ticker, for a signal or for the end of the context, and the pool that starts them.
\<close>

section \<open>The loops of the workers\<close>

text \<open>
  What wakes a worker, with the rounds that \<open>run\<close> makes then. A worker woken while \<open>run\<close> has not
  come to its end never gets back to waiting; the loop's first result says whether it has returned.
\<close>

datatype wake = SignalWake "iteration list" | TickWake "iteration list" | DoneWake

fun start :: "batch_sizes \<Rightarrow> wake list \<Rightarrow> world \<Rightarrow> bool \<times> http_request list \<times> world" where
  "start bs [] w = (False, [], w)"
| "start bs (DoneWake # ws) w = (True, [], w)"
| "start bs (TickWake its # ws) w =
     (case run bs WorkerKindQueue its w of
        (False, qs, w') \<Rightarrow> (False, qs, w')
      | (True, qs, w') \<Rightarrow> (case start bs ws w' of (fin, qss, w'') \<Rightarrow> (fin, qs @ qss, w'')))"
| "start bs (SignalWake its # ws) w =
     (case try_recv (wd_signal w) of
        None \<Rightarrow> start bs ws w
      | Some (_, c) \<Rightarrow>
          (case run bs WorkerKindQueue its (w\<lparr>wd_signal := c\<rparr>) of
             (False, qs, w') \<Rightarrow> (False, qs, w')
           | (True, qs, w') \<Rightarrow> (case start bs ws w' of (fin, qss, w'') \<Rightarrow> (fin, qs @ qss, w''))))"

text \<open>The retry and the replay worker wait for their ticker only.\<close>

fun start_ticking :: "kind \<Rightarrow> batch_sizes \<Rightarrow> wake list \<Rightarrow> world \<Rightarrow> bool \<times> http_request list \<times> world" where
  "start_ticking k bs [] w = (False, [], w)"
| "start_ticking k bs (DoneWake # ws) w = (True, [], w)"
| "start_ticking k bs (SignalWake its # ws) w = start_ticking k bs ws w"
| "start_ticking k bs (TickWake its # ws) w =
     (case run bs k its w of
        (False, qs, w') \<Rightarrow> (False, qs, w')
      | (True, qs, w') \<Rightarrow> (case start_ticking k bs ws w' of (fin, qss, w'') \<Rightarrow> (fin, qs @ qss, w'')))"

definition startRetry :: "batch_sizes \<Rightarrow> wake list \<Rightarrow> world \<Rightarrow> bool \<times> http_request list \<times> world" where
  "startRetry = start_ticking WorkerKindRetry"

definition startReplay :: "batch_sizes \<Rightarrow> wake list \<Rightarrow> world \<Rightarrow> bool \<times> http_request list \<times> world" where
  "startReplay = start_ticking WorkerKindReplay"

text \<open>The cleanup worker: \<open>None\<close> is the end of the context, \<open>Some\<close> a tick.\<close>

fun startCleanup :: "cleanup_env option list \<Rightarrow> world \<Rightarrow> bool \<times> world" where
  "startCleanup [] w = (False, w)"
| "startCleanup (None # cs) w = (True, w)"
| "startCleanup (Some cu # cs) w = startCleanup cs (w\<lparr>wd_db := runCleanup cu (wd_db w)\<rparr>)"

section \<open>The pool\<close>

text \<open>The goroutines that \<open>NewWorkerPool\<close> starts: one worker loop each, and the cleanup.\<close>

datatype goroutine = QueueLoop | RetryLoop | ReplayLoop | CleanupLoop

record pool =
  signal :: pool_signal
  goroutines :: "goroutine list"

definition NewWorkerPool :: pool where
  "NewWorkerPool =
     \<lparr>signal = new_signal,
      goroutines = replicate TotalQueueWorkers QueueLoop @ replicate TotalRetryWorkers RetryLoop @ [ReplayLoop, CleanupLoop]\<rparr>"

end
