(* ===== verification/System.thy ===== *)
theory System
  imports App Workers
begin

text \<open>
  The program as a whole. Its goroutines share the database, Redis, the hub and the pool's signal;
  what they do to these is a step relation whose steps are single statements, single critical
  sections of the hub and single channel operations, so that a run of it is an arbitrary
  interleaving of requests, workers, the batching goroutine and the cleanup.
\<close>

section \<open>Steps\<close>

inductive db_step :: "db \<Rightarrow> db \<Rightarrow> bool" where
  insert: "db_step d (snd (insert_stmt ie p d))"
| replay: "db_step d (snd (replay_stmt now i d))"
| claim: "db_step d (snd (claim_stmt bs k locked now d))"
| write_back: "db_step d (snd (batch_stmt k we us d))"
| configure: "db_step d (snd (configure_stmt i sec des mr mq d))"
| create_token: "db_step d (d\<lparr>refresh_tokens := snd (create_stmt i t ex iat (refresh_tokens d))\<rparr>)"
| delete_token: "db_step d (d\<lparr>refresh_tokens := filter (\<lambda>r. tk_token r \<noteq> t) (refresh_tokens d)\<rparr>)"

text \<open>The cleanup's statements are steps only where \<open>clean\<close> allows them.\<close>

inductive world_step :: "bool \<Rightarrow> world \<Rightarrow> world \<Rightarrow> bool" for clean where
  database: "db_step (wd_db w) d \<Longrightarrow> world_step clean w (w\<lparr>wd_db := d\<rparr>)"
| purge: "clean \<Longrightarrow> world_step clean w (w\<lparr>wd_db := snd (purge_stmt now (wd_db w))\<rparr>)"
| evict: "clean \<Longrightarrow> world_step clean w (w\<lparr>wd_db := snd (evict_stmt n (wd_db w))\<rparr>)"
| redis: "world_step clean w (w\<lparr>wd_redis := r\<rparr>)"
| hub: "world_step clean w (w\<lparr>wd_hub := snd (hub_step x (wd_hub w))\<rparr>)"
| notify: "world_step clean w (w\<lparr>wd_signal := Notify (wd_signal w)\<rparr>)"
| woken: "try_recv (wd_signal w) = Some (u, c) \<Longrightarrow> world_step clean w (w\<lparr>wd_signal := c\<rparr>)"

inductive_cases db_stepE: "db_step d d'"
inductive_cases world_stepE: "world_step clean w w'"

text \<open>A process starts on a database that satisfies its schema, with a new hub and a new pool.\<close>

definition initial :: "world \<Rightarrow> bool" where
  "initial w \<longleftrightarrow> schema_ok (wd_db w) \<and> wd_hub w = NewEventService \<and> wd_signal w = new_signal"

definition signal_ok :: "pool_signal \<Rightarrow> bool" where
  "signal_ok sig \<longleftrightarrow> chan_cap sig = TotalQueueWorkers \<and> chan_ok sig"

definition world_ok :: "world \<Rightarrow> bool" where
  "world_ok w \<longleftrightarrow> schema_ok (wd_db w) \<and> hub_ok (wd_hub w) \<and> signal_ok (wd_signal w)"

section \<open>The invariant\<close>

lemma schema_ok_tokens: "schema_ok d \<Longrightarrow> tokens_ok ts \<Longrightarrow> schema_ok (d\<lparr>refresh_tokens := ts\<rparr>)"
  by (simp add: schema_ok_def)

lemma schema_ok_tokens_ok: "schema_ok d \<Longrightarrow> tokens_ok (refresh_tokens d)"
  by (simp add: schema_ok_def)

lemma replay_stmt_schema: "schema_ok d \<Longrightarrow> schema_ok (snd (replay_stmt now i d))"
  using replayEvent_schema [of d NoFault now i] by (simp add: replayEvent_def)

lemma claim_stmt_schema: "schema_ok d \<Longrightarrow> schema_ok (snd (claim_stmt bs k locked now d))"
  by (auto simp: claim_stmt_def Let_def map_update_where intro: schema_ok_update)

lemma batch_stmt_schema: "schema_ok d \<Longrightarrow> schema_ok (snd (batch_stmt k we us d))"
  using batch_stmt_state [of k we us d] run_batch_rows [of k we us d]
  by (elim disjE) (simp_all add: schema_ok_same_rows [of d])

lemma create_stmt_tokens: "tokens_ok ts \<Longrightarrow> tokens_ok (snd (create_stmt i t ex iat ts))"
  using tokens_ok_create [of ts NoFault i t ex iat] by (simp add: Create_def)

lemma db_step_schema: "db_step d d' \<Longrightarrow> schema_ok d \<Longrightarrow> schema_ok d'"
  by (erule db_stepE)
    (simp_all add: insert_stmt_schema replay_stmt_schema claim_stmt_schema batch_stmt_schema configure_stmt_schema
      schema_ok_tokens create_stmt_tokens tokens_ok_filter schema_ok_tokens_ok)

lemma purge_stmt_schema: "schema_ok d \<Longrightarrow> schema_ok (snd (purge_stmt now d))"
  by (simp add: purge_stmt_def filter_schema)

lemma evict_stmt_schema: "schema_ok d \<Longrightarrow> schema_ok (snd (evict_stmt n d))"
  by (simp add: evict_stmt_def Let_def filter_schema)

lemma signal_ok_notify: "signal_ok sig \<Longrightarrow> signal_ok (Notify sig)"
  using Notify_wakes [of sig] by (simp add: signal_ok_def TotalQueueWorkers_def)

lemma signal_ok_recv: "signal_ok sig \<Longrightarrow> try_recv sig = Some (u, c) \<Longrightarrow> signal_ok c"
  by (auto simp: signal_ok_def chan_ok_def try_recv_def split: list.splits)

lemma world_step_ok: "world_step clean w w' \<Longrightarrow> world_ok w \<Longrightarrow> world_ok w'"
  by (erule world_stepE)
    (auto simp: world_ok_def db_step_schema purge_stmt_schema evict_stmt_schema hub_ok_step signal_ok_notify
      intro: signal_ok_recv)

lemma initial_ok: "initial w \<Longrightarrow> world_ok w"
  by (simp add: initial_def world_ok_def signal_ok_def hub_ok_new new_signal_def make_chan_def chan_ok_def)

interpretation system: invariant_system initial "world_step clean" world_ok for clean
  by unfold_locales (fact initial_ok, fact world_step_ok)

section \<open>Stored events stay\<close>

text \<open>Statements other than the cleanup's append rows and keep what identifies the rows there.\<close>

definition extends :: "world \<Rightarrow> world \<Rightarrow> bool" where
  "extends w w' \<longleftrightarrow> prefix (map identity (webhook_events (wd_db w))) (map identity (webhook_events (wd_db w')))"

lemma db_step_extends: "db_step d d' \<Longrightarrow> prefix (map identity (webhook_events d)) (map identity (webhook_events d'))"
proof (erule db_stepE)
  fix ie p assume "d' = snd (insert_stmt ie p d)"
  then show ?thesis by (cases rule: insert_stmt_cases [of ie p d]) simp_all
next
  fix k we us assume "d' = snd (batch_stmt k we us d)"
  then show ?thesis using batch_stmt_state [of k we us d] run_batch_rows [of k we us d] by auto
next
  fix bs k locked now assume "d' = snd (claim_stmt bs k locked now d)"
  then show ?thesis by (simp add: claim_stmt_identity)
qed (auto simp: replay_identity configure_stmt_def Let_def split: list.splits)

lemma world_step_extends: "world_step False w w' \<Longrightarrow> extends w w'"
  by (erule world_stepE) (auto simp: extends_def dest: db_step_extends)

section \<open>The operations as sequences of steps\<close>

abbreviation steps :: "bool \<Rightarrow> world \<Rightarrow> world \<Rightarrow> bool" where
  "steps clean \<equiv> (world_step clean)\<^sup>*\<^sup>*"

lemma steps_refl: "w' = w \<Longrightarrow> steps clean w w'"
  by simp

lemma steps_db: "db_step\<^sup>*\<^sup>* (wd_db w) d \<Longrightarrow> steps clean w (w\<lparr>wd_db := d\<rparr>)"
proof (induction rule: rtranclp_induct)
  case base
  show ?case by simp
next
  case (step d1 d2)
  have "world_step clean (w\<lparr>wd_db := d1\<rparr>) ((w\<lparr>wd_db := d1\<rparr>)\<lparr>wd_db := d2\<rparr>)"
    by (rule world_step.database) (simp add: step.hyps(2))
  with step.IH show ?case by simp
qed

lemma steps_redis: "steps clean w (w\<lparr>wd_redis := r\<rparr>)"
  by (blast intro: world_step.redis)

lemma steps_hub: "steps clean w (w\<lparr>wd_hub := hub_run ops (wd_hub w)\<rparr>)"
proof (induction ops arbitrary: w)
  case (Cons x ops)
  have "world_step clean w (w\<lparr>wd_hub := snd (hub_step x (wd_hub w))\<rparr>)" by (rule world_step.hub)
  also have "steps clean \<dots> (w\<lparr>wd_hub := hub_run (x # ops) (wd_hub w)\<rparr>)"
    using Cons.IH [of "w\<lparr>wd_hub := snd (hub_step x (wd_hub w))\<rparr>"] by simp
  finally show ?case .
qed simp

lemma call_steps: "R s (snd (stmt s)) \<Longrightarrow> R\<^sup>*\<^sup>* s (snd (call ft stmt s))"
  using call_state [of ft stmt s] by auto

lemma InsertWebhook_steps: "db_step\<^sup>*\<^sup>* d (snd (InsertWebhook ie p d))"
  unfolding InsertWebhook_state by (rule call_steps) (rule db_step.insert)

lemma provider_insert_steps: "db_step\<^sup>*\<^sup>* d (snd (provider_insert name sv so hdrs body i ev r d))"
  by (auto simp: provider_insert_def InsertWebhook_steps split: res.splits)

lemma GetEvents_steps: "db_step\<^sup>*\<^sup>* d (snd (GetEvents bs k ce d))"
  using GetEvents_state [of bs k ce d] by (auto intro: r_into_rtranclp [of db_step, OF db_step.claim])

lemma UpdateEvents_steps: "db_step\<^sup>*\<^sup>* d (snd (UpdateEvents k we us d))"
  by (auto simp: UpdateEvents_def intro!: call_steps db_step.write_back)

lemma replayEvent_steps: "db_step\<^sup>*\<^sup>* d (snd (replayEvent ft now i d))"
  unfolding replayEvent_def by (rule call_steps) (rule db_step.replay)

lemma Configure_steps: "db_step\<^sup>*\<^sup>* d (fst (snd (Configure ce i sec des mr mq d r)))"
proof -
  have "db_step\<^sup>*\<^sup>* d (snd (repo_configure ft u enc des mr mq d))" for ft u enc
    unfolding repo_configure_def by (rule call_steps) (rule db_step.configure)
  then have "repo_configure ft u enc des mr mq d = (x, d') \<Longrightarrow> db_step\<^sup>*\<^sup>* d d'" for ft u enc x d'
    by (metis snd_conv)
  then show ?thesis
    by (auto simp: Configure_def Let_def split: res.splits prod.splits)
qed

text \<open>Sessions.\<close>

lemma db_steps_tokens:
  assumes "(\<lambda>ts ts'. db_step (d\<lparr>refresh_tokens := ts\<rparr>) (d\<lparr>refresh_tokens := ts'\<rparr>))\<^sup>*\<^sup>* (refresh_tokens d) ts"
  shows "db_step\<^sup>*\<^sup>* d (d\<lparr>refresh_tokens := ts\<rparr>)"
  using assms by (induction rule: rtranclp_induct) (auto intro: rtranclp.rtrancl_into_rtrancl)

text \<open>One statement on the table of tokens.\<close>

inductive token_step :: "tokens \<Rightarrow> tokens \<Rightarrow> bool" where
  create: "token_step ts (snd (create_stmt i t ex iat ts))"
| delete: "token_step ts (filter (\<lambda>r. tk_token r \<noteq> t) ts)"

lemma token_step_db: "token_step ts ts' \<Longrightarrow> db_step (d\<lparr>refresh_tokens := ts\<rparr>) (d\<lparr>refresh_tokens := ts'\<rparr>)"
  using db_step.create_token [of "d\<lparr>refresh_tokens := ts\<rparr>"] db_step.delete_token [of "d\<lparr>refresh_tokens := ts\<rparr>"]
  by (auto elim: token_step.cases)

lemma token_steps_db: "token_step\<^sup>*\<^sup>* (refresh_tokens d) ts \<Longrightarrow> db_step\<^sup>*\<^sup>* d (d\<lparr>refresh_tokens := ts\<rparr>)"
  by (rule db_steps_tokens) (erule rtranclp_mono [THEN predicate2D, rotated], blast intro: token_step_db)

lemma Delete_token_steps: "token_step\<^sup>*\<^sup>* ts (snd (Delete ft t ts))"
  using Delete_state [of ft t ts] token_step.delete [of ts t] by auto

lemma Create_token_steps: "token_step\<^sup>*\<^sup>* ts (snd (Create ft i t ex iat ts))"
  unfolding Create_def by (rule call_steps) (rule token_step.create)

lemma issue_token_steps: "token_step\<^sup>*\<^sup>* ts (snd (issue_pair lib s env email ts))"
  by (cases rule: issue_pair_state [of lib s env email ts]) (simp_all add: Create_token_steps)

lemma rotate_token_steps: "token_step\<^sup>*\<^sup>* ts (snd (refresh_rotate lib s env t email ts))"
proof -
  obtain ts' where ts': "ts' = ts \<or> ts' = filter (\<lambda>r. tk_token r \<noteq> t) ts"
    and r: "snd (refresh_rotate lib s env t email ts) = ts' \<or>
      snd (refresh_rotate lib s env t email ts) = snd (issue_pair lib s env email ts')"
    using refresh_rotate_state [of ts t lib s env email] by blast
  from ts' have "token_step\<^sup>*\<^sup>* ts ts'" using token_step.delete [of ts t] by auto
  then show ?thesis using r issue_token_steps [of ts' lib s env email] by (auto intro: rtranclp_trans)
qed

lemma RefreshToken_token_steps: "token_step\<^sup>*\<^sup>* ts (snd (RefreshToken lib s env t ts))"
  using RefreshToken_state [of lib s env t ts] rotate_token_steps Delete_token_steps by auto

lemma Login_token_steps: "token_step\<^sup>*\<^sup>* ts (snd (Login lib s cr env email password ts))"
  by (simp add: Login_def issue_token_steps)

lemma login_state: "snd (login dec lib s cr secure env rq ts) = ts \<or>
    (\<exists>email password. snd (login dec lib s cr secure env rq ts) = snd (Login lib s cr env email password ts))"
  by (auto simp: login_def split: sum.splits prod.splits res.splits) (metis snd_conv)+

lemma login_token_steps: "token_step\<^sup>*\<^sup>* ts (snd (login dec lib s cr secure env rq ts))"
  using login_state [of dec lib s cr secure env rq ts] Login_token_steps by auto

lemma logout_token_steps: "token_step\<^sup>*\<^sup>* ts (snd (logout secure env rq ts))"
proof -
  have "snd (logout secure env rq ts) = ts \<or> (\<exists>t. snd (logout secure env rq ts) = snd (Delete (ae_delete env) t ts))"
    by (auto simp: logout_def DeleteRefreshToken_def split: option.splits prod.splits res.splits) (metis snd_conv)+
  then show ?thesis using Delete_token_steps by auto
qed

lemma refresh_token_steps: "token_step\<^sup>*\<^sup>* ts (snd (refresh_handler lib s secure env rq ts))"
proof -
  have "snd (refresh_handler lib s secure env rq ts) = ts \<or>
      (\<exists>t. snd (refresh_handler lib s secure env rq ts) = snd (RefreshToken lib s env t ts))"
    by (auto simp: refresh_handler_def split: option.splits prod.splits res.splits) (metis snd_conv)+
  then show ?thesis using RefreshToken_token_steps by auto
qed

lemma on_tokens_steps:
  assumes "token_step\<^sup>*\<^sup>* (refresh_tokens (wd_db w)) (snd (f (refresh_tokens (wd_db w))))"
  shows "steps clean w (snd (on_tokens f w))"
  using steps_db [OF token_steps_db [OF assms]] by (simp add: on_tokens_def split_beta)

text \<open>Webhooks: an insert, then the live feed and the signal.\<close>

lemma queued_steps:
  assumes "db_step\<^sup>*\<^sup>* (wd_db w) d"
  shows "steps clean w (snd (queued_reply hook i d w))"
proof -
  let ?w1 = "w\<lparr>wd_db := d\<rparr>"
  let ?w2 = "?w1\<lparr>wd_hub := snd (hub_step (OpSend hook) (wd_hub ?w1))\<rparr>"
  have "steps clean w ?w1" using assms by (rule steps_db)
  also have "world_step clean ?w1 ?w2" by (rule world_step.hub)
  also have "world_step clean ?w2 (?w2\<lparr>wd_signal := Notify (wd_signal ?w2)\<rparr>)" by (rule world_step.notify)
  also have "?w2\<lparr>wd_signal := Notify (wd_signal ?w2)\<rparr> = snd (queued_reply hook i d w)"
    by (simp add: queued_reply_def split_beta Let_def)
  finally show ?thesis .
qed

lemma ingests_steps:
  assumes "ingests name re rq auth seen own w out"
  shows "steps clean w (snd out)"
  using assms
proof cases
  case (failed hdrs e d)
  have "db_step\<^sup>*\<^sup>* (wd_db w) d"
    using provider_insert_steps [of "wd_db w" name "re_svc re" "re_store re" hdrs "rq_body rq" "fst own" "snd own" "wd_redis w"] failed(4)
    by simp
  then show ?thesis using failed(1) steps_db by (simp add: reply_def)
next
  case (queued hdrs hook d)
  have "db_step\<^sup>*\<^sup>* (wd_db w) d"
    using provider_insert_steps [of "wd_db w" name "re_svc re" "re_store re" hdrs "rq_body rq" "fst own" "snd own" "wd_redis w"] queued(4)
    by simp
  then show ?thesis using queued(1) queued_steps by simp
qed (simp_all add: reply_def)

text \<open>The other handlers.\<close>

lemma configure_steps:
  "steps clean w (w\<lparr>wd_db := fst (snd (configure_handler dec enc ce i rq (wd_db w) (wd_redis w))),
     wd_redis := snd (snd (configure_handler dec enc ce i rq (wd_db w) (wd_redis w)))\<rparr>)"
proof -
  let ?out = "configure_handler dec enc ce i rq (wd_db w) (wd_redis w)"
  have "snd ?out = (wd_db w, wd_redis w) \<or> (\<exists>sec des mr mq. snd ?out = snd (Configure ce i sec des mr mq (wd_db w) (wd_redis w)))"
    by (auto simp: configure_handler_def split: sum.splits prod.splits res.splits) (metis snd_conv)+
  then have "db_step\<^sup>*\<^sup>* (wd_db w) (fst (snd ?out))" using Configure_steps by auto
  then have "steps clean w (w\<lparr>wd_db := fst (snd ?out)\<rparr>)" by (rule steps_db)
  also have "steps clean \<dots> ((w\<lparr>wd_db := fst (snd ?out)\<rparr>)\<lparr>wd_redis := snd (snd ?out)\<rparr>)" by (rule steps_redis)
  finally show ?thesis by simp
qed

lemma replay_handler_steps: "db_step\<^sup>*\<^sup>* d (snd (replay_handler uuid_parse ft now i d))"
proof -
  have "snd (replay_handler uuid_parse ft now i d) = snd (ReplayEvent uuid_parse ft now i d)"
    by (auto simp: replay_handler_def split: prod.splits res.splits)
  then show ?thesis by (auto simp: ReplayEvent_def replayEvent_steps split: res.splits)
qed

lemma SSE_run:
  assumes "foreign_turns (next_sub s) turns"
  shows "\<exists>ops. snd (snd (snd (SSE enc io turns s))) = hub_run ops s"
proof -
  let ?ch = "next_sub s"
  obtain gs ret s2 where l: "sse_loop enc ?ch turns (snd (Subscribe s)) = (gs, ret, s2)" by (metis prod_cases3)
  from sse_loop_streams [OF assms l] obtain ops where "hub_run ops (snd (Subscribe s)) = s2"
    by (auto simp: streams_def)
  then have s2: "s2 = hub_run (OpSubscribe # ops) s" by (simp add: Subscribe_def Let_def)
  have un: "snd (hub_step (OpUnsub ?ch) s2) = snd (unsub ?ch s2)" by (auto split: prod.splits res.splits)
  have out: "snd (snd (snd (SSE enc io turns s))) = (if ret then snd (unsub ?ch s2) else s2)"
    using l by (auto simp: SSE_def Subscribe_def Let_def split: prod.splits)
  show ?thesis
  proof (cases ret)
    case True
    then have "snd (snd (snd (SSE enc io turns s))) = hub_run ((OpSubscribe # ops) @ [OpUnsub ?ch]) s"
      using out un s2 by (simp only: hub_run_append if_True) simp
    then show ?thesis by blast
  next
    case False
    then have "snd (snd (snd (SSE enc io turns s))) = hub_run (OpSubscribe # ops) s" using out s2 by (simp only: if_False)
    then show ?thesis by blast
  qed
qed

lemma handle_steps:
  assumes "rt = StreamRoute \<Longrightarrow> foreign_turns (next_sub (wd_hub w)) (ax_stream_turns ax)"
  shows "steps clean w (snd (handle ax rt rq w))"
proof (cases rt)
  case LoginRoute
  then show ?thesis by (simp add: on_tokens_steps login_token_steps)
next
  case LogoutRoute
  then show ?thesis by (simp add: on_tokens_steps logout_token_steps)
next
  case RefreshRoute
  then show ?thesis by (simp add: on_tokens_steps refresh_token_steps)
next
  case (WebhookRoute ep)
  then show ?thesis using ingests_steps [OF Receive_ingests] by (simp add: split_beta)
next
  case (ConfigureRoute i)
  then show ?thesis using configure_steps by (simp add: split_beta)
next
  case (ReplayRoute i)
  then show ?thesis using steps_db [OF replay_handler_steps] by (simp add: split_beta)
next
  case StreamRoute
  with SSE_run [OF assms] obtain ops where "snd (snd (snd (SSE (ax_events_enc ax) (ax_stream_io ax) (ax_stream_turns ax) (wd_hub w)))) =
      hub_run ops (wd_hub w)" by blast
  then show ?thesis using StreamRoute steps_hub [of clean w ops] by (simp add: split_beta)
qed simp_all

lemma serve_route_steps:
  assumes "rt = StreamRoute \<Longrightarrow> foreign_turns (next_sub (wd_hub w)) (ax_stream_turns ax)"
  shows "steps clean w (snd (serve_route ax rt rq w))"
proof (cases "behind_jwt rt \<and> \<not> signed_in ax rq")
  case True
  then show ?thesis using serve_refused [of rt ax rq w] by simp
next
  case False
  then have "serve_route ax rt rq w = handle ax rt rq w" by (auto simp: serve_route_def signed_in_def Jwt_admitted)
  then show ?thesis using handle_steps [OF assms] by simp
qed

text \<open>Workers.\<close>

lemma fold_send_run: "\<exists>ops. fold send hooks h = hub_run ops h"
proof (induction hooks arbitrary: h)
  case Nil
  show ?case by (rule exI [of _ "[]"]) simp
next
  case (Cons x xs)
  obtain ops where "fold send xs (send x h) = hub_run ops (send x h)" using Cons.IH by blast
  then have "fold send (x # xs) h = hub_run (OpSend x # ops) h" by (simp add: send_def split_beta Let_def)
  then show ?case by blast
qed

lemma getNext_steps: "db_step\<^sup>*\<^sup>* d (snd (getNext bs k ce d))"
proof -
  have "snd (getNext bs k ce d) = snd (GetEvents bs k ce d)" by (auto simp: getNext_def split: prod.splits res.splits)
  then show ?thesis by (simp add: GetEvents_steps)
qed

lemma run_once_steps: "steps clean w (snd (snd (run_once bs k it w)))"
proof -
  obtain g d1 where g: "getNext bs k (it_claim it) (wd_db w) = (g, d1)" by fastforce
  have d1: "db_step\<^sup>*\<^sup>* (wd_db w) d1" using getNext_steps [of "wd_db w" bs k "it_claim it"] g by simp
  show ?thesis
  proof (cases g)
    case (Ok hooks)
    obtain ups qs r1 where f: "forwardEvent (it_forward it) (it_schedule it) hooks (wd_redis w) = (ups, qs, r1)" by (metis prod_cases3)
    obtain u d2 where u: "updateEvent k (it_write it) (map the ups) d1 = (u, d2)" by fastforce
    have "db_step\<^sup>*\<^sup>* d1 d2" using UpdateEvents_steps [of d1 k "it_write it" "map the ups"] u by (simp add: updateEvent_def)
    with d1 have "db_step\<^sup>*\<^sup>* (wd_db w) d2" by (rule rtranclp_trans)
    then have "steps clean w (w\<lparr>wd_db := d2\<rparr>)" by (rule steps_db)
    also have "steps clean \<dots> ((w\<lparr>wd_db := d2\<rparr>)\<lparr>wd_redis := r1\<rparr>)" by (rule steps_redis)
    finally have base: "steps clean w (w\<lparr>wd_db := d2, wd_redis := r1\<rparr>)" by simp
    show ?thesis
    proof (cases u)
      case (Ok hs)
      obtain ops where ops: "fold send hs (wd_hub w) = hub_run ops (wd_hub w)" using fold_send_run by blast
      have "steps clean (w\<lparr>wd_db := d2, wd_redis := r1\<rparr>) (w\<lparr>wd_db := d2, wd_redis := r1, wd_hub := fold send hs (wd_hub w)\<rparr>)"
        unfolding ops using steps_hub [of clean "w\<lparr>wd_db := d2, wd_redis := r1\<rparr>" ops] by simp
      with base have "steps clean w (w\<lparr>wd_db := d2, wd_redis := r1, wd_hub := fold send hs (wd_hub w)\<rparr>)" by (rule rtranclp_trans)
      then show ?thesis using g \<open>g = Ok hooks\<close> f u Ok by (simp add: run_once_def)
    qed (use base g \<open>g = Ok hooks\<close> f u in \<open>simp_all add: run_once_def\<close>)
  qed (use steps_db [OF d1] g in \<open>simp_all add: run_once_def\<close>)
qed

lemma run_steps: "steps clean w (snd (snd (run bs k its w)))"
proof (induction its arbitrary: w)
  case (Cons it its)
  obtain b qs w' where o: "run_once bs k it w = (b, qs, w')" by (metis prod_cases3)
  have "steps clean w w'" using run_once_steps [of clean w bs k it] o by simp
  then show ?case using Cons.IH [of w'] o by (cases b) (auto split: prod.splits)
qed simp

text \<open>After some rounds that have ended, a worker goes back to waiting.\<close>

lemma run_then_steps:
  assumes "\<And>v. steps clean v (snd (snd (f v)))"
  shows "steps clean w (snd (snd (case run bs k its w of
      (False, qs, w') \<Rightarrow> (False, qs, w')
    | (True, qs, w') \<Rightarrow> (case f w' of (fin, qss, w'') \<Rightarrow> (fin, qs @ qss, w'')))))"
proof -
  obtain b qs w' where r: "run bs k its w = (b, qs, w')" by (metis prod_cases3)
  have "steps clean w w'" using run_steps [of clean w bs k its] r by simp
  moreover have "steps clean w' (snd (snd (f w')))" by (rule assms)
  ultimately show ?thesis using r by (cases b) (auto simp: split_beta)
qed

lemma start_steps: "steps clean w (snd (snd (start bs ws w)))"
proof (induction ws arbitrary: w)
  case (Cons x ws)
  show ?case
  proof (cases x)
    case (SignalWake its)
    show ?thesis
    proof (cases "try_recv (wd_signal w)")
      case None
      then show ?thesis using SignalWake Cons.IH by simp
    next
      case (Some a)
      then obtain u c where a: "try_recv (wd_signal w) = Some (u, c)" by (cases a) auto
      have "world_step clean w (w\<lparr>wd_signal := c\<rparr>)" using a by (rule world_step.woken)
      also have "steps clean \<dots> (snd (snd (start bs (x # ws) w)))"
        using run_then_steps [OF Cons.IH, of "w\<lparr>wd_signal := c\<rparr>"] SignalWake a by simp
      finally show ?thesis .
    qed
  next
    case (TickWake its)
    then show ?thesis using run_then_steps [OF Cons.IH] by simp
  qed simp
qed simp

lemma start_ticking_steps: "steps clean w (snd (snd (start_ticking k bs ws w)))"
proof (induction ws arbitrary: w)
  case (Cons x ws)
  then show ?case by (cases x) (simp_all add: run_then_steps)
qed simp

lemma runCleanup_steps: "steps True w (w\<lparr>wd_db := runCleanup cu (wd_db w)\<rparr>)"
proof -
  let ?w = "\<lambda>d. w\<lparr>wd_db := d\<rparr>"
  obtain r d1 where c: "call (cu_purge cu) (purge_stmt (cu_now cu)) (wd_db w) = (r, d1)" by fastforce
  have "d1 = wd_db w \<or> d1 = snd (purge_stmt (cu_now cu) (wd_db w))"
    using call_state [of "cu_purge cu" "purge_stmt (cu_now cu)" "wd_db w"] c by simp
  then have first: "steps True w (?w d1)" using world_step.purge [of True w "cu_now cu"] by auto
  have "runCleanup cu (wd_db w) = d1 \<or> (\<exists>n. runCleanup cu (wd_db w) = snd (call (cu_evict cu) (evict_stmt n) d1))"
    using c by (auto simp: runCleanup_def split: res.splits)
  then have "runCleanup cu (wd_db w) = d1 \<or> (\<exists>n. runCleanup cu (wd_db w) = snd (evict_stmt n d1))"
    using call_state [of "cu_evict cu" _ d1] by (metis insertE singletonD)
  then have "steps True (?w d1) (?w (runCleanup cu (wd_db w)))"
    using world_step.evict [of True "?w d1"] by auto
  with first show ?thesis by (rule rtranclp_trans)
qed

lemma startCleanup_steps: "steps True w (snd (startCleanup cs w))"
proof (induction cs w rule: startCleanup.induct)
  case (3 cu cs w)
  show ?case using rtranclp_trans [OF runCleanup_steps 3] by simp
qed simp_all

section \<open>Properties\<close>

text \<open>
  C8. The invariant of the running program. However its goroutines interleave, statement by
  statement, the database keeps the constraints of its schema, the hub its bounds, and at most as
  many wake-ups wait for the queue workers as there are workers.
\<close>

theorem reachable_world_ok:
  assumes "initial w" and "(world_step True)\<^sup>*\<^sup>* w w'"
  shows "schema_ok (wd_db w') \<and> hub_ok (wd_hub w') \<and> length (chan_buf (wd_signal w')) \<le> TotalQueueWorkers"
  using system.reachable_inv [OF assms] by (simp add: world_ok_def signal_ok_def chan_ok_def)

text \<open>
  C4. Between two runs of the cleanup no event is lost or altered: whatever requests, workers and the
  live feed do, the events stored before are stored afterwards, in their places, with the same id,
  provider, event id and type, headers, payload and times of arrival; new events come after them.
\<close>

theorem stored_events_stay:
  assumes "initial w" and "(world_step True)\<^sup>*\<^sup>* w u" and "(world_step False)\<^sup>*\<^sup>* u v"
  shows "\<exists>new. map identity (webhook_events (wd_db v)) = map identity (webhook_events (wd_db u)) @ new"
proof -
  have "world_ok u" by (rule system.reachable_inv [OF assms(1,2)])
  with assms(3) have "extends u v"
    by (rule system.steps_mono) (auto simp: extends_def intro: prefix_order.trans world_step_extends [unfolded extends_def])
  then show ?thesis by (auto simp: extends_def prefix_def)
qed

text \<open>
  C7. Every operation of the program is a sequence of the steps of the relation, so that what is
  invariant under the steps is invariant under any interleaving of the operations: a request to any
  route (of the stream, other goroutines do not end the client's subscription), the loops of the
  queue, retry and replay workers, and, with the cleanup's own statements, the cleanup.
\<close>

theorem operations_are_steps:
  assumes "rt = StreamRoute \<Longrightarrow> foreign_turns (next_sub (wd_hub w)) (ax_stream_turns ax)"
  shows "(world_step False)\<^sup>*\<^sup>* w (snd (serve_route ax rt rq w)) \<and>
    (world_step False)\<^sup>*\<^sup>* w (snd (snd (start bs ws w))) \<and>
    (world_step False)\<^sup>*\<^sup>* w (snd (snd (startRetry bs ws w))) \<and>
    (world_step False)\<^sup>*\<^sup>* w (snd (snd (startReplay bs ws w))) \<and>
    (world_step True)\<^sup>*\<^sup>* w (snd (startCleanup cs w))"
  using serve_route_steps [OF assms] start_steps start_ticking_steps startCleanup_steps
  by (simp add: startRetry_def startReplay_def)

lemma git_world_initial: "initial (git_world [])"
  by (simp add: initial_def git_world_def schema_ok_def)

theorem operations_are_steps_witness:
  "(world_step False)\<^sup>*\<^sup>* (git_world []) (snd (serve_route sample_app (WebhookRoute GitEndpoint) (git_request ''d'') (git_world [])))"
  using operations_are_steps [of "WebhookRoute GitEndpoint" "git_world []" sample_app] by simp

lemma sample_delivery_reachable:
  "(world_step clean)\<^sup>*\<^sup>* (git_world []) (snd (serve_route sample_app (WebhookRoute GitEndpoint) (git_request ''d'') (git_world [])))"
  by (rule serve_route_steps) simp

theorem reachable_world_ok_witness:
  "schema_ok (wd_db (snd (serve_route sample_app (WebhookRoute GitEndpoint) (git_request ''d'') (git_world []))))"
  using reachable_world_ok [OF git_world_initial sample_delivery_reachable] by blast

theorem stored_events_stay_witness:
  "\<exists>new. map identity (webhook_events (wd_db (snd (serve_route sample_app LogoutRoute sample_request
       (snd (serve_route sample_app (WebhookRoute GitEndpoint) (git_request ''d'') (git_world []))))))) =
     map identity (webhook_events (wd_db (snd (serve_route sample_app (WebhookRoute GitEndpoint) (git_request ''d'') (git_world []))))) @ new"
  by (rule stored_events_stay [OF git_world_initial sample_delivery_reachable]) (rule serve_route_steps, simp)

end
