(* ===== verification/Startup.thy ===== *)
theory Startup
  imports System
begin

text \<open>
  How the program comes up: \<^verbatim>\<open>internal/cache/cache.go\<close> (the Redis client), \<^verbatim>\<open>internal/config/logger.go\<close> and
  \<^verbatim>\<open>New\<close> of \<^verbatim>\<open>internal/app/app.go\<close>, which runs once in a fresh process and panics at the first failure;
  then \<^verbatim>\<open>Run\<close> and the \<^verbatim>\<open>main\<close> of \<^verbatim>\<open>cmd/api\<close>.
\<close>

section \<open>Singletons\<close>

text \<open>
  \<open>NewCache\<close>: \<open>parse\<close> is \<^verbatim>\<open>redis.ParseURL\<close>, \<open>ping\<close> the outcome of the ping. Both singletons below are
  guarded by a \<^verbatim>\<open>sync.Once\<close>: the pair is whether the guard has fired and what was created.
\<close>

definition NewCache :: "(string \<Rightarrow> go_error + 'client) \<Rightarrow> driver_error option \<Rightarrow> string \<Rightarrow> go_error + 'client" where
  "NewCache parse ping url =
     (case parse url of
        Inl e \<Rightarrow> Inl e
      | Inr client \<Rightarrow> (case ping of Some e \<Rightarrow> Inl (Driver e) | None \<Rightarrow> Inr client))"

definition InitRedisCache ::
  "(string \<Rightarrow> go_error + 'client) \<Rightarrow> driver_error option \<Rightarrow> string \<Rightarrow> bool \<times> 'client option \<Rightarrow> go_error option \<times> bool \<times> 'client option" where
  "InitRedisCache parse ping url st =
     (case st of (once, client) \<Rightarrow>
        if once then (None, once, client)
        else case NewCache parse ping url of
          Inl e \<Rightarrow> (Some e, True, client)
        | Inr c \<Rightarrow> (None, True, Some c))"

text \<open>\<open>GetCache\<close> hands out the client.\<close>

definition GetCache :: "bool \<times> 'client option \<Rightarrow> 'client option" where
  "GetCache st = snd st"

text \<open>The fields of the logger that depend on the build and the settings.\<close>

record 'level zlogger =
  lg_level :: 'level
  lg_git_revision :: string
  lg_go_version :: string

record build_info =
  bi_go_version :: string
  bi_settings :: "(string \<times> string) list"

definition NewLogger ::
  "build_info option \<Rightarrow> 'level config \<Rightarrow> bool \<times> 'level zlogger option \<Rightarrow> (go_error option \<times> 'level zlogger option) \<times> bool \<times> 'level zlogger option" where
  "NewLogger info c st =
     (case st of (once, lg) \<Rightarrow>
        if once then ((None, lg), once, lg)
        else case info of
          None \<Rightarrow> ((Some (LibError ''unable to read buildInfo''), lg), True, lg)
        | Some b \<Rightarrow>
            (let l = \<lparr>lg_level = LogLevel c,
                      lg_git_revision = (case map_of (bi_settings b) ''vcs.revision'' of Some v \<Rightarrow> v | None \<Rightarrow> []),
                      lg_go_version = bi_go_version b\<rparr>
             in ((None, Some l), True, Some l)))"

section \<open>Starting the program\<close>

text \<open>What the process finds: its environment, the machine, and the outcomes of its first calls.\<close>

record ('level, 'cfg, 'pool, 'client) startup_env =
  su_getenv :: "string \<Rightarrow> string"
  su_parse_level :: "string \<Rightarrow> 'level option"
  su_cpus :: int
  su_pg_parse :: "string \<Rightarrow> go_error + 'cfg"
  su_pg_connect :: "'cfg \<Rightarrow> int \<Rightarrow> go_error + 'pool"
  su_pg_ping :: "driver_error option"
  su_build :: "build_info option"
  su_redis_parse :: "string \<Rightarrow> go_error + 'client"
  su_redis_ping :: "driver_error option"
  su_codec :: codec
  su_db_fault :: fault
  su_redis_fault :: fault

record ('level, 'pool) app =
  app_config :: "'level config"
  app_db :: 'pool
  app_auth :: auth_service
  app_batches :: batch_sizes
  app_pool :: pool
  app_world :: world

definition New ::
  "('level, 'cfg, 'pool, 'client) startup_env \<Rightarrow> db \<Rightarrow> redis \<Rightarrow> ('level, 'pool) app res" where
  "New su d r =
     (case initConfig (su_parse_level su) (su_getenv su) of
        Err e \<Rightarrow> Panic
      | Panic \<Rightarrow> Panic
      | Ok cfg \<Rightarrow>
     (let res = ComputeResources (su_cpus su);
          bs = SetWorkerBatchSizes (QueueBatch res) (RetryBatch res) default_batches
      in case fst (NewPG (su_pg_parse su) (su_pg_connect su) cfg (DBMaxConns res) \<lparr>pg_once = False, pg_instance = None\<rparr>) of
        (_, Some e) \<Rightarrow> Panic
      | (None, None) \<Rightarrow> Panic
      | (Some pool, None) \<Rightarrow>
     (if su_pg_ping su \<noteq> None then Panic
      else case fst (NewLogger (su_build su) cfg (False, None)) of
        (Some e, _) \<Rightarrow> Panic
      | (None, lg) \<Rightarrow>
     (case InitRedisCache (su_redis_parse su) (su_redis_ping su) (RedisURL cfg) (False, None) of
        (Some e, _) \<Rightarrow> Panic
      | (None, client) \<Rightarrow>
     (case InitProviderCache (su_codec su) (su_db_fault su) (su_redis_fault su) d False r of
        (Ok _, _, r') \<Rightarrow>
          Ok \<lparr>app_config = cfg, app_db = pool,
              app_auth = NewAuthService (JWTSecret cfg) AccessTokenTTL RefreshTokenTTL,
              app_batches = bs, app_pool = NewWorkerPool,
              app_world = \<lparr>wd_db = d, wd_redis = r', wd_hub = NewEventService, wd_signal = signal NewWorkerPool\<rparr>\<rparr>
      | _ \<Rightarrow> Panic)))))"

section \<open>Running it\<close>

text \<open>
  The two contexts that \<open>New\<close> creates, the application's and below it the workers'. \<open>Run\<close> defers both
  cancellations and serves until \<^verbatim>\<open>ListenAndServe\<close> returns, with \<open>served\<close>. A fatal log entry ends the
  process through \<^verbatim>\<open>os.Exit(1)\<close>, which does not run deferred calls; a panic that reaches \<open>main\<close>
  ends it with status 2.
\<close>

record lifecycle =
  app_cancelled :: bool
  workers_cancelled :: bool

definition cancelApp :: "lifecycle \<Rightarrow> lifecycle" where
  "cancelApp lc = lc\<lparr>app_cancelled := True, workers_cancelled := True\<rparr>"

definition cancelWorkers :: "lifecycle \<Rightarrow> lifecycle" where
  "cancelWorkers lc = lc\<lparr>workers_cancelled := True\<rparr>"

datatype ending = Returns | Exits nat

definition Run :: "go_error option \<Rightarrow> lifecycle \<Rightarrow> ending \<times> lifecycle" where
  "Run served lc =
     (case served of
        Some err \<Rightarrow> (Exits 1, lc)
      | None \<Rightarrow> (Returns, cancelWorkers (cancelApp lc)))"

definition main ::
  "('level, 'cfg, 'pool, 'client) startup_env \<Rightarrow> go_error option \<Rightarrow> db \<Rightarrow> redis \<Rightarrow> ending \<times> lifecycle option" where
  "main su served d r =
     (case New su d r of
        Ok application \<Rightarrow> (case Run served \<lparr>app_cancelled = False, workers_cancelled = False\<rparr> of (e, lc) \<Rightarrow> (e, Some lc))
      | _ \<Rightarrow> (Exits 2, None))"

text \<open>
  \<^verbatim>\<open>ListenAndServe\<close> always returns an error, so the contexts are never cancelled: a server that stops
  takes the workers down with the process instead of shutting them down.
\<close>

lemma stops_without_cancelling:
  assumes "served \<noteq> None" and "New su d r = Ok a"
  shows "main su served d r = (Exits 1, Some \<lparr>app_cancelled = False, workers_cancelled = False\<rparr>)"
  using assms by (auto simp: main_def Run_def)

section \<open>What holds when the program is up\<close>

lemma New_cases:
  assumes "New su d r = Ok a"
  obtains cfg r' where "initConfig (su_parse_level su) (su_getenv su) = Ok cfg" "app_config a = cfg"
    "app_auth a = NewAuthService (JWTSecret cfg) AccessTokenTTL RefreshTokenTTL"
    "app_batches a = SetWorkerBatchSizes (QueueBatch (ComputeResources (su_cpus su))) (RetryBatch (ComputeResources (su_cpus su))) default_batches"
    "InitProviderCache (su_codec su) (su_db_fault su) (su_redis_fault su) d False r = (Ok (), True, r')"
    "app_world a = \<lparr>wd_db = d, wd_redis = r', wd_hub = NewEventService, wd_signal = new_signal\<rparr>"
  using assms
  by (auto simp: New_def InitProviderCache_def Let_def NewWorkerPool_def split: res.splits prod.splits option.splits if_splits)

lemma load_cache_Ok:
  assumes "load_cache c what dbf rf d r = (Ok u, r')"
  shows "dbf = NoFault \<and> rf = NoFault \<and> provider_rows d \<noteq> [] "
  using assms
  by (cases dbf; cases rf; cases "provider_rows d")
    (auto simp: load_cache_def repo_get_all_def ask_def call_def Mset_def split: res.splits if_splits)

lemma initConfig_secret: "initConfig parse_level getenv = Ok cfg \<Longrightarrow> JWTSecret cfg \<noteq> []"
  by (auto simp: initConfig_def res_bind_Ok_iff getEnvString_def split: if_splits)

text \<open>
  C29. When \<open>New\<close> returns, the program is ready to serve: its state is an initial one, so that all that
  it reaches from there satisfies the invariant; the provider cache agrees with the table; every kind
  of worker claims at least one event at a time; tokens are signed with a non-empty secret and live
  for ten minutes and for a day.
\<close>

theorem new_app_ready:
  assumes "New su d r = Ok a" and "schema_ok d" and "list_all (codec_ok (su_codec su)) (provider_rows d)"
  shows "initial (app_world a) \<and> (\<forall>w'. (world_step True)\<^sup>*\<^sup>* (app_world a) w' \<longrightarrow> world_ok w') \<and>
    coherent (su_codec su) d (wd_redis (app_world a)) \<and> (\<forall>k. 0 < claim_limit (app_batches a) k) \<and>
    jwtSecret (app_auth a) \<noteq> [] \<and> accessTokenTTL (app_auth a) = 600 * second \<and> refreshTokenTTL (app_auth a) = 86400 * second"
proof -
  obtain cfg r' where cfg: "initConfig (su_parse_level su) (su_getenv su) = Ok cfg"
    and auth: "app_auth a = NewAuthService (JWTSecret cfg) AccessTokenTTL RefreshTokenTTL"
    and bs: "app_batches a = SetWorkerBatchSizes (QueueBatch (ComputeResources (su_cpus su))) (RetryBatch (ComputeResources (su_cpus su))) default_batches"
    and cache: "InitProviderCache (su_codec su) (su_db_fault su) (su_redis_fault su) d False r = (Ok (), True, r')"
    and w: "app_world a = \<lparr>wd_db = d, wd_redis = r', wd_hub = NewEventService, wd_signal = new_signal\<rparr>"
    using New_cases [OF assms(1)] by metis
  have load: "load_cache (su_codec su) ''insertion'' (su_db_fault su) (su_redis_fault su) d r = (Ok (), r')"
    using cache by (auto simp: InitProviderCache_def Let_def split: prod.splits)
  note ok = load_cache_Ok [OF load]
  have "coherent (su_codec su) d r'"
    using load_cache_coherent [of "su_codec su" d "''insertion''" r] load assms(2,3) ok by auto
  moreover have init: "initial (app_world a)" using assms(2) by (simp add: initial_def w)
  moreover have "world_ok w'" if "(world_step True)\<^sup>*\<^sup>* (app_world a) w'" for w'
    by (rule system.reachable_inv [OF init that])
  moreover have "0 < claim_limit (app_batches a) k" for k
    using batch_bounds [of "su_cpus su"]
    by (cases k) (simp_all add: bs SetWorkerBatchSizes_def minQueueBatch_def minRetryBatch_def ReplayWorkerBatch_def)
  moreover have "jwtSecret (app_auth a) \<noteq> []" using initConfig_secret [OF cfg] by (simp add: auth NewAuthService_def)
  moreover have "accessTokenTTL (app_auth a) = 600 * second" "refreshTokenTTL (app_auth a) = 86400 * second"
    by (simp_all add: auth NewAuthService_def AccessTokenTTL_def RefreshTokenTTL_def)
  ultimately show ?thesis using w by simp
qed

definition sample_startup :: "(unit, unit, unit, unit) startup_env" where
  "sample_startup = \<lparr>su_getenv = (\<lambda>x. ''1''), su_parse_level = (\<lambda>s. Some ()), su_cpus = 4, su_pg_parse = (\<lambda>s. Inr ()),
     su_pg_connect = (\<lambda>c n. Inr ()), su_pg_ping = None, su_build = Some \<lparr>bi_go_version = ''go1.25'', bi_settings = []\<rparr>,
     su_redis_parse = (\<lambda>s. Inr ()), su_redis_ping = None,
     su_codec = \<lparr>marshal = (\<lambda>p. Ok ''x''), unmarshal = (\<lambda>b. Some sample_provider)\<rparr>, su_db_fault = NoFault, su_redis_fault = NoFault\<rparr>"

theorem new_app_ready_witness:
  "\<exists>a. New sample_startup sample_db \<lparr>kv = Map.empty, buckets = Map.empty\<rparr> = Ok a \<and>
     initial (app_world a) \<and> accessTokenTTL (app_auth a) = 600 * second"
proof -
  have d: "schema_ok sample_db" "list_all (codec_ok (su_codec sample_startup)) (provider_rows sample_db)" "provider_rows sample_db \<noteq> []"
    by (simp_all add: schema_ok_def sample_db_def codec_ok_def sample_startup_def)
  obtain r' where l: "load_cache (su_codec sample_startup) ''insertion'' NoFault NoFault sample_db \<lparr>kv = Map.empty, buckets = Map.empty\<rparr> = (Ok (), r')"
    using load_cache_coherent [OF d(2,3,1)] by blast
  have "is_ok (initConfig (su_parse_level sample_startup) (su_getenv sample_startup))"
    unfolding initConfig_Ok_iff by code_simp
  then obtain cfg where c: "initConfig (su_parse_level sample_startup) (su_getenv sample_startup) = Ok cfg" by (auto simp: is_ok_iff)
  have pg: "fst (NewPG (su_pg_parse sample_startup) (su_pg_connect sample_startup) cfg n \<lparr>pg_once = False, pg_instance = None\<rparr>) = (Some (), None)" for n
    by (simp add: sample_startup_def NewPG_def)
  have lg: "\<exists>x. fst (NewLogger (su_build sample_startup) cfg (False, None)) = (None, x)"
    by (simp add: sample_startup_def NewLogger_def Let_def)
  have rc: "InitRedisCache (su_redis_parse sample_startup) (su_redis_ping sample_startup) (RedisURL cfg) (False, None) = (None, True, Some ())"
    by (simp add: sample_startup_def NewCache_def InitRedisCache_def)
  have f: "su_pg_ping sample_startup = None" "su_db_fault sample_startup = NoFault" "su_redis_fault sample_startup = NoFault"
    by (simp_all add: sample_startup_def)
  have ic: "InitProviderCache (su_codec sample_startup) NoFault NoFault sample_db False \<lparr>kv = Map.empty, buckets = Map.empty\<rparr> = (Ok (), True, r')"
    by (simp add: InitProviderCache_def l)
  have "\<exists>a. New sample_startup sample_db \<lparr>kv = Map.empty, buckets = Map.empty\<rparr> = Ok a"
    using lg by (auto simp: New_def c Let_def pg rc f ic)
  then show ?thesis using new_app_ready [OF _ d(1,2)] by blast
qed

end
