(* ===== verification/Delivery.thy ===== *)
theory Delivery
  imports WorkerService
begin

text \<open>
  One whole round of a worker, from the claim over the attempts to the write-back: what becomes of
  every event it could claim.
\<close>

section \<open>What an attempt should leave behind\<close>

text \<open>
  What the cache and the limiter say to each event of a batch, in the order of the schedule: nothing
  when the provider is not to be had from the cache, and otherwise the provider with the limiter's
  answer.
\<close>

definition limiter_answer :: "forward_env \<Rightarrow> webhook \<Rightarrow> redis \<Rightarrow> (provider \<times> bool res) option \<times> redis" where
  "limiter_answer fe hook r =
     (case cache_get (fe_codec fe) (fe_get_fault fe) (provider_name hook) r of
        Ok prov \<Rightarrow> (case Allow (fe_allow fe) prov r of (a, r') \<Rightarrow> (Some (prov, a), r'))
      | _ \<Rightarrow> (None, r))"

fun limiter_answers ::
  "(nat \<Rightarrow> forward_env) \<Rightarrow> webhook list \<Rightarrow> nat list \<Rightarrow> redis \<Rightarrow> (nat \<times> (provider \<times> bool res) option) list" where
  "limiter_answers fe hooks [] r = []"
| "limiter_answers fe hooks (i # is) r =
     (case limiter_answer (fe i) (hooks ! i) r of (a, r') \<Rightarrow> (i, a) # limiter_answers fe hooks is r')"

text \<open>A row that is to be tried again after the usual interval.\<close>

definition try_again :: "forward_env \<Rightarrow> write_env \<Rightarrow> webhook \<Rightarrow> bool" where
  "try_again fe we y \<longleftrightarrow> status y = Failed \<and> last_error y \<noteq> None \<and>
     next_retry_at y = Some (we_timestamp we (after_seconds (fe_now fe) RetryIntervalSeconds))"

definition retry_time :: "forward_env \<Rightarrow> header \<Rightarrow> time" where
  "retry_time fe hdr =
     (case atoi (header_get hdr ''Retry-After'') of
        Some n \<Rightarrow> after_seconds (fe_now fe) (if 0 < n then n else RetryIntervalSeconds)
      | None \<Rightarrow> after_seconds (fe_now fe) RetryIntervalSeconds)"

text \<open>The row after an answer: delivered, scheduled again, or failed for good.\<close>

definition recorded :: "forward_env \<Rightarrow> write_env \<Rightarrow> http_result \<Rightarrow> webhook \<Rightarrow> bool" where
  "recorded fe we res y \<longleftrightarrow>
     (case res of
        TransportError e \<Rightarrow> try_again fe we y \<and> response_code y = None
      | Response c line hdr \<Rightarrow> response_code y = Some c \<and>
          (if 200 \<le> c \<and> c < 300 then status y = Delivered \<and> next_retry_at y = None \<and> last_error y = None
           else if c = 429 \<or> c = 503
             then status y = Failed \<and> last_error y \<noteq> None \<and> next_retry_at y = Some (we_timestamp we (retry_time fe hdr))
           else if c < 500 then status y = Failed \<and> last_error y \<noteq> None \<and> next_retry_at y = None
           else try_again fe we y))"

text \<open>
  The request that is due for an event: one when the provider was there, the limiter allowed the
  attempt, and the destination and the stored headers make a request.
\<close>

definition due_request :: "forward_env \<Rightarrow> (provider \<times> bool res) option \<Rightarrow> webhook \<Rightarrow> http_request option" where
  "due_request fe ans x =
     (case ans of
        Some (prov, Ok True) \<Rightarrow>
          (case (fe_new_request fe (destination_url prov), forward_headers (provider_name x) (fe_unmarshal_headers fe) (headers x)) of
             (None, Ok h) \<Rightarrow> Some \<lparr>hr_url = destination_url prov, hr_header = h, hr_body = payload x\<rparr>
           | _ \<Rightarrow> None)
      | _ \<Rightarrow> None)"

text \<open>
  The event \<open>x\<close> has become the row \<open>y\<close>: a request that was due has been made, and its answer is
  recorded; without one the event is to be tried again.
\<close>

definition settled ::
  "forward_env \<Rightarrow> write_env \<Rightarrow> http_request list \<Rightarrow> (provider \<times> bool res) option \<Rightarrow> webhook \<Rightarrow> webhook \<Rightarrow> bool" where
  "settled fe we qs ans x y \<longleftrightarrow>
     (case due_request fe ans x of
        Some req \<Rightarrow> req \<in> set qs \<and> forwarded_to y = hr_url req \<and> recorded fe we (fe_do fe req) y
      | None \<Rightarrow> try_again fe we y)"

lemma settled_more: "settled fe we qs ans x y \<Longrightarrow> set qs \<subseteq> set qs' \<Longrightarrow> settled fe we qs' ans x y"
  by (auto simp: settled_def split: option.splits)

lemma settled_set_status [simp]: "settled fe we qs ans (set_status now st x) y = settled fe we qs ans x y"
proof -
  have "provider_name (set_status now st x) = provider_name x" "headers (set_status now st x) = headers x"
    "payload (set_status now st x) = payload x" by (simp_all add: set_status_def touch_def)
  then show ?thesis unfolding settled_def due_request_def by metis
qed

section \<open>Every attempt leaves that behind\<close>

text \<open>A destination that gives final answers: no informational status and no redirect.\<close>

definition final_answers :: "forward_env \<Rightarrow> bool" where
  "final_answers fe \<longleftrightarrow> (\<forall>req. case fe_do fe req of Response c line hdr \<Rightarrow> (200 \<le> c \<and> c < 300) \<or> 400 \<le> c | TransportError e \<Rightarrow> True)"

text \<open>The row that an update makes of a row, when the update is valid.\<close>

definition written :: "kind \<Rightarrow> write_env \<Rightarrow> update_webhook \<Rightarrow> webhook \<Rightarrow> webhook" where
  "written k we u w = apply_update k we (the (enum_in (uw_delivery_status u))) (the (uw_forwarded_to u)) u w"

lemma written_parts [simp]:
  "status (written k we u w) = the (enum_in (uw_delivery_status u))" "response_code (written k we u w) = uw_response_code u"
  "last_error (written k we u w) = uw_last_error u" "forwarded_to (written k we u w) = the (uw_forwarded_to u)"
  "next_retry_at (written k we u w) = map_option (we_timestamp we) (uw_next_retry_at u)"
  "retry_count (written k we u w) = (if k = WorkerKindRetry then retry_count w + 1 else retry_count w)"
  "wh_id (written k we u w) = wh_id w" "identity (written k we u w) = identity w"
  by (simp_all add: written_def apply_update_def touch_def identity_def)

lemma try_again_default: "try_again fe we (written k we (setDefaultUpdateValues (fe_now fe) e u) w)"
  by (simp add: try_again_def setDefaultUpdateValues_def)

lemma recorded_outcome:
  assumes "(200 \<le> c \<and> c < 300) \<or> 400 \<le> c"
  shows "recorded fe we (Response c line hdr) (written k we (outcome (fe_now fe) c line hdr u) w)"
  using assms by (auto simp: recorded_def outcome_def update_values try_again_def retry_time_def split: option.splits)

lemma try_again_limited: "try_again fe we (written k we (setRateLimitedUpdateValues (fe_now fe) c e [] u) w)"
proof -
  have "atoi [] = None" by code_simp
  then show ?thesis by (simp add: try_again_def setRateLimitedUpdateValues_def)
qed

text \<open>One attempt, by the answer of the limiter and the request that is due.\<close>

lemma forward_one_by_answer:
  assumes "limiter_answer fe hook r = (ans, r1)" and "forward_one fe hook r = (u, q, r')"
  shows "r' = r1 \<and> q = due_request fe ans hook \<and>
    (case q of
       Some req \<Rightarrow> (case fe_do fe req of
           TransportError e \<Rightarrow> u = setDefaultUpdateValues (fe_now fe) e (new_update hook (hr_url req))
         | Response c line hdr \<Rightarrow> u = outcome (fe_now fe) c line hdr (new_update hook (hr_url req)))
     | None \<Rightarrow> (\<exists>e fwd. u = setDefaultUpdateValues (fe_now fe) e (new_update hook fwd)) \<or>
         (\<exists>e fwd. u = setRateLimitedUpdateValues (fe_now fe) 429 e [] (new_update hook fwd)))"
proof (cases "cache_get (fe_codec fe) (fe_get_fault fe) (provider_name hook) r")
  case (Ok prov)
  obtain a r2 where A: "Allow (fe_allow fe) prov r = (a, r2)" by fastforce
  have ans: "ans = Some (prov, a)" "r1 = r2" using assms(1) Ok A by (simp_all add: limiter_answer_def)
  consider "a = Ok False" | "a = Ok True" | e where "a = Err e" using A Allow_no_panic by (metis (full_types) res.exhaust)
  then show ?thesis
  proof cases
    case 2
    then show ?thesis
      using assms(2) Ok A ans
      by (cases "fe_new_request fe (destination_url prov)";
          cases "forward_headers (provider_name hook) (fe_unmarshal_headers fe) (headers hook)")
        (auto simp: forward_one_def Let_def due_request_def forward_headers_no_panic split: http_result.splits)
  qed (use assms(2) Ok A ans in \<open>auto simp: forward_one_def Let_def due_request_def\<close>)
qed (use assms cache_get_no_panic in \<open>auto simp: forward_one_def limiter_answer_def Let_def due_request_def\<close>)

lemma forward_one_settled:
  assumes "limiter_answer fe hook r = (ans, r1)" and "forward_one fe hook r = (u, q, r')" and "final_answers fe"
  shows "r' = r1" and "settled fe we (case q of None \<Rightarrow> [] | Some x \<Rightarrow> [x]) ans hook (written k we u w)" and "valid_update u"
proof -
  note f = forward_one_by_answer [OF assms(1,2)]
  have fin: "(200 \<le> c \<and> c < 300) \<or> 400 \<le> c" if "fe_do fe req = Response c line hdr" for req c line hdr
    using assms(3) that by (auto simp: final_answers_def split: http_result.splits)
  have up: "uw_delivery_status (setDefaultUpdateValues now e v) = DeliveryStatusFailed"
    "uw_delivery_status (setRateLimitedUpdateValues now c e ra v) = DeliveryStatusFailed"
    "(200 \<le> c \<and> c < 300) \<or> 400 \<le> c \<Longrightarrow> uw_delivery_status (outcome now c e hdr v) \<in> {DeliveryStatusDelivered, DeliveryStatusFailed}"
    for now e v c ra hdr by (auto simp: outcome_def update_values)
  show "r' = r1" using f by simp
  show "settled fe we (case q of None \<Rightarrow> [] | Some x \<Rightarrow> [x]) ans hook (written k we u w)"
  proof (cases q)
    case None
    then show ?thesis using f by (auto simp: settled_def try_again_default try_again_limited)
  next
    case (Some req)
    then have due: "due_request fe ans hook = Some req" using f by simp
    show ?thesis
    proof (cases "fe_do fe req")
      case (TransportError e)
      then have "u = setDefaultUpdateValues (fe_now fe) e (new_update hook (hr_url req))" using f Some by simp
      then show ?thesis using Some due TransportError try_again_default [of fe we k e "new_update hook (hr_url req)" w]
        by (simp add: settled_def recorded_def) (simp add: setDefaultUpdateValues_def)
    next
      case (Response c line hdr)
      then have "u = outcome (fe_now fe) c line hdr (new_update hook (hr_url req))" using f Some by simp
      then show ?thesis using Some due Response recorded_outcome [OF fin [OF Response]] by (simp add: settled_def)
    qed
  qed
  have "uw_delivery_status u \<in> {DeliveryStatusDelivered, DeliveryStatusFailed}" "uw_forwarded_to u \<noteq> None"
    using f fin up by (auto split: option.splits http_result.splits)
  then show "valid_update u" by (auto simp: valid_update_def enum_in_def)
qed

section \<open>Every slot holds the outcome of its attempt\<close>

lemma limiter_answers_cong:
  "\<forall>i \<in> set is. provider_name (hooks ! i) = provider_name (hooks' ! i) \<Longrightarrow>
     limiter_answers fe hooks is r = limiter_answers fe hooks' is r"
  by (induction "is" arbitrary: r) (auto simp: limiter_answer_def split: prod.splits)

definition attempted ::
  "(nat \<Rightarrow> forward_env) \<Rightarrow> webhook list \<Rightarrow> (nat \<times> (provider \<times> bool res) option) list \<Rightarrow> nat \<Rightarrow> update_webhook option list \<Rightarrow>
    http_request list \<Rightarrow> bool" where
  "attempted fe hooks answers i ups qs \<longleftrightarrow>
     (\<exists>u ans. ups ! i = Some u \<and> map_of answers i = Some ans \<and> valid_update u \<and>
        (\<forall>k we w. settled (fe i) we qs ans (hooks ! i) (written k we u w)))"

lemma forward_schedule_each:
  assumes "forward_schedule fe hooks is ups r = (ups', qs, r')" and "distinct is" and "\<forall>i \<in> set is. i < length ups"
    and "\<And>i. final_answers (fe i)"
  shows "length ups' = length ups \<and> (\<forall>i. i \<notin> set is \<longrightarrow> ups' ! i = ups ! i) \<and>
    (\<forall>i \<in> set is. attempted fe hooks (limiter_answers fe hooks is r) i ups' qs)"
  using assms(1-3)
proof (induction "is" arbitrary: ups r qs)
  case (Cons j "is")
  from Cons.prems(1) show ?case
  proof (rule forward_schedule_Cons)
    fix u q r1 qss
    assume f: "forward_one (fe j) (hooks ! j) r = (u, q, r1)"
      and rest: "forward_schedule fe hooks is (ups[j := Some u]) r1 = (ups', qss, r')"
      and qs: "qs = (case q of None \<Rightarrow> [] | Some x \<Rightarrow> [x]) @ qss"
    obtain ans r2 where ans: "limiter_answer (fe j) (hooks ! j) r = (ans, r2)" by fastforce
    note one = forward_one_settled [OF ans f assms(4)]
    have all: "limiter_answers fe hooks (j # is) r = (j, ans) # limiter_answers fe hooks is r1" using ans one(1) by simp
    have IH: "length ups' = length ups" "\<And>i. i \<notin> set is \<Longrightarrow> ups' ! i = ups[j := Some u] ! i"
      "\<And>i. i \<in> set is \<Longrightarrow> attempted fe hooks (limiter_answers fe hooks is r1) i ups' qss"
      using Cons.IH [OF rest] Cons.prems(2,3) by auto
    have "ups' ! j = Some u" using IH(2) [of j] Cons.prems(2,3) by simp
    then have "attempted fe hooks (limiter_answers fe hooks (j # is) r) j ups' qs"
      unfolding attempted_def all qs using one(3) settled_more [OF one(2)] by auto
    moreover have "attempted fe hooks (limiter_answers fe hooks (j # is) r) i ups' qs" if "i \<in> set is" for i
    proof -
      have "i \<noteq> j" using that Cons.prems(2) by auto
      moreover have "settled (fe i) we qs a (hooks ! i) y" if "settled (fe i) we qss a (hooks ! i) y" for we a y
        by (rule settled_more [OF that]) (simp add: qs)
      ultimately show ?thesis using IH(3) [OF that] unfolding attempted_def all by auto
    qed
    moreover have "ups' ! i = ups ! i" if "i \<notin> set (j # is)" for i
      using IH(2) [of i] that by (simp add: nth_update_if)
    ultimately show ?thesis using IH(1) by auto
  qed
qed simp

lemma forwardEvent_each:
  assumes "forwardEvent fe sched hooks r = (ups, qs, r')" and "i < length hooks" and "\<And>i. final_answers (fe i)"
  shows "attempted fe hooks (limiter_answers fe hooks (complete_schedule (length hooks) sched) r) i ups qs"
  using forward_schedule_each [OF assms(1) [unfolded forwardEvent_def] _ _ assms(3)] complete_schedule [of "length hooks" sched] assms(2)
  by auto

section \<open>The write-back\<close>

lemma run_batch_valid:
  assumes "list_all valid_update us" and "\<forall>u \<in> set us. uw_id u \<in> wh_id ` set (webhook_events d)"
  shows "\<exists>xs d'. run_batch k we us d = (Ok xs, d') \<and> None \<notin> set xs"
  using assms
proof (induction us arbitrary: d)
  case (Cons u us)
  then obtain st fwd where v: "enum_in (uw_delivery_status u) = Some st" "uw_forwarded_to u = Some fwd"
    by (auto simp: valid_update_def)
  let ?f = "apply_update k we st fwd u" and ?P = "\<lambda>w. wh_id w = uw_id u"
  have "filter ?P (webhook_events d) \<noteq> []" using Cons.prems(2) by (auto simp: filter_empty_conv)
  then obtain x xs where "returning ?P ?f (webhook_events d) = x # xs" by (cases "returning ?P ?f (webhook_events d)") (auto simp: returning_def)
  with v have u: "update_stmt k we u d = (Ok (Some x), d\<lparr>webhook_events := update_where ?P ?f (webhook_events d)\<rparr>)"
    by (simp add: update_stmt_def Let_def)
  let ?d = "d\<lparr>webhook_events := update_where ?P ?f (webhook_events d)\<rparr>"
  have "map wh_id (webhook_events ?d) = map wh_id (webhook_events d)" by (simp add: map_update_where)
  then have "wh_id ` set (webhook_events ?d) = wh_id ` set (webhook_events d)" by (metis set_map)
  then obtain ys d' where "run_batch k we us ?d = (Ok ys, d')" "None \<notin> set ys"
    using Cons.IH [of ?d] Cons.prems by auto
  with u show ?case by simp
qed simp

lemma UpdateEvents_valid:
  assumes "we_fault we = NoFault" and "list_all valid_update us"
    and "\<forall>u \<in> set us. uw_id u \<in> wh_id ` set (webhook_events d)" and "distinct (map uw_id us)"
  shows "\<exists>hooks. UpdateEvents k we us d = (Ok hooks, d\<lparr>webhook_events := map (updated_row k we us) (webhook_events d)\<rparr>)"
proof -
  obtain xs d' where b: "run_batch k we us d = (Ok xs, d')" "None \<notin> set xs" using run_batch_valid [OF assms(2,3)] by blast
  have "d' = d\<lparr>webhook_events := map (updated_row k we us) (webhook_events d)\<rparr>" using run_batch_Ok [OF b(1) assms(4)] by blast
  then show ?thesis
    using b assms(1) by (cases "us = []") (auto simp: UpdateEvents_def batch_stmt_def)
qed

section \<open>The whole round\<close>

definition ready :: "kind \<Rightarrow> claim_env \<Rightarrow> db \<Rightarrow> webhook \<Rightarrow> bool" where
  "ready k ce d w \<longleftrightarrow> claimable k (cl_now ce) d w \<and> wh_id w \<notin> set (cl_locked ce)"

lemma claim_all_ready:
  assumes "distinct (map wh_id (webhook_events d))" and "0 \<le> claim_limit bs k"
    and "int (length (filter (ready k ce d) (webhook_events d))) \<le> claim_limit bs k"
  shows "\<forall>w \<in> set (webhook_events d). wh_id w \<in> set (claim_ids bs k (cl_locked ce) (cl_now ce) d) \<longleftrightarrow> ready k ce d w"
proof -
  let ?rows = "webhook_events d"
  have "length (filter (ready k ce d) ?rows) \<le> nat (claim_limit bs k)" using assms(2,3) by linarith
  then have "set (first_by (claim_key k) (nat (claim_limit bs k)) (filter (ready k ce d) ?rows)) = set (filter (ready k ce d) ?rows)"
    by (rule first_by_all)
  then have "set (claim_ids bs k (cl_locked ce) (cl_now ce) d) = wh_id ` {w \<in> set ?rows. ready k ce d w}"
    by (simp add: claim_ids_def ready_def [abs_def])
  then show ?thesis using distinct_map_eq [OF assms(1)] by auto
qed

text \<open>What the write-back makes of the row of one event of the batch.\<close>

lemma updated_row_at:
  assumes f: "forwardEvent fe sched hooks r = (ups, qs, r')" and d: "distinct (map wh_id hooks)"
    and i: "i < length hooks" and w: "wh_id w = wh_id (hooks ! i)"
  shows "updated_row k we (map the ups) w = written k we (the (ups ! i)) w"
proof -
  note ups = forwardEvent_updates [OF f]
  have len: "length ups = length hooks" using ups(1) by (metis length_map)
  have ids: "uw_id (the (ups ! j)) = wh_id (hooks ! j)" if "j < length hooks" for j
    using arg_cong [OF ups(1), of "\<lambda>xs. xs ! j"] that len by simp
  obtain u where u: "find (\<lambda>u. uw_id u = wh_id w) (map the ups) = Some u"
    using ids [OF i] i len w by (metis (mono_tags, lifting) find_None_iff length_map nth_map nth_mem option.exhaust)
  then obtain j where j: "j < length hooks" "u = the (ups ! j)" "uw_id u = wh_id w"
    using len by (auto dest!: find_SomeD simp: in_set_conv_nth)
  have "map wh_id hooks ! j = map wh_id hooks ! i" using ids [OF j(1)] j w i by simp
  then have "j = i" using nth_eq_iff_index_eq [OF d] i j(1) by simp
  then show ?thesis using u j(2) by (simp add: updated_row_def written_def)
qed

lemma batch_valid:
  assumes f: "forwardEvent fe sched hooks r = (ups, qs, r')" and fin: "\<And>i. final_answers (fe i)"
  shows "list_all valid_update (map the ups)"
proof -
  have "length ups = length hooks" using forwardEvent_updates(1) [OF f] by (metis length_map)
  then show ?thesis using forwardEvent_each [OF f _ fin] by (fastforce simp: list_all_length attempted_def)
qed

text \<open>The batch of a claim that has room for all, and the rows that are not of it.\<close>

lemma claim_batch:
  assumes "claim_stmt bs k (cl_locked ce) (cl_now ce) d = (Ok hooks, d1)" and "distinct (map wh_id (webhook_events d))"
    and "int (length (filter (ready k ce d) (webhook_events d))) \<le> claim_limit bs k"
  shows "hooks = map (set_status (cl_now ce) (claim_status k)) (filter (ready k ce d) (webhook_events d))"
proof -
  have "filter (\<lambda>x. wh_id x \<in> set (claim_ids bs k (cl_locked ce) (cl_now ce) d)) (webhook_events d) =
      filter (ready k ce d) (webhook_events d)"
    using claim_all_ready [OF assms(2) claim_stmt_rows(1) [OF assms(1)] assms(3)] by (intro filter_cong) auto
  then show ?thesis using claim_stmt_rows(2) [OF assms(1)] by simp
qed

lemma row_not_of_batch:
  assumes "forwardEvent fe sched (map f (filter P rows)) r = (ups, qs, r')" and "\<And>x. wh_id (f x) = wh_id x"
    and "distinct (map wh_id rows)" and "x \<in> set rows" and "\<not> P x"
  shows "updated_row k we (map the ups) x = x"
proof (rule updated_row_other)
  have "uw_id ` set (map the ups) = wh_id ` set (map f (filter P rows))"
    using arg_cong [OF forwardEvent_updates(1) [OF assms(1)], of set] by (simp add: image_image)
  moreover have "wh_id x \<notin> wh_id ` set (map f (filter P rows))"
  proof
    assume "wh_id x \<in> wh_id ` set (map f (filter P rows))"
    then obtain v where v: "v \<in> set rows" "P v" "wh_id v = wh_id x" using assms(2) by auto
    then have "v = x" using distinct_map_eq [OF assms(3), of v x] assms(4) by simp
    with v assms(5) show False by simp
  qed
  ultimately show "wh_id x \<notin> uw_id ` set (map the ups)" by simp
qed

text \<open>The write-back of a claimed batch goes through.\<close>

lemma claimed_batch_written:
  assumes s: "claim_stmt bs k locked now d = (Ok hooks, d1)" and dist: "distinct (map wh_id (webhook_events d))"
    and f: "forwardEvent fe sched hooks r = (ups, qs, r')" and fin: "\<And>i. final_answers (fe i)" and nf: "we_fault we = NoFault"
  shows "\<exists>out. updateEvent k we (map the ups) d1 = (Ok out, d1\<lparr>webhook_events := map (updated_row k we (map the ups)) (webhook_events d1)\<rparr>)"
proof -
  note cr = claim_stmt_rows [OF s]
  have us: "map uw_id (map the ups) = map wh_id hooks" using forwardEvent_updates(1) [OF f] by (simp add: comp_def)
  have "map wh_id (webhook_events d1) = map wh_id (webhook_events d)" by (simp add: cr(3) map_update_where)
  then have "wh_id ` set (webhook_events d1) = wh_id ` set (webhook_events d)" by (metis list.set_map)
  then have "wh_id ` set hooks \<subseteq> wh_id ` set (webhook_events d1)" by (auto simp: cr(2))
  moreover have "uw_id ` set (map the ups) = wh_id ` set hooks" using us by (metis list.set_map)
  ultimately have "\<forall>u \<in> set (map the ups). uw_id u \<in> wh_id ` set (webhook_events d1)" by blast
  moreover have "distinct (map uw_id (map the ups))" using dist unfolding us by (simp add: cr(2) comp_def distinct_map_filter)
  ultimately show ?thesis unfolding updateEvent_def by (rule UpdateEvents_valid [OF nf batch_valid [OF f fin]])
qed

text \<open>
  C1. A round of a worker forwards and settles every event it could claim, as long as these fit into one
  batch, the claim and the write-back meet no fault and the destinations give final answers (no
  redirect and no informational status). The round writes back, and for each event that was claimable
  and not locked: if its provider was in the cache, the limiter allowed the attempt and a request can
  be made of the destination and the stored headers, then that request was made, with the event's
  payload, and the row is delivered exactly if the answer was a 2xx, failed for good after a 4xx other
  than 429, and otherwise failed and scheduled again for the time that the answer asks for or that is
  usual; if not, it is failed and scheduled again after the usual interval. A retry worker counts the
  attempt. At most one request is made per event, every other row is exactly as before, and no row
  changes its identity.
\<close>

theorem round_settles_claimable:
  assumes ok: "schema_ok (wd_db w)" and lim0: "0 \<le> claim_limit bs k"
    and nf: "cl_begin (it_claim it) = NoFault" "cl_query (it_claim it) = NoFault" "cl_commit (it_claim it) = NoFault"
      "we_fault (it_write it) = NoFault"
    and fin: "\<And>i. final_answers (it_forward it i)"
    and batch: "batch = filter (ready k (it_claim it) (wd_db w)) (webhook_events (wd_db w))"
    and fits: "int (length batch) \<le> claim_limit bs k"
    and answers: "answers = limiter_answers (it_forward it) batch (complete_schedule (length batch) (it_schedule it)) (wd_redis w)"
  shows "\<exists>qs w'. run_once bs k it w = (True, qs, w') \<and> length qs \<le> length batch \<and>
    (\<forall>i < length batch. \<exists>ans. \<exists>y \<in> set (webhook_events (wd_db w')). map_of answers i = Some ans \<and> identity y = identity (batch ! i) \<and>
       settled (it_forward it i) (it_write it) qs ans (batch ! i) y \<and>
       retry_count y = (if k = WorkerKindRetry then retry_count (batch ! i) + 1 else retry_count (batch ! i))) \<and>
    list_all2 (\<lambda>x y. identity y = identity x \<and> (\<not> ready k (it_claim it) (wd_db w) x \<longrightarrow> y = x))
      (webhook_events (wd_db w)) (webhook_events (wd_db w'))"
proof -
  let ?d = "wd_db w" and ?ce = "it_claim it"
  let ?rows = "webhook_events ?d" and ?ids = "claim_ids bs k (cl_locked ?ce) (cl_now ?ce) ?d" and ?st = "set_status (cl_now ?ce) (claim_status k)"
  have dist: "distinct (map wh_id ?rows)" using ok by (simp add: schema_ok_def)
  note all = claim_all_ready [OF dist lim0 fits [unfolded batch]]
  obtain hooks d1 where s: "claim_stmt bs k (cl_locked ?ce) (cl_now ?ce) ?d = (Ok hooks, d1)"
    using lim0 by (simp add: claim_stmt_def Let_def)
  then have g: "getNext bs k ?ce ?d = (Ok hooks, d1)"
    using nf GetEvents_Ok [of bs k ?ce ?d hooks d1] by (simp add: getNext_def)
  have hooks: "hooks = map ?st batch" using claim_batch [OF s dist] fits by (simp add: batch)
  then have hd: "distinct (map wh_id hooks)" using dist by (simp add: batch comp_def distinct_map_filter)
  obtain ups qs r1 where f: "forwardEvent (it_forward it) (it_schedule it) hooks (wd_redis w) = (ups, qs, r1)" by (metis prod_cases3)
  let ?upd = "updated_row k (it_write it) (map the ups)"
  obtain out where u: "updateEvent k (it_write it) (map the ups) d1 = (Ok out, d1\<lparr>webhook_events := map ?upd (webhook_events d1)\<rparr>)"
    using claimed_batch_written [OF s dist f fin nf(4)] by blast
  define w' where "w' = w\<lparr>wd_db := d1\<lparr>webhook_events := map ?upd (webhook_events d1)\<rparr>,
    wd_redis := r1, wd_hub := fold send out (wd_hub w)\<rparr>"
  have run: "run_once bs k it w = (True, qs, w')" using g f u by (simp add: run_once_def w'_def)
  have rows: "webhook_events (wd_db w') = map (\<lambda>x. ?upd (if wh_id x \<in> set ?ids then ?st x else x)) ?rows"
    by (simp add: w'_def claim_stmt_rows(3) [OF s] update_where_def comp_def)
  have "limiter_answers (it_forward it) hooks (complete_schedule (length hooks) (it_schedule it)) (wd_redis w) = answers"
    unfolding answers hooks length_map using complete_schedule [of "length batch" "it_schedule it"]
    by (intro limiter_answers_cong) (auto simp: set_status_def touch_def)
  note each = forwardEvent_each [OF f _ fin, unfolded this]
  have one: "\<exists>ans. \<exists>y \<in> set (webhook_events (wd_db w')). map_of answers i = Some ans \<and> identity y = identity (batch ! i) \<and>
      settled (it_forward it i) (it_write it) qs ans (batch ! i) y \<and>
      retry_count y = (if k = WorkerKindRetry then retry_count (batch ! i) + 1 else retry_count (batch ! i))" if i: "i < length batch" for i
  proof -
    from each [of i] i obtain v ans where v: "ups ! i = Some v" "map_of answers i = Some ans"
      "\<And>x. settled (it_forward it i) (it_write it) qs ans (hooks ! i) (written k (it_write it) v x)"
      by (auto simp: attempted_def hooks)
    have x: "batch ! i \<in> set ?rows" "ready k ?ce ?d (batch ! i)" using nth_mem [OF i] by (auto simp: batch)
    let ?y = "?upd (?st (batch ! i))"
    have "?y = written k (it_write it) v (?st (batch ! i))"
      using updated_row_at [OF f hd, of i] i v(1) by (simp add: hooks)
    moreover have "?y \<in> set (webhook_events (wd_db w'))" unfolding rows using x all by force
    moreover have "retry_count (set_status n st x) = retry_count x" for n st x by (simp add: set_status_def touch_def)
    moreover have "settled (it_forward it i) (it_write it) qs ans (batch ! i) (written k (it_write it) v (?st (batch ! i)))"
      using v(3) [of "?st (batch ! i)"] i by (simp add: hooks)
    ultimately show ?thesis using v(2) by (intro exI [of _ ans] bexI [of _ ?y]) (simp_all add: identity_set_status)
  qed
  have same: "list_all2 (\<lambda>x y. identity y = identity x \<and> (\<not> ready k ?ce ?d x \<longrightarrow> y = x)) ?rows (webhook_events (wd_db w'))"
    unfolding rows list_all2_map2 list_all2_same
  proof
    fix x assume x: "x \<in> set ?rows"
    then show "identity (?upd (if wh_id x \<in> set ?ids then ?st x else x)) = identity x \<and>
        (\<not> ready k ?ce ?d x \<longrightarrow> ?upd (if wh_id x \<in> set ?ids then ?st x else x) = x)"
      using all row_not_of_batch [OF f [unfolded hooks batch] _ dist x] by (simp add: identity_set_status)
  qed
  have "length qs \<le> length batch" using forwardEvent_updates(3) [OF f] by (simp add: hooks)
  with run one same show ?thesis by blast
qed

definition sample_delivery :: iteration where
  "sample_delivery = sample_iteration\<lparr>it_forward := (\<lambda>i. sample_forward\<lparr>fe_do := (\<lambda>q. Response 200 ''200 OK'' [])\<rparr>)\<rparr>"

lemma sample_answers:
  "limiter_answers (it_forward sample_delivery) [git_hook] (complete_schedule 1 (it_schedule sample_delivery)) (wd_redis (git_world [git_hook])) =
     [(0, Some (sample_provider\<lparr>destination_url := ''http://app''\<rparr>, Ok True))]"
  by (simp add: complete_schedule_def sample_delivery_def sample_iteration_def limiter_answer_def sample_forward_def git_hook_def sample_event_def
      git_world_def sample_cache_def sample_provider_def cache_get_def GetBytes_def
      Allow_def exact_at_def run_script_def allow_script_def live_bucket_def limit_key_def Let_def)

theorem round_settles_claimable_witness:
  "\<exists>qs w'. run_once default_batches WorkerKindQueue sample_delivery (git_world [git_hook]) = (True, qs, w') \<and>
     (\<exists>q \<in> set qs. hr_url q = ''http://app'' \<and> hr_body q = payload git_hook) \<and>
     (\<exists>y \<in> set (webhook_events (wd_db w')). identity y = identity git_hook \<and> status y = Delivered)"
proof -
  let ?w = "git_world [git_hook]" and ?it = sample_delivery
  let ?prov = "sample_provider\<lparr>destination_url := ''http://app''\<rparr>"
  have "ready WorkerKindQueue (it_claim ?it) (wd_db ?w) git_hook"
    by (simp add: ready_def git_hook_def sample_delivery_def sample_iteration_def sample_claim_def)
  then have batch: "[git_hook] = filter (ready WorkerKindQueue (it_claim ?it) (wd_db ?w)) (webhook_events (wd_db ?w))"
    by (simp add: git_world_parts)
  have ok: "schema_ok (wd_db ?w)"
    by (simp add: schema_ok_def git_world_def git_hook_def sample_event_def event_key_def sample_provider_def)
  have fin: "final_answers (it_forward ?it i)" for i by (simp add: final_answers_def sample_delivery_def)
  obtain h where h: "forward_headers (provider_name git_hook) (fe_unmarshal_headers sample_forward) (headers git_hook) = Ok h"
    by (simp add: forward_headers_def sample_forward_def git_hook_def sample_event_def github_SetForwardHeaders_def set_forward_headers_def)
  have "\<exists>qs w'. run_once default_batches WorkerKindQueue ?it ?w = (True, qs, w') \<and>
      (\<exists>y \<in> set (webhook_events (wd_db w')). identity y = identity git_hook \<and>
        settled (it_forward ?it 0) (it_write ?it) qs (Some (?prov, Ok True)) git_hook y)"
  proof -
    have nf: "0 \<le> claim_limit default_batches WorkerKindQueue" "cl_begin (it_claim ?it) = NoFault" "cl_query (it_claim ?it) = NoFault"
      "cl_commit (it_claim ?it) = NoFault" "we_fault (it_write ?it) = NoFault"
      "int (length [git_hook]) \<le> claim_limit default_batches WorkerKindQueue"
      by (simp_all add: sample_delivery_def sample_iteration_def sample_claim_def sample_write_def default_batches_def)
    have ans: "map_of (limiter_answers (it_forward ?it) [git_hook] (complete_schedule (length [git_hook]) (it_schedule ?it)) (wd_redis ?w)) 0 =
      Some (Some (?prov, Ok True))" using sample_answers by simp
    from round_settles_claimable [OF ok nf(1-5) fin batch nf(6) refl] ans show ?thesis by fastforce
  qed
  then obtain qs w' y where run: "run_once default_batches WorkerKindQueue ?it ?w = (True, qs, w')"
    "y \<in> set (webhook_events (wd_db w'))" "identity y = identity git_hook"
    and st: "settled (it_forward ?it 0) (it_write ?it) qs (Some (?prov, Ok True)) git_hook y" by blast
  have "due_request (it_forward ?it 0) (Some (?prov, Ok True)) git_hook = Some \<lparr>hr_url = ''http://app'', hr_header = h, hr_body = payload git_hook\<rparr>"
    using h by (simp add: due_request_def sample_delivery_def sample_forward_def)
  with st have "\<lparr>hr_url = ''http://app'', hr_header = h, hr_body = payload git_hook\<rparr> \<in> set qs" "status y = Delivered"
    by (simp_all add: settled_def recorded_def sample_delivery_def)
  with run show ?thesis by (intro exI [of _ qs] exI [of _ w']) force
qed

end
