(* ===== verification/GoJson.thy ===== *)
theory GoJson
  imports GoTime
begin

text \<open>
  What the program uses of Go's package \<^verbatim>\<open>encoding/json\<close>: the text that \<^verbatim>\<open>json.Marshal\<close> writes (compact,
  with HTML-safe escapes) and the texts that \<^verbatim>\<open>json.Unmarshal\<close> accepts, with the values they stand for.
\<close>

section \<open>Runes\<close>

text \<open>A string cut into runes; a byte that belongs to no valid encoding is a rune of its own.\<close>

function runes :: "bytes \<Rightarrow> bytes list" where
  "runes s = (if s = [] then [] else take (rune_size s) s # runes (drop (rune_size s) s))"
  by pat_completeness auto
termination
proof (relation "measure length", goal_cases)
  case (2 s)
  then obtain a t where "s = a # t" by (cases s) auto
  with rune_size_pos [of a t] show ?case by (simp del: rune_size.simps)
qed simp

declare runes.simps [simp del]

lemma runes_Nil [simp]: "runes [] = []"
  by (simp add: runes.simps)

lemma concat_runes [simp]: "concat (runes s) = s"
  by (induction s rule: runes.induct) (subst runes.simps, auto)

definition broken_rune :: "bytes \<Rightarrow> bool" where
  "broken_rune r \<longleftrightarrow> (case r of [c] \<Rightarrow> 128 \<le> code c | _ \<Rightarrow> False)"

definition valid_utf8 :: "bytes \<Rightarrow> bool" where
  "valid_utf8 s \<longleftrightarrow> list_all (\<lambda>r. \<not> broken_rune r) (runes s)"

definition ascii :: "bytes \<Rightarrow> bool" where
  "ascii s \<longleftrightarrow> list_all (\<lambda>c. code c < 128) s"

definition encode_rune :: "nat \<Rightarrow> bytes" where
  "encode_rune n =
     (if n < 128 then [byte n]
      else if n < 2048 then [byte (192 + n div 64), byte (128 + n mod 64)]
      else if n < 65536 then [byte (224 + n div 4096), byte (128 + n div 64 mod 64), byte (128 + n mod 64)]
      else [byte (240 + n div 262144), byte (128 + n div 4096 mod 64), byte (128 + n div 64 mod 64), byte (128 + n mod 64)])"

definition replacement :: bytes where
  "replacement = encode_rune 65533"

text \<open>The first rune of a string depends on its own bytes only.\<close>

lemma rune_size_le: "rune_size s \<le> length s"
  by (cases s rule: rune_size.cases) (auto simp: Let_def)

lemma rune_size_ascii [simp]: "code c < 128 \<Longrightarrow> rune_size (c # s) = 1"
  by (simp add: Let_def)

lemma valid_utf8_ascii: "ascii s \<Longrightarrow> valid_utf8 s"
proof (induction s)
  case (Cons c s)
  then have "runes (c # s) = [c] # runes s" by (subst runes.simps) (simp add: ascii_def del: rune_size.simps)
  with Cons show ?case by (simp add: ascii_def valid_utf8_def broken_rune_def)
qed (simp add: valid_utf8_def)

lemma ascii_simps [simp]: "ascii []" "ascii (c # s) \<longleftrightarrow> code c < 128 \<and> ascii s" "ascii (s @ t) \<longleftrightarrow> ascii s \<and> ascii t"
  by (auto simp: ascii_def)

lemma ascii_digits: "list_all is_digit s \<Longrightarrow> ascii s"
  by (auto simp: ascii_def list_all_iff is_digit_def)

lemma rune_size_append:
  assumes "rune_size s = n" and "1 < n"
  shows "rune_size (take n s @ t) = n"
proof (cases s)
  case (Cons a u)
  then consider "n = 2" | "n = 3" | "n = 4"
    using assms by (auto simp: Let_def split: if_splits)
  then show ?thesis
  proof cases
    case 1
    then obtain b v where "u = b # v" using assms Cons by (cases u) (auto simp: Let_def split: if_splits)
    then show ?thesis using assms Cons 1 by (auto simp: Let_def split: if_splits)
  next
    case 2
    then obtain b c v where "u = b # c # v" using assms Cons
      by (cases u; cases "tl u") (auto simp: Let_def split: if_splits)
    then show ?thesis using assms Cons 2 by (auto simp: Let_def numeral_3_eq_3 split: if_splits)
  next
    case 3
    then obtain b c d v where "u = b # c # d # v" using assms Cons
      by (cases u; cases "tl u"; cases "tl (tl u)") (auto simp: Let_def split: if_splits)
    then show ?thesis using assms Cons 3 by (auto simp: Let_def numeral_eq_Suc split: if_splits)
  qed
qed (use assms in simp)

section \<open>Strings\<close>

definition u_escape :: "nat \<Rightarrow> bytes" where
  "u_escape n = [CHR 0x5C, CHR ''u'', hex_digit (n div 4096), hex_digit (n div 256 mod 16), hex_digit (n div 16 mod 16), hex_digit (n mod 16)]"

definition short_escapes :: "(char \<times> char) list" where
  "short_escapes = [(CHR 0x22, CHR 0x22), (CHR 0x5C, CHR 0x5C), (CHR 0x08, CHR ''b''), (CHR 0x0C, CHR ''f''),
     (CHR 0x0A, CHR ''n''), (CHR 0x0D, CHR ''r''), (CHR 0x09, CHR ''t'')]"

definition html_unsafe :: "char \<Rightarrow> bool" where
  "html_unsafe c \<longleftrightarrow> code c < 32 \<or> c = CHR ''<'' \<or> c = CHR ''>'' \<or> c = CHR ''&''"

text \<open>U+2028 and U+2029 are escaped because they end lines in JavaScript.\<close>

definition escape_rune :: "bytes \<Rightarrow> bytes" where
  "escape_rune r =
     (case r of
        [c] \<Rightarrow> (if 128 \<le> code c then u_escape 65533
               else case map_of short_escapes c of
                 Some e \<Rightarrow> [CHR 0x5C, e]
               | None \<Rightarrow> if html_unsafe c then u_escape (code c) else r)
      | _ \<Rightarrow> if r = encode_rune 8232 then u_escape 8232 else if r = encode_rune 8233 then u_escape 8233 else r)"

definition quote :: "bytes \<Rightarrow> bytes" where
  "quote s = CHR 0x22 # concat (map escape_rune (runes s)) @ [CHR 0x22]"

text \<open>Reading a string after its opening quote. A surrogate without its other half is replaced.\<close>

definition read_u4 :: "bytes \<Rightarrow> (nat \<times> bytes) option" where
  "read_u4 s =
     (case s of
        a # b # c # d # r \<Rightarrow>
          (case (from_hex a, from_hex b, from_hex c, from_hex d) of
             (Some w, Some x, Some y, Some z) \<Rightarrow> Some (4096 * w + 256 * x + 16 * y + z, r)
           | _ \<Rightarrow> None)
      | _ \<Rightarrow> None)"

definition read_low :: "bytes \<Rightarrow> (nat \<times> bytes) option" where
  "read_low s =
     (case s of
        a # b # r \<Rightarrow>
          (if a = CHR 0x5C \<and> b = CHR ''u'' then
             (case read_u4 r of
                Some (n, r') \<Rightarrow> if 56320 \<le> n \<and> n < 57344 then Some (n, r') else None
              | None \<Rightarrow> None)
           else None)
      | _ \<Rightarrow> None)"

definition read_unicode :: "bytes \<Rightarrow> (bytes \<times> bytes) option" where
  "read_unicode s =
     (case read_u4 s of
        None \<Rightarrow> None
      | Some (n, r) \<Rightarrow>
          (if 55296 \<le> n \<and> n < 57344 then
             (case if n < 56320 then read_low r else None of
                Some (m, r') \<Rightarrow> Some (encode_rune (65536 + (n - 55296) * 1024 + (m - 56320)), r')
              | None \<Rightarrow> Some (replacement, r))
           else Some (encode_rune n, r)))"

lemma read_u4_shorter: "read_u4 s = Some (n, r) \<Longrightarrow> length r < length s"
  by (auto simp: read_u4_def split: list.splits option.splits prod.splits)

lemma read_unicode_shorter: "read_unicode s = Some (t, r) \<Longrightarrow> length r < length s"
  by (auto simp: read_unicode_def read_low_def dest!: read_u4_shorter split: list.splits option.splits prod.splits if_splits)

definition read_escapes :: "(char \<times> char) list" where
  "read_escapes = (CHR ''/'', CHR ''/'') # map (\<lambda>(c, e). (e, c)) short_escapes"

function read_string :: "bytes \<Rightarrow> (bytes \<times> bytes) option" where
  "read_string s =
     (case s of
        [] \<Rightarrow> None
      | c # r \<Rightarrow>
          (if c = CHR 0x22 then Some ([], r)
           else if c = CHR 0x5C then
             (case r of
                [] \<Rightarrow> None
              | e # r' \<Rightarrow>
                  (if e = CHR ''u'' then
                     (case read_unicode r' of
                        None \<Rightarrow> None
                      | Some (t, r'') \<Rightarrow> map_option (\<lambda>(u, q). (t @ u, q)) (read_string r''))
                   else (case map_of read_escapes e of
                      None \<Rightarrow> None
                    | Some b \<Rightarrow> map_option (\<lambda>(u, q). (b # u, q)) (read_string r'))))
           else if code c < 32 then None
           else
             (let t = take (rune_size s) s
              in map_option (\<lambda>(u, q). ((if broken_rune t then replacement else t) @ u, q)) (read_string (drop (rune_size s) s)))))"
  by pat_completeness auto
termination
proof (relation "measure length", goal_cases)
  case (4 s c r)
  with rune_size_pos [of c r] show ?case by (simp del: rune_size.simps)
qed (auto dest!: read_unicode_shorter)

declare read_string.simps [simp del]

text \<open>Every escape of a rune is read as the rune.\<close>

lemma hex_sum: "16 * a + x = n \<Longrightarrow> 16 * b + y = a \<Longrightarrow> 16 * c + z = b \<Longrightarrow> 4096 * c + 256 * z + 16 * y + x = (n :: nat)"
  by simp

lemma hex_parts: "4096 * (n div 4096) + 256 * (n div 256 mod 16) + 16 * (n div 16 mod 16) + n mod 16 = (n :: nat)"
proof -
  have d: "n div 256 = n div 16 div 16" "n div 4096 = n div 16 div 16 div 16"
    using div_mult2_eq [of n 16 16] div_mult2_eq [of n 16 256] div_mult2_eq [of "n div 16" 16 16] by simp_all
  show ?thesis unfolding d by (rule hex_sum) (rule mult_div_mod_eq)+
qed

lemma read_u_escape:
  assumes "n < 65536" and "n < 55296 \<or> 57344 \<le> n"
  shows "read_string (u_escape n @ r) = map_option (\<lambda>(u, q). (encode_rune n @ u, q)) (read_string r)"
proof -
  have "n div 4096 < 16" using assms(1) by (simp add: less_mult_imp_div_less)
  moreover have "4096 * (n div 4096) + 256 * (n div 256 mod 16) + 16 * (n div 16 mod 16) + n mod 16 = n" by (rule hex_parts)
  ultimately have "read_u4 (drop 2 (u_escape n) @ r) = Some (n, r)"
    by (simp add: read_u4_def u_escape_def from_hex_digit)
  then have "read_unicode (drop 2 (u_escape n) @ r) = Some (encode_rune n, r)"
    using assms(2) by (auto simp: read_unicode_def)
  then show ?thesis by (subst read_string.simps) (simp add: u_escape_def)
qed

lemma map_of_short_escapes:
  "map_of short_escapes c = Some e \<Longrightarrow> e \<noteq> CHR ''u'' \<and> map_of read_escapes e = Some c"
  by (auto simp: short_escapes_def read_escapes_def split: if_splits)

lemma not_short_escape:
  "map_of short_escapes c = None \<Longrightarrow> c \<noteq> CHR 0x22 \<and> c \<noteq> CHR 0x5C"
  by (auto simp: short_escapes_def split: if_splits)

lemma read_plain_rune:
  assumes "rune_size s = n" and "s = c # t" and "32 \<le> code c" and "c \<noteq> CHR 0x22" and "c \<noteq> CHR 0x5C"
    and "\<not> broken_rune (take n s)" and "rune_size (take n s @ r) = n"
  shows "read_string (take n s @ r) = map_option (\<lambda>(u, q). (take n s @ u, q)) (read_string r)"
proof -
  have n: "0 < n" "n \<le> length s" using assms(1,2) rune_size_pos [of c t] rune_size_le [of s] by auto
  then obtain t' where t': "take n s = c # t'" using assms(2) by (cases n) auto
  have "take n (take n s @ r) = take n s" "drop n (take n s @ r) = r" using n by simp_all
  then show ?thesis
    using assms(3-7) unfolding t' by (subst read_string.simps) (simp del: rune_size.simps)
qed

lemma escape_long_rune:
  "1 < length r \<Longrightarrow> escape_rune r = (if r = encode_rune 8232 then u_escape 8232 else if r = encode_rune 8233 then u_escape 8233 else r)"
  unfolding escape_rune_def by (cases r; cases "tl r") simp_all

lemma read_escape_rune:
  assumes "s \<noteq> []" and "\<not> broken_rune (take (rune_size s) s)"
  shows "read_string (escape_rune (take (rune_size s) s) @ r) = map_option (\<lambda>(u, q). (take (rune_size s) s @ u, q)) (read_string r)"
proof (cases "rune_size s = 1")
  case True
  obtain c t where s: "s = c # t" using assms(1) by (cases s) auto
  then have r: "take (rune_size s) s = [c]" and c: "code c < 128" using True assms(2) by (simp_all add: broken_rune_def)
  show ?thesis
  proof (cases "map_of short_escapes c")
    case (Some e)
    with map_of_short_escapes [OF Some] c show ?thesis
      unfolding r by (subst read_string.simps) (simp add: escape_rune_def)
  next
    case None
    note q = not_short_escape [OF None]
    show ?thesis
    proof (cases "html_unsafe c")
      case True
      then have "escape_rune [c] = u_escape (code c)" "encode_rune (code c) = [c]"
        using None c by (simp_all add: escape_rune_def encode_rune_def)
      then show ?thesis unfolding r using read_u_escape [of "code c" r] c by simp
    next
      case False
      then have "escape_rune [c] = [c]" "32 \<le> code c" using None c by (simp_all add: escape_rune_def html_unsafe_def)
      then show ?thesis
        using read_plain_rune [OF True s, of r] q assms(2) c unfolding True s by simp
    qed
  qed
next
  case False
  define n where "n = rune_size s"
  obtain c t where s: "s = c # t" using assms(1) by (cases s) auto
  have n: "1 < n" using False rune_size_pos [of c t] by (simp add: n_def s del: rune_size.simps)
  then have "128 \<le> code c" using False rune_size_ascii [of c t] unfolding s by linarith
  then have c: "32 \<le> code c" "c \<noteq> CHR 0x22" "c \<noteq> CHR 0x5C" by auto
  have len: "length (take n s) = n" using rune_size_le [of s] by (simp add: n_def)
  note plain = read_plain_rune [OF n_def [symmetric] s c _ rune_size_append [OF n_def [symmetric] n], of r]
  have "escape_rune (take n s) = (if take n s = encode_rune 8232 then u_escape 8232
      else if take n s = encode_rune 8233 then u_escape 8233 else take n s)"
    using len n by (intro escape_long_rune) simp
  moreover have "read_string (u_escape 8232 @ r) = map_option (\<lambda>(u, q). (encode_rune 8232 @ u, q)) (read_string r)"
    "read_string (u_escape 8233 @ r) = map_option (\<lambda>(u, q). (encode_rune 8233 @ u, q)) (read_string r)"
    by (rule read_u_escape; simp)+
  ultimately show ?thesis
    using plain assms(2) unfolding n_def [symmetric] by (simp split: if_splits)
qed

lemma read_quoted: "valid_utf8 s \<Longrightarrow> read_string (concat (map escape_rune (runes s)) @ CHR 0x22 # r) = Some (s, r)"
proof (induction s rule: runes.induct)
  case (1 s)
  show ?case
  proof (cases "s = []")
    case True
    then show ?thesis by (simp add: read_string.simps [of "CHR 0x22 # r"])
  next
    case False
    let ?n = "rune_size s"
    have r: "runes s = take ?n s # runes (drop ?n s)" using False by (simp add: runes.simps [of s])
    have "\<not> broken_rune (take ?n s)" "valid_utf8 (drop ?n s)" using "1.prems" by (simp_all add: valid_utf8_def r)
    with "1.IH" [OF False] read_escape_rune [OF False] show ?thesis by (simp add: r)
  qed
qed

section \<open>Values\<close>

text \<open>Numbers are kept as their literals; the members of an object are in the order of the text.\<close>

datatype json = JNull | JBool bool | JNumber string | JString string | JArray "json list" | JObject "(string \<times> json) list"

fun join :: "bytes list \<Rightarrow> bytes" where
  "join [] = []"
| "join [x] = x"
| "join (x # y # ys) = x @ '','' @ join (y # ys)"

fun json_text :: "json \<Rightarrow> bytes" where
  "json_text JNull = ''null''"
| "json_text (JBool b) = (if b then ''true'' else ''false'')"
| "json_text (JNumber n) = n"
| "json_text (JString s) = quote s"
| "json_text (JArray vs) = ''['' @ join (map json_text vs) @ '']''"
| "json_text (JObject ms) = ''{'' @ join (map (\<lambda>(k, v). quote k @ '':'' @ json_text v) ms) @ ''}''"

section \<open>Reading a value\<close>

definition skip_space :: "bytes \<Rightarrow> bytes" where
  "skip_space = dropWhile (\<lambda>c. c = CHR '' '' \<or> c = CHR 0x09 \<or> c = CHR 0x0A \<or> c = CHR 0x0D)"

lemma skip_space_length: "length (skip_space s) \<le> length s"
  by (simp add: skip_space_def length_dropWhile_le)

text \<open>The grammar of numbers: an integer part without leading zeros, a fraction, an exponent.\<close>

definition read_integer :: "bytes \<Rightarrow> (bytes \<times> bytes) option" where
  "read_integer s =
     (case s of
        [] \<Rightarrow> None
      | c # r \<Rightarrow> (if c = CHR ''0'' then Some ([c], r)
                 else if is_digit c then Some (c # takeWhile is_digit r, dropWhile is_digit r) else None))"

definition read_digits :: "bytes \<Rightarrow> (bytes \<times> bytes) option" where
  "read_digits s = (if takeWhile is_digit s = [] then None else Some (takeWhile is_digit s, dropWhile is_digit s))"

definition read_frac :: "bytes \<Rightarrow> (bytes \<times> bytes) option" where
  "read_frac s = (case s of c # r \<Rightarrow> if c = CHR ''.'' then map_option (\<lambda>(ds, q). (c # ds, q)) (read_digits r) else Some ([], s) | [] \<Rightarrow> Some ([], s))"

definition read_exp :: "bytes \<Rightarrow> (bytes \<times> bytes) option" where
  "read_exp s =
     (case s of
        c # r \<Rightarrow>
          (if c = CHR ''e'' \<or> c = CHR ''E'' then
             (case r of
                d # q \<Rightarrow> (if d = CHR ''+'' \<or> d = CHR ''-'' then map_option (\<lambda>(ds, q). (c # d # ds, q)) (read_digits q)
                         else map_option (\<lambda>(ds, q). (c # ds, q)) (read_digits r))
              | [] \<Rightarrow> None)
           else Some ([], s))
      | [] \<Rightarrow> Some ([], s))"

definition read_number :: "bytes \<Rightarrow> (json \<times> bytes) option" where
  "read_number s = do {
     let (sign, s) = (case s of c # r \<Rightarrow> if c = CHR ''-'' then ([c], r) else ([], s) | [] \<Rightarrow> ([], s));
     (i, s) \<leftarrow> read_integer s;
     (f, s) \<leftarrow> read_frac s;
     (e, s) \<leftarrow> read_exp s;
     Some (JNumber (sign @ i @ f @ e), s) }"

definition read_word :: "bytes \<Rightarrow> json \<Rightarrow> bytes \<Rightarrow> (json \<times> bytes) option" where
  "read_word w v s = (if take (length w) s = w then Some (v, drop (length w) s) else None)"

text \<open>
  \<open>d\<close> bounds the nesting, which \<^verbatim>\<open>encoding/json\<close> limits to 10000. What is left after a value is shorter
  than what there was; the conditions that say so only serve the termination of the functions.
\<close>

function read_value :: "nat \<Rightarrow> bytes \<Rightarrow> (json \<times> bytes) option"
  and read_elements :: "nat \<Rightarrow> bytes \<Rightarrow> (json list \<times> bytes) option"
  and read_members :: "nat \<Rightarrow> bytes \<Rightarrow> ((string \<times> json) list \<times> bytes) option" where
  "read_value d s =
     (case skip_space s of
        [] \<Rightarrow> None
      | c # r \<Rightarrow>
          (if c = CHR 0x22 then map_option (\<lambda>(t, q). (JString t, q)) (read_string r)
           else if c = CHR ''['' then
             (if d = 0 then None
              else case skip_space r of
                [] \<Rightarrow> None
              | c' # q \<Rightarrow> (if c' = CHR '']'' then Some (JArray [], q)
                          else map_option (\<lambda>(vs, q). (JArray vs, q)) (read_elements (d - 1) r)))
           else if c = CHR ''{'' then
             (if d = 0 then None
              else case skip_space r of
                [] \<Rightarrow> None
              | c' # q \<Rightarrow> (if c' = CHR ''}'' then Some (JObject [], q)
                          else map_option (\<lambda>(ms, q). (JObject ms, q)) (read_members (d - 1) r)))
           else if c = CHR ''n'' then read_word ''null'' JNull (c # r)
           else if c = CHR ''t'' then read_word ''true'' (JBool True) (c # r)
           else if c = CHR ''f'' then read_word ''false'' (JBool False) (c # r)
           else read_number (c # r)))"
| "read_elements d s =
     (case read_value d s of
        None \<Rightarrow> None
      | Some (v, r) \<Rightarrow>
          (case skip_space r of
             [] \<Rightarrow> None
           | c # q \<Rightarrow>
               (if c = CHR '']'' then Some ([v], q)
                else if c = CHR '','' \<and> length q < length s then map_option (\<lambda>(vs, q). (v # vs, q)) (read_elements d q)
                else None)))"
| "read_members d s =
     (case skip_space s of
        [] \<Rightarrow> None
      | c # r \<Rightarrow>
          (if c \<noteq> CHR 0x22 then None
           else case read_string r of
             None \<Rightarrow> None
           | Some (k, r) \<Rightarrow>
               (case skip_space r of
                  [] \<Rightarrow> None
                | c # r \<Rightarrow>
                    (if c \<noteq> CHR '':'' \<or> length s \<le> length r then None
                     else case read_value d r of
                       None \<Rightarrow> None
                     | Some (v, r) \<Rightarrow>
                         (case skip_space r of
                            [] \<Rightarrow> None
                          | c # q \<Rightarrow>
                              (if c = CHR ''}'' then Some ([(k, v)], q)
                               else if c = CHR '','' \<and> length q < length s
                               then map_option (\<lambda>(ms, q). ((k, v) # ms, q)) (read_members d q)
                               else None))))))"
  by pat_completeness auto
termination
proof (relation "measure (\<lambda>x. case x of Inl (d, s) \<Rightarrow> 2 * length s | Inr (Inl (d, s)) \<Rightarrow> 2 * length s + 1 | Inr (Inr (d, s)) \<Rightarrow> 2 * length s)", goal_cases)
  case (2 d s c r)
  with skip_space_length [of s] show ?case by simp
next
  case (3 d s c r)
  with skip_space_length [of s] show ?case by simp
qed (auto simp: not_le)

declare read_value.simps [simp del] read_elements.simps [simp del] read_members.simps [simp del]

definition max_depth :: nat where
  "max_depth = 10000"

definition json_parse :: "bytes \<Rightarrow> json option" where
  "json_parse s = (case read_value max_depth s of Some (v, r) \<Rightarrow> if skip_space r = [] then Some v else None | None \<Rightarrow> None)"

section \<open>What is written is read back\<close>

lemma digits_shape: "digits n \<noteq> [] \<and> list_all is_digit (digits n) \<and> (hd (digits n) = CHR ''0'' \<longrightarrow> n = 0) \<and> digits_value (digits n) = int n"
proof (induction n rule: digits.induct)
  case (1 n)
  have d: "is_digit (byte (48 + n mod 10))" by (simp add: is_digit_def)
  show ?case
  proof (cases "n < 10")
    case True
    have "byte (48 + n) = CHR ''0'' \<Longrightarrow> n = 0" using True code_digit [of n] by fastforce
    then show ?thesis using True d by (simp add: digits.simps [of n] digits_value_def)
  next
    case False
    then have n1: "n div 10 \<noteq> 0" by (simp add: div_eq_0_iff)
    have n2: "10 * int (n div 10) + int (n mod 10) = int n" by (metis int_ops(7) mult_div_mod_eq of_nat_add of_nat_numeral)
    with 1 d n1 n2 False show ?thesis by (subst digits.simps) (simp add: digits_value_snoc digits.simps [of n] hd_append)
  qed
qed

lemma atoi_itoa: "- (2 ^ 63) \<le> n \<Longrightarrow> n < 2 ^ 63 \<Longrightarrow> atoi (itoa n) = Some n"
proof -
  assume n: "- (2 ^ 63) \<le> n" "n < 2 ^ 63"
  show ?thesis
  proof (cases "n < 0")
    case True
    then show ?thesis using n digits_shape [of "nat (- n)"] by (simp add: atoi_def itoa_def)
  next
    case False
    obtain c r where c: "digits (nat n) = c # r" using digits_shape [of "nat n"] by (cases "digits (nat n)") auto
    then have "c \<noteq> CHR ''-''" "c \<noteq> CHR ''+''" using digits_shape [of "nat n"] by (auto simp: is_digit_def)
    then show ?thesis using n False digits_shape [of "nat n"] c by (simp add: atoi_def itoa_def)
  qed
qed

text \<open>Where a value of the printed text ends: at the end of the text, or at a separator.\<close>

definition ends_value :: "bytes \<Rightarrow> bool" where
  "ends_value r \<longleftrightarrow> (case r of [] \<Rightarrow> True | c # _ \<Rightarrow> c = CHR '','' \<or> c = CHR '']'' \<or> c = CHR ''}'')"

lemma ends_value_simps [simp]: "ends_value []" "ends_value (CHR '','' # r)" "ends_value (CHR '']'' # r)" "ends_value (CHR ''}'' # r)"
  by (simp_all add: ends_value_def)

lemma read_digits_number:
  assumes "ends_value r"
  shows "read_integer (digits n @ r) = Some (digits n, r)"
proof -
  obtain c ds where c: "digits n = c # ds" using digits_shape [of n] by (cases "digits n") auto
  have all: "is_digit c" "list_all is_digit ds" using digits_shape [of n] by (simp_all add: c)
  have "takeWhile is_digit (ds @ r) = ds" "dropWhile is_digit (ds @ r) = r"
    using all(2) assms by (auto simp: ends_value_def is_digit_def list_all_iff takeWhile_append dropWhile_append split: list.splits)
  moreover have "c = CHR ''0'' \<Longrightarrow> ds = []" using digits_shape [of n] c by (auto simp: digits.simps)
  ultimately show ?thesis using all by (auto simp: c read_integer_def)
qed

lemma read_number_itoa:
  assumes "ends_value r"
  shows "read_number (itoa n @ r) = Some (JNumber (itoa n), r)"
proof -
  have tail: "read_frac r = Some ([], r)" "read_exp r = Some ([], r)"
    using assms by (auto simp: ends_value_def read_frac_def read_exp_def split: list.splits)
  show ?thesis
  proof (cases "n < 0")
    case True
    then show ?thesis using read_digits_number [OF assms, of "nat (- n)"] tail by (simp add: read_number_def itoa_def)
  next
    case False
    obtain c ds where c: "digits (nat n) = c # ds" using digits_shape [of "nat n"] by (cases "digits (nat n)") auto
    then have "c \<noteq> CHR ''-''" using digits_shape [of "nat n"] by (auto simp: is_digit_def)
    then show ?thesis using c False read_digits_number [OF assms, of "nat n"] tail by (simp add: read_number_def itoa_def)
  qed
qed

lemma ascii_itoa: "ascii (itoa n)"
  using digits_shape ascii_digits by (auto simp: itoa_def)

lemma ascii_format_time: "ascii (format_time nano off t)"
proof -
  have pad: "ascii (pad_num k n)" for k n by (intro ascii_digits digits_pad_num)
  have dig: "ascii (digits n)" for n using digits_shape by (intro ascii_digits) blast
  have "ascii (year_text y)" for y using pad dig by (simp add: year_text_def Let_def)
  moreover have "ascii (zone_text off)" using pad by (simp add: zone_text_def Let_def)
  moreover have "ascii (fraction_text ns)" for ns
    using ascii_digits [OF digits_trim_zeros [OF digits_pad_num]] by (simp add: fraction_text_def del: pad_num.simps)
  ultimately show ?thesis using pad by (simp add: format_time_def Let_def split: prod.splits del: pad_num.simps)
qed

definition number_ok :: "string \<Rightarrow> bool" where
  "number_ok s \<longleftrightarrow> (case atoi s of Some n \<Rightarrow> s = itoa n | None \<Rightarrow> False)"

fun json_ok :: "nat \<Rightarrow> json \<Rightarrow> bool" where
  "json_ok d JNull = True"
| "json_ok d (JBool b) = True"
| "json_ok d (JNumber n) = number_ok n"
| "json_ok d (JString s) = valid_utf8 s"
| "json_ok 0 (JArray vs) = False"
| "json_ok (Suc d) (JArray vs) = list_all (json_ok d) vs"
| "json_ok 0 (JObject ms) = False"
| "json_ok (Suc d) (JObject ms) = list_all (\<lambda>(k, v). valid_utf8 k \<and> json_ok d v) ms"

lemma itoa_start: "\<exists>c t. itoa n = c # t \<and> (c = CHR ''-'' \<or> is_digit c)"
  using digits_shape [of "nat n"] by (cases "digits (nat n)") (auto simp: itoa_def)

text \<open>A printed value starts with a character that is neither white space nor a closing bracket.\<close>

definition starts_value :: "bytes \<Rightarrow> bool" where
  "starts_value s \<longleftrightarrow>
     (case s of [] \<Rightarrow> False
      | c # _ \<Rightarrow> c = CHR 0x22 \<or> c = CHR ''['' \<or> c = CHR ''{'' \<or> c = CHR ''n'' \<or> c = CHR ''t'' \<or> c = CHR ''f'' \<or> c = CHR ''-'' \<or> is_digit c)"

lemma starts_value_skip: "starts_value s \<Longrightarrow> skip_space (s @ r) = s @ r"
  by (auto simp: starts_value_def skip_space_def is_digit_def split: list.splits)

lemma starts_value_text: "json_ok d v \<Longrightarrow> starts_value (json_text v)"
proof (cases v)
  case (JNumber n)
  assume "json_ok d v"
  then obtain k where k: "n = itoa k" using JNumber by (auto simp: number_ok_def split: option.splits)
  then show ?thesis using JNumber itoa_start [of k] by (auto simp: starts_value_def)
qed (auto simp: starts_value_def quote_def)

lemma skip_separator [simp]:
  "skip_space (CHR '','' # r) = CHR '','' # r" "skip_space (CHR '']'' # r) = CHR '']'' # r" "skip_space (CHR ''}'' # r) = CHR ''}'' # r"
  "skip_space (CHR '':'' # r) = CHR '':'' # r" "skip_space (CHR 0x22 # r) = CHR 0x22 # r"
  by (simp_all add: skip_space_def)

lemma read_value_array:
  assumes "starts_value (s @ [CHR '']''])" and "read_elements d (s @ CHR '']'' # r) = Some (vs, r)"
  shows "read_value (Suc d) (CHR ''['' # s @ CHR '']'' # r) = Some (JArray vs, r)"
proof -
  have "skip_space (s @ CHR '']'' # r) = s @ CHR '']'' # r" using starts_value_skip [OF assms(1), of r] by simp
  moreover obtain c t where c: "s @ CHR '']'' # r = c # t" by (cases s) auto
  moreover have "c \<noteq> CHR '']''" using assms(1) c by (cases s) (auto simp: starts_value_def is_digit_def)
  ultimately show ?thesis using assms(2) by (subst read_value.simps) (simp add: skip_space_def)
qed

lemma read_elements_join:
  assumes "vs \<noteq> []" and "\<And>v r. v \<in> set vs \<Longrightarrow> ends_value r \<Longrightarrow> read_value d (json_text v @ r) = Some (v, r)"
    and "list_all (json_ok d) vs"
  shows "read_elements d (join (map json_text vs) @ CHR '']'' # r) = Some (vs, r)"
  using assms
proof (induction vs)
  case (Cons v vs)
  have start: "json_text v \<noteq> []" using starts_value_text [of d v] Cons.prems(3) by (auto simp: starts_value_def)
  show ?case
  proof (cases vs)
    case Nil
    then show ?thesis using Cons.prems(2) [of v "CHR '']'' # r"] by (subst read_elements.simps) simp
  next
    case tl: (Cons w ws)
    have "read_elements d (join (map json_text vs) @ CHR '']'' # r) = Some (vs, r)"
      by (rule Cons.IH) (use tl Cons.prems in auto)
    then show ?thesis
      using Cons.prems(2) [of v "CHR '','' # join (map json_text vs) @ CHR '']'' # r"] start tl
      by (subst read_elements.simps) simp
  qed
qed simp

definition member_text :: "string \<times> json \<Rightarrow> bytes" where
  "member_text m = quote (fst m) @ '':'' @ json_text (snd m)"

lemma member_text_eq: "(\<lambda>(k, v). quote k @ '':'' @ json_text v) = member_text"
  by (auto simp: member_text_def)

lemma read_members_join:
  assumes "ms \<noteq> []" and "\<And>k v r. (k, v) \<in> set ms \<Longrightarrow> ends_value r \<Longrightarrow> read_value d (json_text v @ r) = Some (v, r)"
    and "list_all (\<lambda>(k, v). valid_utf8 k) ms"
  shows "read_members d (join (map member_text ms) @ CHR ''}'' # r) = Some (ms, r)"
  using assms
proof (induction ms)
  case (Cons m ms)
  obtain k v where m: "m = (k, v)" by (cases m)
  have k: "read_string (concat (map escape_rune (runes k)) @ CHR 0x22 # q) = Some (k, q)" for q
    using Cons.prems(3) by (intro read_quoted) (simp add: m)
  note v = Cons.prems(2) [of k v]
  show ?case
  proof (cases ms)
    case Nil
    then show ?thesis using v [of "CHR ''}'' # r"] k
      by (subst read_members.simps) (simp add: m member_text_def quote_def)
  next
    case tl: (Cons m' ms')
    have "read_members d (join (map member_text ms) @ CHR ''}'' # r) = Some (ms, r)"
      by (rule Cons.IH) (use tl Cons.prems in auto)
    then show ?thesis
      using v [of "CHR '','' # join (map member_text ms) @ CHR ''}'' # r"] k tl
      by (subst read_members.simps) (simp add: m member_text_def [of "(k, v)"] quote_def [of k])
  qed
qed simp

lemma read_value_object:
  assumes "ms \<noteq> []" and "read_members d (join (map member_text ms) @ CHR ''}'' # r) = Some (ms, r)"
  shows "read_value (Suc d) (CHR ''{'' # join (map member_text ms) @ CHR ''}'' # r) = Some (JObject ms, r)"
proof -
  obtain t where t: "join (map member_text ms) = CHR 0x22 # t"
    using assms(1) by (cases ms rule: join.cases [of "map member_text ms" for ms, simplified]; cases ms)
      (auto simp: member_text_def quote_def neq_Nil_conv)
  then show ?thesis using assms(2) by (subst read_value.simps) (simp add: skip_space_def)
qed

lemma read_json_text:
  "json_ok d v \<Longrightarrow> ends_value r \<Longrightarrow> read_value d (json_text v @ r) = Some (v, r)"
proof (induction v arbitrary: d r)
  case JNull
  show ?case by (subst read_value.simps) (simp add: skip_space_def read_word_def)
next
  case (JBool b)
  show ?case by (subst read_value.simps) (simp add: skip_space_def read_word_def)
next
  case (JNumber n)
  then obtain k where k: "n = itoa k" by (auto simp: number_ok_def split: option.splits)
  have skip: "skip_space (n @ r) = n @ r" using starts_value_skip starts_value_text [OF JNumber.prems(1)] by simp
  obtain c t where c: "n = c # t" "c = CHR ''-'' \<or> is_digit c" using itoa_start k by blast
  then have "c \<notin> set ''\"[{ntf''" by (auto simp: is_digit_def)
  then show ?case
    using read_number_itoa [OF JNumber.prems(2), of k] skip unfolding json_text.simps k [symmetric]
    by (subst read_value.simps) (simp add: c(1))
next
  case (JString s)
  then show ?case using read_quoted [of s r] by (subst read_value.simps) (simp add: quote_def)
next
  case (JArray vs)
  then obtain d' where d: "d = Suc d'" "list_all (json_ok d') vs" by (cases d) auto
  show ?case
  proof (cases "vs = []")
    case True
    then show ?thesis by (subst read_value.simps) (simp add: d skip_space_def)
  next
    case False
    have "read_elements d' (join (map json_text vs) @ CHR '']'' # r) = Some (vs, r)"
      using False d(2) JArray.IH by (intro read_elements_join) (auto simp: list_all_iff)
    moreover have "starts_value (join (map json_text vs) @ [CHR '']''])"
      using False d(2) starts_value_text [of d' "hd vs"] by (cases vs; cases "tl vs") (auto simp: starts_value_def split: list.splits)
    ultimately show ?thesis using read_value_array by (simp add: d)
  qed
next
  case (JObject ms)
  then obtain d' where d: "d = Suc d'" "list_all (\<lambda>(k, v). valid_utf8 k \<and> json_ok d' v) ms" by (cases d) auto
  show ?case
  proof (cases "ms = []")
    case True
    then show ?thesis by (subst read_value.simps) (simp add: d skip_space_def)
  next
    case False
    have "read_members d' (join (map member_text ms) @ CHR ''}'' # r) = Some (ms, r)"
      using False d(2) JObject.IH by (intro read_members_join) (fastforce simp: list_all_iff)+
    from read_value_object [OF False this] show ?thesis unfolding json_text.simps member_text_eq d by simp
  qed
qed

lemma json_parse_text: "json_ok max_depth v \<Longrightarrow> json_parse (json_text v) = Some v"
  using read_json_text [of max_depth v "[]"] by (simp add: json_parse_def skip_space_def)

end
