(* ===== verification/Codec.thy ===== *)
theory Codec
  imports GoJson ProviderHooks "HOL-Library.List_Lexorder" "HOL-Library.Char_ord"
begin

text \<open>
  The JSON forms of what the program stores: the headers of a webhook, which a handler marshals and a
  worker unmarshals, and a provider (\<^verbatim>\<open>internal/model/provider.go\<close>), which the cache keeps in Redis.
\<close>

section \<open>Headers\<close>

text \<open>\<^verbatim>\<open>json.Marshal\<close> of a map writes its keys in their order as byte strings.\<close>

definition header_json :: "header \<Rightarrow> json" where
  "header_json h = JObject (map (\<lambda>(k, vs). (k, JArray (map JString vs))) (sort_key fst h))"

definition marshal_header :: "header \<Rightarrow> bytes res" where
  "marshal_header h = Ok (json_text (header_json h))"

definition json_type_error :: go_error where
  "json_type_error = LibError ''json: cannot unmarshal value''"

fun decode_text :: "json \<Rightarrow> string option" where
  "decode_text (JString s) = Some s"
| "decode_text JNull = Some []"
| "decode_text _ = None"

fun decode_texts :: "json list \<Rightarrow> string list option" where
  "decode_texts [] = Some []"
| "decode_texts (v # vs) = do { s \<leftarrow> decode_text v; ss \<leftarrow> decode_texts vs; Some (s # ss) }"

fun decode_values :: "json \<Rightarrow> string list option" where
  "decode_values (JArray vs) = decode_texts vs"
| "decode_values JNull = Some []"
| "decode_values _ = None"

text \<open>A later member with the same key replaces the earlier one.\<close>

fun decode_header :: "(string \<times> json) list \<Rightarrow> header option" where
  "decode_header [] = Some []"
| "decode_header ((k, v) # ms) = do {
     vs \<leftarrow> decode_values v;
     h \<leftarrow> decode_header ms;
     Some (if k \<in> fst ` set h then h else (k, vs) # h) }"

text \<open>\<open>ord\<close> is the order in which Go iterates over the map.\<close>

definition unmarshal_header :: "(header \<Rightarrow> header) \<Rightarrow> unmarshal_headers" where
  "unmarshal_header ord b =
     (case json_parse b of
        None \<Rightarrow> Inl (LibError ''json: syntax error'')
      | Some JNull \<Rightarrow> Inr []
      | Some (JObject ms) \<Rightarrow> (case decode_header ms of None \<Rightarrow> Inl json_type_error | Some h \<Rightarrow> Inr (ord h))
      | Some _ \<Rightarrow> Inl json_type_error)"

definition order_ok :: "(header \<Rightarrow> header) \<Rightarrow> bool" where
  "order_ok ord \<longleftrightarrow> (\<forall>h. mset (ord h) = mset h)"

text \<open>
  The headers of a request as \<^verbatim>\<open>net/http\<close> hands them over: a map with canonical names. JSON keeps what is
  valid UTF-8.
\<close>

definition header_ok :: "header \<Rightarrow> bool" where
  "header_ok h \<longleftrightarrow> distinct (map fst h) \<and> list_all (\<lambda>(k, vs). canonical_header_key k = k \<and> valid_utf8 k \<and> list_all valid_utf8 vs) h"

lemma decode_texts_strings: "decode_texts (map JString vs) = Some vs"
  by (induction vs) simp_all

lemma decode_header_members:
  assumes "distinct (map fst h)"
  shows "decode_header (map (\<lambda>(k, vs). (k, JArray (map JString vs))) h) = Some h"
  using assms by (induction h) (auto simp: decode_texts_strings)

lemma header_json_ok: "header_ok h \<Longrightarrow> json_ok (Suc (Suc d)) (header_json h)"
  by (auto simp: header_json_def header_ok_def list_all_iff comp_def)

lemma unmarshal_marshal_header:
  assumes "header_ok h"
  shows "unmarshal_header ord (json_text (header_json h)) = Inr (ord (sort_key fst h))"
proof -
  have "max_depth = Suc (Suc 9998)" by (simp add: max_depth_def)
  then have "json_parse (json_text (header_json h)) = Some (header_json h)"
    using header_json_ok [OF assms] by (intro json_parse_text) metis
  moreover have "distinct (map fst (sort_key fst h))"
    using assms mset_eq_imp_distinct_iff [of "map fst (sort_key fst h)" "map fst h"] by (simp add: header_ok_def)
  ultimately show ?thesis
    by (simp add: unmarshal_header_def header_json_def decode_header_members)
qed

text \<open>
  Any JSON text of an object with the members of the headers, in any order, gives the headers back.
\<close>

definition header_members :: "header \<Rightarrow> (string \<times> json) list \<Rightarrow> bool" where
  "header_members h ms \<longleftrightarrow> mset ms = mset (map (\<lambda>(k, vs). (k, JArray (map JString vs))) h)"

lemma header_members_map:
  assumes "header_members h ms"
  obtains h' where "ms = map (\<lambda>(k, vs). (k, JArray (map JString vs))) h'" "mset h' = mset h"
proof -
  define f where "f = (\<lambda>(k :: string, vs). (k, JArray (map JString vs)))"
  have ms: "mset ms = image_mset f (mset h)" using assms by (simp add: header_members_def f_def)
  have inj: "inj f" by (auto simp: inj_def f_def map_injective [OF _ inj_onI])
  define h' where "h' = map (inv f) ms"
  have "set ms = set (map f h)" using ms by (intro mset_eq_setD) simp
  then have "ms = map f h'" by (auto simp: h'_def f_inv_into_f intro!: map_idI [symmetric])
  moreover have "mset h' = mset h"
    by (simp add: h'_def ms image_mset.compositionality comp_def inv_f_f [OF inj])
  ultimately show thesis by (intro that [of h']) (simp_all add: f_def)
qed

lemma unmarshal_header_members:
  assumes "json_parse b = Some (JObject ms)" and "header_members h ms" and "distinct (map fst h)" and "order_ok ord"
  obtains h' where "unmarshal_header ord b = Inr h'" "mset h' = mset h"
proof -
  obtain h0 where h0: "ms = map (\<lambda>(k, vs). (k, JArray (map JString vs))) h0" "mset h0 = mset h"
    using header_members_map [OF assms(2)] by blast
  have "distinct (map fst h0)" using assms(3) mset_eq_imp_distinct_iff [of "map fst h0" "map fst h"] h0(2) by simp
  then have "unmarshal_header ord b = Inr (ord h0)" using assms(1) by (simp add: unmarshal_header_def h0(1) decode_header_members)
  then show thesis using assms(4) h0(2) by (intro that [of "ord h0"]) (simp_all add: order_ok_def)
qed

lemma concat_filter_key: "distinct (map fst h) \<Longrightarrow> concat (map snd (filter (\<lambda>(k', vs). k' = k) h)) = header_values h k"
proof (induction h)
  case (Cons x h)
  obtain k' vs where x: "x = (k', vs)" by (cases x)
  show ?case
  proof (cases "k' = k")
    case True
    then have "filter (\<lambda>(k', vs). k' = k) h = []" using Cons.prems by (force simp: x filter_empty_conv)
    then show ?thesis using True by (simp add: x header_values_def)
  qed (use Cons in \<open>simp add: x header_values_def\<close>)
qed simp

lemma forwarded_values:
  assumes "header_ok h" and "mset h' = mset h"
  shows "header_values (forward_allowed allowed h' []) k = (if k \<in> set allowed then header_values h k else [])"
proof -
  have d: "distinct (map fst h)" "distinct (map fst h')"
    using assms mset_eq_imp_distinct_iff [of "map fst h'" "map fst h"] by (simp_all add: header_ok_def)
  have "canonical_header_key k' = k'" if "(k', vs) \<in> set h'" for k' vs
    using that assms(1) mset_eq_setD [OF assms(2)] by (auto simp: header_ok_def list_all_iff)
  then have "filter (\<lambda>(k', vs). canonical_header_key k' = k) h' = filter (\<lambda>(k', vs). k' = k) h'"
    by (intro filter_cong) auto
  moreover have "header_values h' k = header_values h k"
    using map_of_inject_set [OF d(2,1)] mset_eq_setD [OF assms(2)] by (simp add: header_values_def)
  ultimately show ?thesis by (simp add: header_values_forward concat_filter_key [OF d(2)])
qed

section \<open>Providers\<close>

text \<open>
  The text form of a UUID belongs to \<^verbatim>\<open>google/uuid\<close>, whose texts consist of printable characters and parse
  to what they were written from.
\<close>

record uuid_lib =
  uuid_text :: "uuid \<Rightarrow> string"
  uuid_parse :: "string \<Rightarrow> uuid option"

definition uuid_laws :: "uuid_lib \<Rightarrow> bool" where
  "uuid_laws ul \<longleftrightarrow> (\<forall>u. valid_utf8 (uuid_text ul u) \<and> uuid_parse ul (uuid_text ul u) = Some u)"

text \<open>The members in the order of the fields; \<open>created\<close> is the text of the time of creation.\<close>

definition provider_json :: "uuid_lib \<Rightarrow> string \<Rightarrow> provider \<Rightarrow> json" where
  "provider_json ul created p =
     JObject [(''id'', JString (uuid_text ul (pr_id p))), (''name'', JString (pr_name p)),
       (''signing_secret'', JString (signing_secret p)), (''destination_url'', JString (destination_url p)),
       (''max_retries'', JNumber (itoa (max_retries p))), (''max_req_second'', JNumber (itoa (max_req_second p))),
       (''is_configured'', JBool (is_configured p)), (''created_at'', JString created)]"

text \<open>\<open>zone\<close>: the offset of the location that the driver gives to a point in time.\<close>

definition marshal_provider :: "uuid_lib \<Rightarrow> (time \<Rightarrow> int) \<Rightarrow> provider \<Rightarrow> bytes res" where
  "marshal_provider ul zone p =
     (case marshal_time (zone (pr_created_at p)) (pr_created_at p) of
        None \<Rightarrow> Err (LibError ''json: error calling MarshalJSON for type time.Time'')
      | Some created \<Rightarrow> Ok (json_text (provider_json ul created p)))"

text \<open>
  A member is assigned to the field of that name, or to the one whose name is equal up to case: ASCII
  letters, and the long s and the Kelvin sign, which fold to \<^verbatim>\<open>s\<close> and \<^verbatim>\<open>k\<close>.
\<close>

fun fold_name :: "string \<Rightarrow> string" where
  "fold_name (a # b # c # s) =
     (if [a, b, c] = encode_rune 8490 then CHR ''k'' # fold_name s
      else if [a, b] = encode_rune 383 then CHR ''s'' # fold_name (c # s)
      else (if 65 \<le> code a \<and> code a \<le> 90 then byte (code a + 32) else a) # fold_name (b # c # s))"
| "fold_name [a, b] =
     (if [a, b] = encode_rune 383 then ''s'' else map (\<lambda>c. if 65 \<le> code c \<and> code c \<le> 90 then byte (code c + 32) else c) [a, b])"
| "fold_name s = map (\<lambda>c. if 65 \<le> code c \<and> code c \<le> 90 then byte (code c + 32) else c) s"

text \<open>
  One member into one field: \<^verbatim>\<open>null\<close> leaves a string, a number, a Boolean and a time as they are, and is
  refused for a UUID; unknown members are ignored.
\<close>

definition decode_field :: "uuid_lib \<Rightarrow> string \<Rightarrow> json \<Rightarrow> provider \<Rightarrow> provider option" where
  "decode_field ul key v p =
     (let name = fold_name key in
      if name = ''id'' then (case v of JString s \<Rightarrow> map_option (\<lambda>u. p\<lparr>pr_id := u\<rparr>) (uuid_parse ul s) | _ \<Rightarrow> None)
      else if name \<notin> {''name'', ''signing_secret'', ''destination_url'', ''max_retries'', ''max_req_second'', ''is_configured'', ''created_at''}
      then Some p
      else if v = JNull then Some p
      else if name = ''name'' then (case v of JString s \<Rightarrow> Some (p\<lparr>pr_name := s\<rparr>) | _ \<Rightarrow> None)
      else if name = ''signing_secret'' then (case v of JString s \<Rightarrow> Some (p\<lparr>signing_secret := s\<rparr>) | _ \<Rightarrow> None)
      else if name = ''destination_url'' then (case v of JString s \<Rightarrow> Some (p\<lparr>destination_url := s\<rparr>) | _ \<Rightarrow> None)
      else if name = ''max_retries'' then (case v of JNumber n \<Rightarrow> map_option (\<lambda>i. p\<lparr>max_retries := i\<rparr>) (atoi n) | _ \<Rightarrow> None)
      else if name = ''max_req_second'' then (case v of JNumber n \<Rightarrow> map_option (\<lambda>i. p\<lparr>max_req_second := i\<rparr>) (atoi n) | _ \<Rightarrow> None)
      else if name = ''is_configured'' then (case v of JBool b \<Rightarrow> Some (p\<lparr>is_configured := b\<rparr>) | _ \<Rightarrow> None)
      else (case v of JString s \<Rightarrow> map_option (\<lambda>t. p\<lparr>pr_created_at := t\<rparr>) (parse_time s) | _ \<Rightarrow> None))"

fun decode_provider :: "uuid_lib \<Rightarrow> (string \<times> json) list \<Rightarrow> provider \<Rightarrow> provider option" where
  "decode_provider ul [] p = Some p"
| "decode_provider ul ((k, v) # ms) p = do { p \<leftarrow> decode_field ul k v p; decode_provider ul ms p }"

text \<open>Go's zero values; the zero time is 1 January of year 1.\<close>

definition zero_provider :: provider where
  "zero_provider = \<lparr>pr_id = 0, pr_name = [], signing_secret = [], destination_url = [], max_retries = 0,
     max_req_second = 0, is_configured = False, pr_created_at = - (719162 * 86400 * second)\<rparr>"

definition unmarshal_provider :: "uuid_lib \<Rightarrow> bytes \<Rightarrow> provider option" where
  "unmarshal_provider ul b =
     (case json_parse b of
        Some JNull \<Rightarrow> Some zero_provider
      | Some (JObject ms) \<Rightarrow> decode_provider ul ms zero_provider
      | _ \<Rightarrow> None)"

definition provider_codec :: "uuid_lib \<Rightarrow> (time \<Rightarrow> int) \<Rightarrow> codec" where
  "provider_codec ul zone = \<lparr>marshal = marshal_provider ul zone, unmarshal = unmarshal_provider ul\<rparr>"

text \<open>What a row of the table is: texts in UTF-8, numbers of 32 bits (\<^verbatim>\<open>INTEGER\<close>), a year that can be written.\<close>

definition provider_ok :: "(time \<Rightarrow> int) \<Rightarrow> provider \<Rightarrow> bool" where
  "provider_ok zone p \<longleftrightarrow>
     valid_utf8 (pr_name p) \<and> valid_utf8 (signing_secret p) \<and> valid_utf8 (destination_url p) \<and>
     \<bar>max_retries p\<bar> \<le> 2 ^ 31 \<and> \<bar>max_req_second p\<bar> \<le> 2 ^ 31 \<and>
     60 dvd zone (pr_created_at p) \<and> \<bar>zone (pr_created_at p)\<bar> < 86400 \<and>
     0 \<le> year_in (zone (pr_created_at p)) (pr_created_at p) \<and> year_in (zone (pr_created_at p)) (pr_created_at p) \<le> 9999"

lemma number_ok_itoa: "\<bar>n\<bar> \<le> 2 ^ 31 \<Longrightarrow> number_ok (itoa n) \<and> atoi (itoa n) = Some n"
  using atoi_itoa [of n] by (simp add: number_ok_def)

lemma provider_json_ok:
  assumes "uuid_laws ul" and "provider_ok zone p" and "ascii created"
  shows "json_ok (Suc d) (provider_json ul created p)"
  using assms number_ok_itoa [of "max_retries p"] number_ok_itoa [of "max_req_second p"]
  by (simp add: provider_json_def provider_ok_def uuid_laws_def valid_utf8_ascii)

lemma fold_name_plain: "list_all (\<lambda>c. 91 \<le> code c \<and> code c < 128) s \<Longrightarrow> fold_name s = s"
proof (induction s rule: fold_name.induct)
  case (1 a b c s)
  then have "[a, b, c] \<noteq> encode_rune 8490" "[a, b] \<noteq> encode_rune 383" by (auto simp: encode_rune_def)
  with 1 show ?case by simp
next
  case (2 a b)
  then have "[a, b] \<noteq> encode_rune 383" by (auto simp: encode_rune_def)
  with 2 show ?case by simp
qed auto

lemma decode_provider_json:
  assumes "uuid_laws ul" and "provider_ok zone p" and "parse_time created = Some (pr_created_at p)"
    and "provider_json ul created p = JObject ms"
  shows "decode_provider ul ms q = Some p"
proof -
  have names: "fold_name ''id'' = ''id''" "fold_name ''name'' = ''name''" "fold_name ''signing_secret'' = ''signing_secret''"
    "fold_name ''destination_url'' = ''destination_url''" "fold_name ''max_retries'' = ''max_retries''"
    "fold_name ''max_req_second'' = ''max_req_second''" "fold_name ''is_configured'' = ''is_configured''"
    "fold_name ''created_at'' = ''created_at''"
    by (rule fold_name_plain, simp)+
  have n: "atoi (itoa (max_retries p)) = Some (max_retries p)" "atoi (itoa (max_req_second p)) = Some (max_req_second p)"
    using assms(2) number_ok_itoa by (simp_all add: provider_ok_def)
  have u: "uuid_parse ul (uuid_text ul (pr_id p)) = Some (pr_id p)" using assms(1) by (simp add: uuid_laws_def)
  note field = decode_field_def Let_def names
  have fields: "decode_field ul ''id'' (JString (uuid_text ul (pr_id p))) q = Some (q\<lparr>pr_id := pr_id p\<rparr>)"
    "decode_field ul ''name'' (JString x) q = Some (q\<lparr>pr_name := x\<rparr>)"
    "decode_field ul ''signing_secret'' (JString x) q = Some (q\<lparr>signing_secret := x\<rparr>)"
    "decode_field ul ''destination_url'' (JString x) q = Some (q\<lparr>destination_url := x\<rparr>)"
    "decode_field ul ''max_retries'' (JNumber (itoa (max_retries p))) q = Some (q\<lparr>max_retries := max_retries p\<rparr>)"
    "decode_field ul ''max_req_second'' (JNumber (itoa (max_req_second p))) q = Some (q\<lparr>max_req_second := max_req_second p\<rparr>)"
    "decode_field ul ''is_configured'' (JBool b) q = Some (q\<lparr>is_configured := b\<rparr>)"
    "decode_field ul ''created_at'' (JString created) q = Some (q\<lparr>pr_created_at := pr_created_at p\<rparr>)" for q x b
    by (simp_all add: field u n assms(3) del: fold_name.simps)
  have "ms = [(''id'', JString (uuid_text ul (pr_id p))), (''name'', JString (pr_name p)),
       (''signing_secret'', JString (signing_secret p)), (''destination_url'', JString (destination_url p)),
       (''max_retries'', JNumber (itoa (max_retries p))), (''max_req_second'', JNumber (itoa (max_req_second p))),
       (''is_configured'', JBool (is_configured p)), (''created_at'', JString created)]"
    using assms(4) by (simp add: provider_json_def)
  then show ?thesis by (simp only: decode_provider.simps fields Option.bind.simps) simp
qed

lemma codec_roundtrip:
  assumes "uuid_laws ul" and "provider_ok zone p"
  shows "codec_ok (provider_codec ul zone) p"
proof -
  obtain created where m: "marshal_time (zone (pr_created_at p)) (pr_created_at p) = Some created"
    "created = format_time True (zone (pr_created_at p)) (pr_created_at p)"
    using assms(2) by (simp add: marshal_time_def provider_ok_def)
  have "json_ok max_depth (provider_json ul created p)"
    using provider_json_ok [OF assms, of created 9999] ascii_format_time by (simp add: m(2) max_depth_def)
  note parse = json_parse_text [OF this]
  have "parse_time created = Some (pr_created_at p)" using parse_marshal_time [OF m(1)] assms(2) by (simp add: provider_ok_def)
  from decode_provider_json [OF assms this refl [THEN trans [OF provider_json_def]]] parse m(1)
  show ?thesis by (simp add: codec_ok_def provider_codec_def marshal_provider_def unmarshal_provider_def provider_json_def)
qed

section \<open>The cache with its JSON form\<close>

text \<open>
  C20. With the JSON form the program really writes, loading the cache at start-up and refreshing it
  succeed when no call fails, and afterwards the cache gives back every provider of the table, field by
  field, time of creation included, in whatever zone the driver represents it.
\<close>

theorem json_cache_coherent:
  assumes "uuid_laws ul" and "list_all (provider_ok zone) (provider_rows d)" and "provider_rows d \<noteq> []" and "schema_ok d"
  shows "(\<exists>r'. InitProviderCache (provider_codec ul zone) NoFault NoFault d False r = (Ok (), True, r') \<and>
      (\<forall>p \<in> set (provider_rows d). cache_get (provider_codec ul zone) NoFault (pr_name p) r' = Ok p)) \<and>
    (\<exists>r'. RefreshCache (provider_codec ul zone) NoFault NoFault d r = (Ok (), r') \<and>
      (\<forall>p \<in> set (provider_rows d). cache_get (provider_codec ul zone) NoFault (pr_name p) r' = Ok p))"
proof -
  have "list_all (codec_ok (provider_codec ul zone)) (provider_rows d)"
    using assms(2) codec_roundtrip [OF assms(1)] by (simp add: list_all_iff)
  from refresh_cache_coherent [OF this assms(3,4), of r] show ?thesis by (auto simp: coherent_def list_all_iff)
qed

definition sample_uuids :: uuid_lib where
  "sample_uuids = \<lparr>uuid_text = (\<lambda>u. digits (unat u)), uuid_parse = (\<lambda>s. Some (of_int (digits_value s)))\<rparr>"

lemma sample_uuids_laws: "uuid_laws sample_uuids"
  using digits_shape by (simp add: uuid_laws_def sample_uuids_def valid_utf8_ascii ascii_digits)

theorem json_cache_coherent_witness:
  "\<exists>r'. RefreshCache (provider_codec sample_uuids (\<lambda>t. 3600)) NoFault NoFault sample_db sample_redis = (Ok (), r') \<and>
     cache_get (provider_codec sample_uuids (\<lambda>t. 3600)) NoFault Stripe r' = Ok sample_provider"
proof -
  have "year_in 3600 0 = 1970" by code_simp
  then have "list_all (provider_ok (\<lambda>t. 3600)) (provider_rows sample_db)" "provider_rows sample_db \<noteq> []" "schema_ok sample_db"
    by (simp_all add: sample_db_def provider_ok_def sample_provider_def valid_utf8_ascii schema_ok_def)
  from json_cache_coherent [OF sample_uuids_laws this, of sample_redis] show ?thesis
    by (auto simp: sample_db_def sample_provider_def)
qed

end
