(* ===== verification/Relay.thy ===== *)
theory Relay
  imports Codec System
begin

text \<open>
  From the sender to the destination: what becomes of a webhook's headers and body on the way through
  the handler, the JSON form in which the database keeps them, and the worker.
\<close>

section \<open>What the database keeps of JSON\<close>

text \<open>
  PostgreSQL's \<^verbatim>\<open>jsonb\<close> does not keep the text but the value: white space and the order of the members of an
  object may change. For an object whose members are lists of texts, as the headers are, this is all
  that may change.
\<close>

fun texts :: "json \<Rightarrow> bool" where
  "texts (JArray vs) = list_all (\<lambda>v. case v of JString _ \<Rightarrow> True | _ \<Rightarrow> False) vs"
| "texts _ = False"

definition jsonb_headers :: "(bytes \<Rightarrow> bytes option) \<Rightarrow> bool" where
  "jsonb_headers jb \<longleftrightarrow>
     (\<forall>b b' ms. json_parse b = Some (JObject ms) \<longrightarrow> distinct (map fst ms) \<longrightarrow> list_all (texts \<circ> snd) ms \<longrightarrow> jb b = Some b' \<longrightarrow>
        (\<exists>ms'. json_parse b' = Some (JObject ms') \<and> mset ms' = mset ms))"

fun allowed_headers :: "endpoint \<Rightarrow> string list" where
  "allowed_headers GitEndpoint = github_allowed"
| "allowed_headers ShopifyEndpoint = shopify_allowed"
| "allowed_headers StripeEndpoint = stripe_allowed"

section \<open>The way of a webhook\<close>

lemma steps_extend: "steps False w w' \<Longrightarrow> extends w w'"
  by (induction rule: rtranclp_induct) (auto simp: extends_def intro: prefix_order.trans world_step_extends [unfolded extends_def])

lemma extends_row:
  assumes "extends w w'" and "hook \<in> set (webhook_events (wd_db w))"
  obtains hook' where "hook' \<in> set (webhook_events (wd_db w'))" "identity hook' = identity hook"
proof -
  have "identity hook \<in> set (map identity (webhook_events (wd_db w')))"
    using set_mono_prefix [OF assms(1) [unfolded extends_def]] assms(2) by auto
  then show thesis using that by auto
qed

lemma stored_headers_read_back:
  assumes "header_ok h" and "jsonb_headers jb" and "jb (json_text (header_json h)) = Some b" and "order_ok ord"
  obtains h' where "unmarshal_header ord b = Inr h'" "mset h' = mset h"
proof -
  define ms where "ms = map (\<lambda>(k, vs). (k, JArray (map JString vs))) (sort_key fst h)"
  have d: "distinct (map fst h)" using assms(1) by (simp add: header_ok_def)
  have "max_depth = Suc (Suc 9998)" by (simp add: max_depth_def)
  then have p: "json_parse (json_text (header_json h)) = Some (JObject ms)"
    using json_parse_text [of "header_json h"] header_json_ok [OF assms(1)] by (metis header_json_def ms_def)
  have "map fst ms = map fst (sort_key fst h)" by (auto simp: ms_def)
  then have "distinct (map fst ms)" using d mset_eq_imp_distinct_iff [of "map fst (sort_key fst h)" "map fst h"] by simp
  moreover have "list_all (texts \<circ> snd) ms" by (auto simp: ms_def list_all_iff)
  ultimately obtain ms' where m: "json_parse b = Some (JObject ms')" "mset ms' = mset ms"
    using assms(2,3) p unfolding jsonb_headers_def by blast
  then have "header_members h ms'" by (simp add: header_members_def ms_def)
  then show thesis by (rule unmarshal_header_members [OF m(1) _ d assms(4)]) (rule that)
qed

lemma forward_headers_endpoint:
  "un raw = Inr h' \<Longrightarrow> forward_headers (endpoint_name ep) un raw = Ok (forward_allowed (allowed_headers ep) h' [])"
  by (cases ep) (simp_all add: forward_headers_def github_SetForwardHeaders_def shopify_SetForwardHeaders_def
      stripe_SetForwardHeaders_def set_forward_headers_def)

lemma relayed_parts:
  assumes "forward_one fe hook r = (u, Some req, r')"
  shows "hr_body req = payload hook \<and>
    forward_headers (provider_name hook) (fe_unmarshal_headers fe) (headers hook) = Ok (hr_header req)"
  using assms
proof (cases rule: forward_one_cases [of fe hook r])
  case (sent prov r'' h req')
  moreover have "req = req'" using assms sent(5) by (auto split: http_result.splits)
  ultimately show ?thesis by auto
qed (use assms in auto)

text \<open>
  C3. A webhook reaches the destination as it came. Once a handler has answered that it is queued, and
  whatever the program does until the next cleanup, its event is stored under the sender's id, and
  every request a worker makes for it has, under every allowlisted name, exactly the values that the
  sender's request had there, under no other name any value, and as its body the stored form of the
  sender's body.
\<close>

theorem webhook_relayed:
  assumes "initial w0" and "(world_step True)\<^sup>*\<^sup>* w0 w"
    and "Receive ep re rq w = (Ok rsp, w1)" and "map_of (rsp_body rsp) ''id'' = Some i"
    and "(world_step False)\<^sup>*\<^sup>* w1 v"
    and "re_marshal_header re = marshal_header" and "header_ok (rq_header rq)"
    and "jsonb_headers (ie_jsonb (so_insert (re_store re)))"
    and "fe_unmarshal_headers fe = unmarshal_header ord" and "order_ok ord"
  shows "\<exists>hook \<in> set (webhook_events (wd_db v)). provider_name hook = endpoint_name ep \<and> event_id hook = Some i \<and>
    ie_jsonb (so_insert (re_store re)) (rq_body rq) = Some (payload hook) \<and>
    (\<forall>r u req r'. forward_one fe hook r = (u, Some req, r') \<longrightarrow>
       hr_body req = payload hook \<and>
       (\<forall>k. header_values (hr_header req) k = (if k \<in> set (allowed_headers ep) then header_values (rq_header rq) k else [])))"
proof -
  have "world_ok w" by (rule system.reachable_inv [OF assms(1,2)])
  then have sig: "0 < chan_cap (wd_signal w)" "chan_ok (wd_signal w)"
    by (auto simp: world_ok_def signal_ok_def chan_ok_def TotalQueueWorkers_def)
  from queued_row [OF assms(3,4) sig] obtain hook0 hdrs where
    row: "webhook_events (wd_db w1) = webhook_events (wd_db w) @ [hook0]" "re_marshal_header re (rq_header rq) = Ok hdrs"
    "ie_jsonb (so_insert (re_store re)) hdrs = Some (headers hook0)"
    and h0: "provider_name hook0 = endpoint_name ep" "event_id hook0 = Some i"
    "ie_jsonb (so_insert (re_store re)) (rq_body rq) = Some (payload hook0)"
    by blast
  have stored: "hook0 \<in> set (webhook_events (wd_db w1))" by (simp add: row(1))
  have jb: "ie_jsonb (so_insert (re_store re)) (json_text (header_json (rq_header rq))) = Some (headers hook0)"
    using row(2,3) by (simp add: assms(6) marshal_header_def)
  obtain hook where hook: "hook \<in> set (webhook_events (wd_db v))" "identity hook = identity hook0"
    using extends_row [OF steps_extend [OF assms(5)] stored] by blast
  then have same: "provider_name hook = provider_name hook0" "event_id hook = event_id hook0"
    "headers hook = headers hook0" "payload hook = payload hook0" by (simp_all add: identity_def)
  obtain h' where h': "unmarshal_header ord (headers hook) = Inr h'" "mset h' = mset (rq_header rq)"
    using stored_headers_read_back [OF assms(7,8) jb assms(10)] same(3) by auto
  have "hr_body req = payload hook \<and>
      (\<forall>k. header_values (hr_header req) k = (if k \<in> set (allowed_headers ep) then header_values (rq_header rq) k else []))"
    if "forward_one fe hook r = (u, Some req, r')" for r u req r'
  proof -
    have "hr_body req = payload hook" "hr_header req = forward_allowed (allowed_headers ep) h' []"
      using relayed_parts [OF that] forward_headers_endpoint [of "unmarshal_header ord" "headers hook" h' ep] h'(1)
      by (simp_all add: assms(9) same(1) h0(1))
    then show ?thesis using forwarded_values [OF assms(7) h'(2)] by simp
  qed
  then show ?thesis using hook(1) same h0 by (intro bexI [of _ hook]) auto
qed

lemma ascii_hex_encode: "ascii (hex_encode s)"
proof (induction s)
  case (Cons c s)
  have "code (hex_digit n) < 128" if "n < 16" for n using that by (auto simp: hex_digit_def)
  moreover have "code c div 16 < 16" using nat_of_char_less_256 [of c] by (simp add: less_mult_imp_div_less)
  ultimately show ?case using Cons by simp
qed simp

definition relay_env :: receive_env where
  "relay_env = git_env\<lparr>re_marshal_header := marshal_header\<rparr>"

lemma relay_request_ok: "header_ok (rq_header (git_request ''d''))"
  by (simp add: header_ok_def git_request_def valid_utf8_ascii ascii_hex_encode)

lemma relay_run:
  obtains rsp w1 where "Receive GitEndpoint relay_env (git_request ''d'') (git_world []) = (Ok rsp, w1)" "map_of (rsp_body rsp) ''id'' = Some ''7''"
proof -
  have "github_Exists git_svc NoFault NoFault ''d'' sample_cache (wd_db (git_world [])) = Ok False"
    by (simp add: github_Exists_def provider_exists_Ok has_event_def git_world_def)
  moreover obtain hook d where "github_InsertWebhook git_svc (re_store git_env) (json_text (header_json (rq_header (git_request ''d''))))
      ''{}'' ''7'' ''push'' sample_cache (wd_db (git_world [])) = (Ok hook, d)"
    by (simp add: github_InsertWebhook_def provider_insert_def git_env_def InsertWebhook_def insert_stmt_def has_event_def
        git_world_def sample_provider_def Let_def)
  ultimately have "\<exists>w1. Receive GitEndpoint relay_env (git_request ''d'') (git_world []) =
      (Ok \<lparr>rsp_code = 200, rsp_body = [(''id'', ''7''), (''status'', ''queued'')]\<rparr>, w1)"
    by (simp add: git_Receive_def Let_def git_env_def relay_env_def marshal_header_def queued_reply_def git_world_def del: append.simps)
  then show thesis using that by fastforce
qed

theorem webhook_relayed_witness:
  "\<exists>rsp w1 hook. Receive GitEndpoint relay_env (git_request ''d'') (git_world []) = (Ok rsp, w1) \<and>
     hook \<in> set (webhook_events (wd_db w1)) \<and> event_id hook = Some ''7'' \<and> payload hook = ''{}''"
proof -
  obtain rsp w1 where run: "Receive GitEndpoint relay_env (git_request ''d'') (git_world []) = (Ok rsp, w1)"
    and i: "map_of (rsp_body rsp) ''id'' = Some ''7''" by (rule relay_run)
  have jb: "jsonb_headers (ie_jsonb (so_insert (re_store relay_env)))"
    by (auto simp: jsonb_headers_def relay_env_def git_env_def)
  have m: "re_marshal_header relay_env = marshal_header" by (simp add: relay_env_def)
  have "\<exists>hook \<in> set (webhook_events (wd_db w1)). event_id hook = Some ''7'' \<and>
      ie_jsonb (so_insert (re_store relay_env)) (rq_body (git_request ''d'')) = Some (payload hook)"
    using webhook_relayed [OF git_world_initial rtranclp.rtrancl_refl run i rtranclp.rtrancl_refl m relay_request_ok jb,
        of "sample_forward\<lparr>fe_unmarshal_headers := unmarshal_header id\<rparr>" id]
    by (auto simp: order_ok_def)
  then show ?thesis using run by (auto simp: relay_env_def git_env_def git_request_def)
qed

section \<open>Signatures on the way\<close>

lemma header_get_values: "header_get h k = (case header_values h (canonical_header_key k) of v # _ \<Rightarrow> v | [] \<Rightarrow> [])"
  by (auto simp: header_get_def header_values_def split: option.splits list.splits)

text \<open>
  C35. The sender's signature does not survive the way. GitHub's signature header is passed on, but the
  body is the stored form of the sender's body, whose text \<^verbatim>\<open>jsonb\<close> may have changed: a destination that
  checks the signature of the sender's accepted request with the same secret accepts the forwarded one
  exactly when the stored text has the same tag as the text that was signed.
\<close>

theorem relayed_signature:
  assumes "provider_name hook = Github" and "fe_unmarshal_headers fe (headers hook) = Inr parsed" and "header_ok parsed"
    and "github_accepts key (header_get parsed ''X-Hub-Signature-256'') body"
    and "forward_one fe hook r = (u, Some req, r')"
  shows "header_get (hr_header req) ''X-Hub-Signature-256'' = header_get parsed ''X-Hub-Signature-256'' \<and>
    (github_accepts key (header_get (hr_header req) ''X-Hub-Signature-256'') (hr_body req) \<longleftrightarrow>
       hmac_sum key (payload hook) = hmac_sum key body)"
proof -
  note req = relayed_parts [OF assms(5)]
  have "hr_header req = forward_allowed github_allowed parsed []"
    using req forward_headers_endpoint [where un = "fe_unmarshal_headers fe" and raw = "headers hook" and ep = GitEndpoint, OF assms(2)] by (simp add: assms(1))
  then have "header_values (hr_header req) ''X-Hub-Signature-256'' = header_values parsed ''X-Hub-Signature-256''"
    using forwarded_values [OF assms(3) refl, of github_allowed] by (simp add: github_allowed_def)
  then have same: "header_get (hr_header req) ''X-Hub-Signature-256'' = header_get parsed ''X-Hub-Signature-256''"
    by (simp add: header_get_values)
  have "github_accepts key (header_get parsed ''X-Hub-Signature-256'') (payload hook) \<longleftrightarrow> hmac_sum key (payload hook) = hmac_sum key body"
    using assms(4) unfolding github_accepts_def by (metis hex_encode_inject same_append_eq)
  then show ?thesis using same req by simp
qed

text \<open>A body with a space in it: the database gives it back without.\<close>

definition spaced_event :: webhook where
  "spaced_event = (sample_row 1 Processing 0)\<lparr>provider_name := Github, payload := ''{}''\<rparr>"

definition spaced_headers :: header where
  "spaced_headers = [(''X-Hub-Signature-256'', [''sha256='' @ hex_encode (hmac_sum ''k'' ''{ }'')])]"

definition relay_forward :: forward_env where
  "relay_forward = sample_forward\<lparr>fe_codec := svc_codec git_svc, fe_unmarshal_headers := (\<lambda>b. Inr spaced_headers)\<rparr>"

lemma relay_forward_run: "\<exists>u req r'. forward_one relay_forward spaced_event sample_cache = (u, Some req, r')"
  by (simp add: forward_one_def relay_forward_def spaced_event_def sample_forward_def sample_row_def sample_provider_def
      Allow_def exact_at_def run_script_def allow_script_def live_bucket_def limit_key_def Let_def forward_headers_def
      github_SetForwardHeaders_def set_forward_headers_def sample_cache_def cache_get_def GetBytes_def git_svc_def)

theorem relayed_signature_witness:
  "\<exists>u req r'. forward_one relay_forward spaced_event sample_cache = (u, Some req, r') \<and> hr_body req = ''{}'' \<and>
     (github_accepts ''k'' (header_get (hr_header req) ''X-Hub-Signature-256'') ''{}'' \<longleftrightarrow> hmac_sum ''k'' ''{}'' = hmac_sum ''k'' ''{ }'')"
proof -
  obtain u req r' where run: "forward_one relay_forward spaced_event sample_cache = (u, Some req, r')"
    using relay_forward_run by blast
  have ok: "header_ok spaced_headers" by (simp add: header_ok_def spaced_headers_def valid_utf8_ascii ascii_hex_encode)
  have acc: "github_accepts ''k'' (header_get spaced_headers ''X-Hub-Signature-256'') ''{ }''"
    by (simp add: github_accepts_def header_get_def spaced_headers_def)
  have "hr_body req = ''{}''" using relayed_parts [OF run] by (simp add: spaced_event_def)
  with relayed_signature [OF _ _ ok acc run] run show ?thesis by (auto simp: spaced_event_def relay_forward_def)
qed

end
