(* ===== verification/MockReceiver.thy ===== *)
theory MockReceiver
  imports Http GoJson
begin

text \<open>
  \<^verbatim>\<open>cmd/api-mock/main.go\<close>: the simulated destination used for load tests. Its random draws are
  arguments; its two locks make the choice of an answer and each update of the counters atomic.
\<close>

section \<open>Modes and state\<close>

type_synonym mode = string

definition ModeSuccess :: mode where "ModeSuccess = ''success''"
definition ModeOutage :: mode where "ModeOutage = ''outage''"
definition ModeSlowRecover :: mode where "ModeSlowRecover = ''slow_recover''"
definition ModeFatal :: mode where "ModeFatal = ''fatal''"
definition ModeChaos :: mode where "ModeChaos = ''chaos''"
definition ModeFlaky :: mode where "ModeFlaky = ''flaky''"

lemmas mode_defs = ModeSuccess_def ModeOutage_def ModeSlowRecover_def ModeFatal_def ModeChaos_def ModeFlaky_def

abbreviation StatusNotFound :: nat where "StatusNotFound \<equiv> 404"
abbreviation StatusMethodNotAllowed :: nat where "StatusMethodNotAllowed \<equiv> 405"

definition fatalCodes :: "nat list" where
  "fatalCodes = [StatusBadRequest, StatusUnauthorized, StatusNotFound]"

definition fatalMessages :: "nat \<rightharpoonup> string" where
  "fatalMessages =
     [StatusBadRequest \<mapsto> ''{\"error\":\"bad_request\",\"message\":\"invalid payload schema\"}'',
      StatusUnauthorized \<mapsto> ''{\"error\":\"unauthorized\",\"message\":\"invalid or revoked credentials\"}'',
      StatusNotFound \<mapsto> ''{\"error\":\"not_found\",\"message\":\"endpoint does not exist\"}'']"

record mode_stats =
  Requests :: int
  Successes :: int
  Failures :: int

record mock =
  currentMode :: mode
  failCount :: int
  failCounter :: int
  flakyFailRate :: real
  mock_stats :: mode_stats

definition new_mock :: mock where
  "new_mock = \<lparr>currentMode = ModeSuccess, failCount = 0, failCounter = 0, flakyFailRate = 1 / 2,
     mock_stats = \<lparr>Requests = 0, Successes = 0, Failures = 0\<rparr>\<rparr>"

definition record_stat :: "bool \<Rightarrow> mode_stats \<Rightarrow> mode_stats" where
  "record_stat success st =
     (let st = st\<lparr>Requests := wrap64 (Requests st + 1)\<rparr> in
      if success then st\<lparr>Successes := wrap64 (Successes st + 1)\<rparr> else st\<lparr>Failures := wrap64 (Failures st + 1)\<rparr>)"

definition reset_stats :: "mode_stats \<Rightarrow> mode_stats" where
  "reset_stats st = st\<lparr>Requests := 0, Successes := 0, Failures := 0\<rparr>"

definition shouldFail :: "mock \<Rightarrow> bool \<times> mock" where
  "shouldFail m = (if failCounter m < failCount m then (True, m\<lparr>failCounter := failCounter m + 1\<rparr>) else (False, m))"

section \<open>The endpoints\<close>

text \<open>
  An answer: a status with the \<open>Retry-After\<close> header and a body, a body that is written one character
  at a time after a 200, or a reset connection.
\<close>

datatype mock_reply = Status nat "string option" bytes | Trickled bytes | ConnectionReset

text \<open>The random draws of one request: for the flaky mode, the delay and the status.\<close>

record draws =
  dr_float :: real
  dr_delay :: nat
  dr_status :: nat

definition count_reply :: "bool \<Rightarrow> mock \<Rightarrow> mock" where
  "count_reply success m = m\<lparr>mock_stats := record_stat success (mock_stats m)\<rparr>"

text \<open>\<^verbatim>\<open>json.NewEncoder(w).Encode\<close> and \<^verbatim>\<open>fmt.Fprintln\<close> end their text with a newline, as does \<^verbatim>\<open>http.Error\<close>.\<close>

definition line :: "bytes \<Rightarrow> bytes" where
  "line b = b @ [CHR 0x0A]"

definition sendJSON :: "nat \<Rightarrow> json \<Rightarrow> mock \<Rightarrow> mock_reply \<times> mock" where
  "sendJSON c payload m = (Status c None (line (json_text payload)), count_reply (c < 300) m)"

definition received :: json where
  "received = JObject [(''received'', JBool True)]"

definition recovered :: json where
  "recovered = JObject [(''received'', JBool True), (''recovered'', JBool True)]"

text \<open>
  \<open>rng.Intn(n)\<close> is a draw below \<open>n\<close>. The delays change nothing but the time; the connection of an
  HTTP/1 server can always be hijacked.
\<close>

definition uniWebhookHandler :: "draws \<Rightarrow> bool \<Rightarrow> mock \<Rightarrow> mock_reply \<times> mock" where
  "uniWebhookHandler dr is_post m =
     (if \<not> is_post then (Status StatusMethodNotAllowed None (line ''Method Not Allowed''), m)
      else let mode = currentMode m;
               (failing, m1) = (if mode = ModeOutage \<or> mode = ModeSlowRecover \<or> mode = ModeFatal \<or> mode = ModeChaos then shouldFail m
                                else if mode = ModeFlaky then (dr_float dr < flakyFailRate m, m) else (False, m));
               bad_status = fatalCodes ! (dr_status dr mod length fatalCodes);
               bad = Status bad_status None (line (case fatalMessages bad_status of Some t \<Rightarrow> t | None \<Rightarrow> []))
           in if mode = ModeSuccess then sendJSON StatusOK received m1
              else if mode = ModeOutage then
                if failing then (Status StatusServiceUnavailable (Some (itoa (5 + int (dr_delay dr mod 25))))
                    (line ''<html><body><h1>503 Service Temporarily Unavailable</h1></body></html>''), count_reply False m1)
                else sendJSON StatusOK recovered m1
              else if mode = ModeSlowRecover then
                if failing then (Trickled ''{\"received\":true,\"note\":\"trickle_complete\"}'', count_reply True m1)
                else sendJSON StatusOK received m1
              else if mode = ModeFatal then
                if failing then (bad, count_reply False m1) else sendJSON StatusOK received m1
              else if mode = ModeChaos then
                if failing then (ConnectionReset, count_reply False m1) else sendJSON StatusOK recovered m1
              else if mode = ModeFlaky then
                if failing then (bad, count_reply False m1) else sendJSON StatusOK received m1
              else sendJSON StatusOK received m1)"

record control_body =
  ctl_mode :: mode
  ctl_fail_count :: int
  ctl_fail_rate :: real

text \<open>\<^verbatim>\<open>fmt.Sprintf("%d/%d", failCounter, failCount)\<close>, and a map with its keys in order.\<close>

definition fail_progress :: "mock \<Rightarrow> string" where
  "fail_progress m = itoa (failCounter m) @ ''/'' @ itoa (failCount m)"

text \<open>\<open>body\<close> is the decoded request body, \<open>None\<close> when it is not valid.\<close>

definition controlHandler :: "bool \<Rightarrow> control_body option \<Rightarrow> mock \<Rightarrow> mock_reply \<times> mock" where
  "controlHandler is_get body m =
     (if is_get then
        (Status StatusOK None (line (json_text (JObject [(''fail_count'', JNumber (itoa (failCount m))),
           (''fail_progress'', JString (fail_progress m)), (''mode'', JString (currentMode m))]))), m)
      else case body of
        None \<Rightarrow> (Status StatusBadRequest None (line ''invalid body''), m)
      | Some b \<Rightarrow>
          (Status StatusOK None [],
           m\<lparr>currentMode := ctl_mode b, failCounter := 0,
             failCount := (if ctl_mode b = ModeFatal then (if 0 < ctl_fail_count b then ctl_fail_count b else 50000)
                           else if 0 < ctl_fail_count b then ctl_fail_count b else failCount m),
             flakyFailRate := (if 0 < ctl_fail_rate b then ctl_fail_rate b else flakyFailRate m),
             mock_stats := reset_stats (mock_stats m)\<rparr>))"

definition stats_handler :: "mock \<Rightarrow> mock_reply" where
  "stats_handler m =
     Status StatusOK None (line (json_text (JObject
       [(''fail_progress'', JString (fail_progress m)), (''failures'', JNumber (itoa (Failures (mock_stats m)))),
        (''mode'', JString (currentMode m)), (''requests'', JNumber (itoa (Requests (mock_stats m)))),
        (''successes'', JNumber (itoa (Successes (mock_stats m))))])))"

section \<open>Properties\<close>

text \<open>What a request is answered with in a failing mode, before and after healing.\<close>

definition mode_reply :: "mode \<Rightarrow> bool \<Rightarrow> mock_reply \<Rightarrow> bool" where
  "mode_reply mode failing r \<longleftrightarrow>
     (if \<not> failing then r = Status 200 None (line (json_text (if mode = ModeFatal then received else recovered)))
      else if mode = ModeOutage then \<exists>n b. 5 \<le> n \<and> n < 30 \<and> r = Status 503 (Some (itoa n)) b
      else if mode = ModeFatal then \<exists>c m. c \<in> {400, 401, 404} \<and> fatalMessages c = Some m \<and> r = Status c None (line m)
      else r = ConnectionReset)"

lemma bad_status:
  "fatalCodes ! (n mod length fatalCodes) \<in> {400, 401, 404} \<and> (\<exists>m. fatalMessages (fatalCodes ! (n mod length fatalCodes)) = Some m)"
proof -
  have "n mod 3 < 3" by simp
  then have "n mod 3 = 0 \<or> n mod 3 = 1 \<or> n mod 3 = 2" by linarith
  then show ?thesis by (auto simp: fatalCodes_def fatalMessages_def)
qed

lemma failing_reply:
  assumes "currentMode m \<in> {ModeOutage, ModeFatal, ModeChaos}" and "uniWebhookHandler dr True m = (r, m')"
  shows "mode_reply (currentMode m) (failCounter m < failCount m) r"
    and "m' = count_reply (\<not> (failCounter m < failCount m))
      (if failCounter m < failCount m then m\<lparr>failCounter := failCounter m + 1\<rparr> else m)"
proof -
  obtain t where t: "fatalMessages (fatalCodes ! (dr_status dr mod length fatalCodes)) = Some t"
    "fatalCodes ! (dr_status dr mod length fatalCodes) \<in> {400, 401, 404}"
    using bad_status [of "dr_status dr"] by blast
  have d: "\<exists>n \<ge> 5. n < 30 \<and> itoa (5 + int (dr_delay dr mod 25)) = itoa n"
    by (intro exI [of _ "5 + int (dr_delay dr mod 25)"]) simp
  show "mode_reply (currentMode m) (failCounter m < failCount m) r"
    using assms t(1) t(2) [unfolded insert_iff] d
    by (auto simp: uniWebhookHandler_def shouldFail_def sendJSON_def mode_reply_def mode_defs Let_def
        simp del: json_text.simps split: if_splits)
  show "m' = count_reply (\<not> (failCounter m < failCount m))
      (if failCounter m < failCount m then m\<lparr>failCounter := failCounter m + 1\<rparr> else m)"
    using assms by (auto simp: uniWebhookHandler_def shouldFail_def sendJSON_def mode_defs Let_def split: if_splits)
qed

definition counts :: "int \<Rightarrow> int \<Rightarrow> mock \<Rightarrow> bool" where
  "counts good bad m \<longleftrightarrow> mock_stats m = \<lparr>Requests = good + bad, Successes = good, Failures = bad\<rparr>"

lemma count_reply_parts [simp]:
  "currentMode (count_reply b m) = currentMode m" "failCount (count_reply b m) = failCount m"
  "failCounter (count_reply b m) = failCounter m"
  by (simp_all add: count_reply_def)

lemma counts_reply:
  assumes "counts good bad m" and "0 \<le> good" and "0 \<le> bad" and "good + bad + 1 < 2 ^ 63"
  shows "counts (if b then good + 1 else good) (if b then bad else bad + 1) (count_reply b m)"
  using assms by (auto simp: counts_def count_reply_def record_stat_def Let_def)

lemma counts_counter [simp]: "counts good bad (m\<lparr>failCounter := n\<rparr>) = counts good bad m"
  by (simp add: counts_def)

lemma mock_run:
  assumes "currentMode m \<in> {ModeOutage, ModeFatal, ModeChaos}" and "failCounter m \<le> failCount m"
    and "counts good bad m" and "0 \<le> good" and "0 \<le> bad" and "good + bad + int (length ds) < 2 ^ 63"
    and "run_ops (\<lambda>dr. uniWebhookHandler dr True) ds m = (rs, m')" and "k = nat (failCount m - failCounter m)"
  shows "list_all2 (mode_reply (currentMode m)) (replicate (min k (length ds)) True @ replicate (length ds - k) False) rs \<and>
    counts (good + int (length ds - k)) (bad + int (min k (length ds))) m'"
  using assms
proof (induction ds arbitrary: m good bad rs k)
  case (Cons dr ds)
  obtain r m1 where h: "uniWebhookHandler dr True m = (r, m1)" by fastforce
  note f = failing_reply [OF Cons.prems(1) h]
  define b where "b = (\<not> failCounter m < failCount m)"
  obtain rs' where rs: "rs = r # rs'" and run: "run_ops (\<lambda>dr. uniWebhookHandler dr True) ds m1 = (rs', m')"
    using Cons.prems(7) h by (auto split: prod.splits)
  have len: "good + bad + 1 < 2 ^ 63" using Cons.prems(6) by simp
  have c: "counts (if b then good + 1 else good) (if b then bad else bad + 1) m1"
    unfolding f(2) b_def by (rule counts_reply) (use Cons.prems(3-5) len in auto)
  have m1: "currentMode m1 = currentMode m" "failCount m1 = failCount m"
    "failCounter m1 = (if b then failCounter m else failCounter m + 1)"
    by (simp_all add: f(2) b_def)
  have IH: "list_all2 (mode_reply (currentMode m)) (replicate (min k' (length ds)) True @ replicate (length ds - k') False) rs' \<and>
      counts ((if b then good + 1 else good) + int (length ds - k')) ((if b then bad else bad + 1) + int (min k' (length ds))) m'"
    if "k' = nat (failCount m1 - failCounter m1)" for k'
    unfolding m1(1) [symmetric] by (rule Cons.IH [OF _ _ c _ _ _ run that]) (use Cons.prems m1 b_def in auto)
  show ?case
  proof (cases b)
    case True
    then have k: "k = 0" using Cons.prems(2,8) by (simp add: b_def)
    have "nat (failCount m1 - failCounter m1) = 0" using True Cons.prems(2) by (simp add: m1 b_def)
    with IH [of 0] True show ?thesis using f(1) by (simp add: rs k b_def algebra_simps)
  next
    case False
    then have "k = Suc (nat (failCount m1 - failCounter m1))" using Cons.prems(8) by (simp add: m1 b_def)
    with IH [OF refl] False f(1) show ?thesis by (simp add: rs b_def algebra_simps)
  qed
qed simp

text \<open>
  C40. Set to the mode of an outage, of fatal errors or of chaos, with a positive count \<open>k\<close>, the
  simulator fails exactly the next \<open>k\<close> requests, whatever is drawn: with 503 and a delay of 5 to 29
  seconds, with one of 400, 401 and 404 and its message, or by closing the connection. Every later
  request is answered with 200 and the body that says so. The counters show every request exactly
  once, under what it was.
\<close>

theorem mock_heals_after_count:
  assumes "ctl_mode b \<in> {ModeOutage, ModeFatal, ModeChaos}" and "0 < ctl_fail_count b"
    and "int (length ds) < 2 ^ 63" and "k = nat (ctl_fail_count b)"
  shows "case run_ops (\<lambda>dr. uniWebhookHandler dr True) ds (snd (controlHandler False (Some b) m)) of (rs, m') \<Rightarrow>
    length rs = length ds \<and> (\<forall>i < length ds. mode_reply (ctl_mode b) (i < k) (rs ! i)) \<and>
    mock_stats m' = \<lparr>Requests = int (length ds), Successes = int (length ds - k), Failures = int (min k (length ds))\<rparr>"
proof -
  let ?m = "snd (controlHandler False (Some b) m)"
  have m: "currentMode ?m \<in> {ModeOutage, ModeFatal, ModeChaos}" "failCounter ?m \<le> failCount ?m" "counts 0 0 ?m"
    "k = nat (failCount ?m - failCounter ?m)"
    using assms by (auto simp: controlHandler_def counts_def reset_stats_def)
  have mode: "currentMode ?m = ctl_mode b" by (simp add: controlHandler_def)
  obtain rs m' where run: "run_ops (\<lambda>dr. uniWebhookHandler dr True) ds ?m = (rs, m')" by fastforce
  let ?flags = "replicate (min k (length ds)) True @ replicate (length ds - k) False"
  have all: "list_all2 (mode_reply (ctl_mode b)) ?flags rs" and c: "counts (int (length ds - k)) (int (min k (length ds))) m'"
    using mock_run [OF m(1-3) _ _ _ run m(4)] assms(3) unfolding mode by simp_all
  have "length ?flags = length ds" by auto
  moreover have "?flags ! i = (i < k)" if "i < length ds" for i using that by (simp add: nth_append)
  ultimately have "length rs = length ds \<and> (\<forall>i < length ds. mode_reply (ctl_mode b) (i < k) (rs ! i))"
    using all unfolding list_all2_conv_all_nth by metis
  moreover have "int (length ds - k) + int (min k (length ds)) = int (length ds)" by auto
  ultimately show ?thesis using c run by (simp add: counts_def)
qed

theorem mock_heals_after_count_witness:
  "case run_ops (\<lambda>dr. uniWebhookHandler dr True) (replicate 3 \<lparr>dr_float = 0, dr_delay = 7, dr_status = 2\<rparr>)
     (snd (controlHandler False (Some \<lparr>ctl_mode = ModeChaos, ctl_fail_count = 2, ctl_fail_rate = 0\<rparr>) new_mock)) of (rs, m') \<Rightarrow>
   rs ! 1 = ConnectionReset \<and> rs ! 2 = Status 200 None (line (json_text recovered))"
proof -
  let ?b = "\<lparr>ctl_mode = ModeChaos, ctl_fail_count = 2, ctl_fail_rate = 0\<rparr>" and ?ds = "replicate 3 \<lparr>dr_float = 0, dr_delay = 7, dr_status = 2\<rparr>"
  obtain rs m' where run: "run_ops (\<lambda>dr. uniWebhookHandler dr True) ?ds (snd (controlHandler False (Some ?b) new_mock)) = (rs, m')"
    by (rule prod.exhaust)
  have pre: "ctl_mode ?b \<in> {ModeOutage, ModeFatal, ModeChaos}" "0 < ctl_fail_count ?b" "int (length ?ds) < 2 ^ 63"
    "2 = nat (ctl_fail_count ?b)" by simp_all
  from mock_heals_after_count [OF pre, of new_mock] have all: "\<forall>i < length ?ds. mode_reply (ctl_mode ?b) (i < 2) (rs ! i)"
    unfolding run prod.case by (elim conjE)
  have "mode_reply ModeChaos True (rs ! 1)" "mode_reply ModeChaos False (rs ! 2)"
    using all [rule_format, of 1] all [rule_format, of 2] by simp_all
  then have "rs ! 1 = ConnectionReset" "rs ! 2 = Status 200 None (line (json_text recovered))"
    by (simp_all add: mode_reply_def mode_defs)
  then show ?thesis unfolding run by simp
qed

end
