(* ===== verification/TestDB.thy ===== *)
theory TestDB
  imports Http "HOL-Library.Sublist" "HOL-Library.List_Lexorder" "HOL-Library.Char_ord"
begin

text \<open>
  \<^verbatim>\<open>internal/testutil/pgcontainer.go\<close>: the database of the integration tests. The migrations are copied
  to temporary files without their \<^verbatim>\<open>Down\<close> sections, a PostgreSQL container runs the copies in the
  order of their names, and a clean-up function removes everything. Docker, testcontainers-go and pgx are
  arguments.
\<close>

section \<open>Files and paths\<close>

type_synonym files = "string \<rightharpoonup> bytes"

text \<open>\<^verbatim>\<open>strings.Index\<close> and \<^verbatim>\<open>filepath.Base\<close>.\<close>

fun str_index :: "string \<Rightarrow> string \<Rightarrow> nat option" where
  "str_index sub [] = (if sub = [] then Some 0 else None)"
| "str_index sub (c # s) = (if prefix sub (c # s) then Some 0 else map_option Suc (str_index sub s))"

definition path_base :: "string \<Rightarrow> string" where
  "path_base path =
     (if path = [] then ''.''
      else let p = rev (dropWhile (\<lambda>c. c = CHR ''/'') (rev path))
           in if p = [] then ''/'' else rev (takeWhile (\<lambda>c. c \<noteq> CHR ''/'') (rev p)))"

text \<open>
  What the system does for one temporary file: whether the source can be read, the outcome of
  \<^verbatim>\<open>os.CreateTemp\<close> with the random part of its last attempt, and a failing write with the number of
  bytes that reached the file. A name that is already taken is an error, since the file is opened
  exclusively.
\<close>

record temp_io =
  ti_read :: "go_error option"
  ti_create :: "go_error option"
  ti_random :: string
  ti_write :: "(go_error \<times> nat) option"

definition ReadFile :: "temp_io \<Rightarrow> string \<Rightarrow> files \<Rightarrow> go_error + bytes" where
  "ReadFile x path fs =
     (case ti_read x of
        Some e \<Rightarrow> Inl e
      | None \<Rightarrow> (case fs path of None \<Rightarrow> Inl (LibError ''no such file or directory'') | Some b \<Rightarrow> Inr b))"

definition temp_name :: "string \<Rightarrow> string \<Rightarrow> string \<Rightarrow> string \<Rightarrow> string" where
  "temp_name dir before random after = dir @ ''/'' @ before @ random @ after"

definition CreateTemp :: "temp_io \<Rightarrow> string \<Rightarrow> string \<Rightarrow> string \<Rightarrow> files \<Rightarrow> go_error + string \<times> files" where
  "CreateTemp x dir before after fs =
     (let name = temp_name dir before (ti_random x) after in
      case ti_create x of
        Some e \<Rightarrow> Inl e
      | None \<Rightarrow> if name \<in> dom fs then Inl (LibError ''file exists'') else Inr (name, fs(name \<mapsto> [])))"

section \<open>Copies of the migrations\<close>

definition goose_down :: string where
  "goose_down = CHR 0x0A # ''-- +goose Down''"

text \<open>The part before the marker, with its newline.\<close>

definition up_section :: "bytes \<Rightarrow> bytes" where
  "up_section content = (case str_index goose_down content of Some idx \<Rightarrow> take (idx + 1) content | None \<Rightarrow> content)"

definition script_prefix :: "string \<Rightarrow> string" where
  "script_prefix path = fst (cut_at (CHR ''_'') (path_base path))"

definition remove_files :: "string list \<Rightarrow> files \<Rightarrow> files" where
  "remove_files tmpFiles fs = foldl (\<lambda>fs f. fs(f := None)) fs tmpFiles"

text \<open>The loop of \<open>stripGooseDown\<close>; \<open>cleaned\<close> and \<open>tmpFiles\<close> hold the same names.\<close>

fun strip_loop :: "(nat \<Rightarrow> temp_io) \<Rightarrow> string \<Rightarrow> string list \<Rightarrow> string list \<Rightarrow> files \<Rightarrow> (go_error + string list) \<times> files" where
  "strip_loop io dir [] tmpFiles fs = (Inr tmpFiles, fs)"
| "strip_loop io dir (path # paths) tmpFiles fs =
     (let x = io (length tmpFiles) in
      case ReadFile x path fs of
        Inl e \<Rightarrow> (Inl (Wrap [e] (''read '' @ path @ '': '' @ err_text e)), remove_files tmpFiles fs)
      | Inr content \<Rightarrow>
          (case CreateTemp x dir (script_prefix path @ ''-vaulthook-init-'') ''.sql'' fs of
             Inl e \<Rightarrow> (Inl (Wrap [e] (''create temp: '' @ err_text e)), remove_files tmpFiles fs)
           | Inr (name, fs1) \<Rightarrow>
               (case ti_write x of
                  Some (e, n) \<Rightarrow>
                    (Inl (Wrap [e] (''write temp: '' @ err_text e)), remove_files tmpFiles (fs1(name \<mapsto> take n (up_section content))))
                | None \<Rightarrow> strip_loop io dir paths (tmpFiles @ [name]) (fs1(name \<mapsto> up_section content)))))"

definition stripGooseDown :: "(nat \<Rightarrow> temp_io) \<Rightarrow> string \<Rightarrow> string list \<Rightarrow> files \<Rightarrow> (go_error + string list) \<times> files" where
  "stripGooseDown io dir paths fs = strip_loop io dir paths [] fs"

section \<open>The container\<close>

text \<open>
  The outcomes of the libraries: \<open>te_run\<close> gets the init scripts and says whether a container is left
  running; \<open>te_terminate\<close> and \<open>te_terminate_again\<close> whether stopping it succeeds.
\<close>

record 'cfg test_env =
  te_io :: "nat \<Rightarrow> temp_io"
  te_dir :: string
  te_run :: "(string \<times> bytes option) list \<Rightarrow> bool \<times> go_error option"
  te_conn :: "go_error + string"
  te_parse :: "string \<Rightarrow> go_error + 'cfg"
  te_pool :: "'cfg \<Rightarrow> int \<Rightarrow> go_error option"
  te_terminate :: "go_error option"
  te_terminate_again :: "go_error option"

record test_world =
  tw_files :: files
  tw_container :: bool
  tw_pool :: bool

definition Terminate :: "go_error option \<Rightarrow> test_world \<Rightarrow> test_world" where
  "Terminate outcome w = (if outcome = None then w\<lparr>tw_container := False\<rparr> else w)"

definition NewTestDB :: "'cfg test_env \<Rightarrow> string list \<Rightarrow> test_world \<Rightarrow> (go_error + string list) \<times> test_world" where
  "NewTestDB te initScripts w =
     (case stripGooseDown (te_io te) (te_dir te) initScripts (tw_files w) of
        (Inl e, fs) \<Rightarrow> (Inl (Wrap [e] (''testutil: strip goose: '' @ err_text e)), w\<lparr>tw_files := fs\<rparr>)
      | (Inr cleaned, fs) \<Rightarrow>
     (case te_run te (map (\<lambda>f. (f, fs f)) cleaned) of
        (left, Some e) \<Rightarrow>
          (Inl (Wrap [e] (''testutil: postgres container: '' @ err_text e)), w\<lparr>tw_files := remove_files cleaned fs, tw_container := left\<rparr>)
      | (_, None) \<Rightarrow>
     (let up = w\<lparr>tw_files := fs, tw_container := True\<rparr> in
      case te_conn te of
        Inl e \<Rightarrow> (Inl (Wrap [e] (''testutil: connection string: '' @ err_text e)), Terminate (te_terminate te) up)
      | Inr connStr \<Rightarrow>
     (case te_parse te connStr of
        Inl e \<Rightarrow> (Inl (Wrap [e] (''testutil: parse config: '' @ err_text e)), Terminate (te_terminate te) up)
      | Inr cfg \<Rightarrow>
     (case te_pool te cfg 30 of
        Some e \<Rightarrow> (Inl (Wrap [e] (''testutil: new pool: '' @ err_text e)), Terminate (te_terminate te) up)
      | None \<Rightarrow> (Inr cleaned, up\<lparr>tw_pool := True\<rparr>))))))"

text \<open>The function that \<open>NewTestDB\<close> returns closes over the names of the copies.\<close>

definition test_cleanup :: "'cfg test_env \<Rightarrow> string list \<Rightarrow> test_world \<Rightarrow> test_world" where
  "test_cleanup te cleaned w =
     (let w1 = Terminate (te_terminate_again te) (Terminate (te_terminate te) (w\<lparr>tw_pool := False\<rparr>))
      in w1\<lparr>tw_files := remove_files cleaned (tw_files w1)\<rparr>)"

section \<open>Properties\<close>

lemma remove_files_apply: "remove_files fs m f = (if f \<in> set fs then None else m f)"
  unfolding remove_files_def by (induction fs arbitrary: m) auto

lemma remove_files_snoc: "f \<notin> dom m \<Longrightarrow> remove_files (fs @ [f]) (m(f \<mapsto> b)) = remove_files fs m"
  by (rule ext) (auto simp: remove_files_apply domIff)

lemma CreateTemp_Inr:
  "CreateTemp x dir before after fs = Inr (name, fs1) \<longleftrightarrow>
     ti_create x = None \<and> name = temp_name dir before (ti_random x) after \<and> name \<notin> dom fs \<and> fs1 = fs(name \<mapsto> [])"
  by (auto simp: CreateTemp_def Let_def split: option.splits)

lemma ReadFile_Inr: "ReadFile x path fs = Inr b \<longleftrightarrow> ti_read x = None \<and> fs path = Some b"
  by (auto simp: ReadFile_def split: option.splits)

definition copy_of :: "string \<Rightarrow> string \<Rightarrow> string \<Rightarrow> bool" where
  "copy_of dir path name \<longleftrightarrow> (\<exists>r. name = temp_name dir (script_prefix path @ ''-vaulthook-init-'') r ''.sql'')"

lemma strip_loop_Cons:
  assumes "strip_loop io dir (path # paths) tmps fs = (out, fs')"
  obtains (failed) e where "out = Inl e" "fs' = remove_files tmps fs"
  | (write_failed) e name b where "ti_write (io (length tmps)) \<noteq> None" "out = Inl e" "name \<notin> dom fs"
      "fs' = remove_files tmps (fs(name \<mapsto> b))"
  | (copied) content name where "fs path = Some content" "ti_write (io (length tmps)) = None" "name \<notin> dom fs" "copy_of dir path name"
      "strip_loop io dir paths (tmps @ [name]) (fs(name \<mapsto> up_section content)) = (out, fs')"
proof (cases "ReadFile (io (length tmps)) path fs")
  case (Inl e)
  then show thesis using assms by (intro failed) (auto simp: Let_def)
next
  case (Inr content)
  note read = this
  show thesis
  proof (cases "CreateTemp (io (length tmps)) dir (script_prefix path @ ''-vaulthook-init-'') ''.sql'' fs")
    case (Inl e)
    then show thesis using assms read by (intro failed) (auto simp: Let_def)
  next
    case (Inr nf)
    moreover obtain name fs1 where "nf = (name, fs1)" by fastforce
    ultimately have new: "CreateTemp (io (length tmps)) dir (script_prefix path @ ''-vaulthook-init-'') ''.sql'' fs = Inr (name, fs1)" by simp
    then have name: "name \<notin> dom fs" "copy_of dir path name" and fs1: "fs1 = fs(name \<mapsto> [])"
      unfolding CreateTemp_Inr copy_of_def by blast+
    show thesis
    proof (cases "ti_write (io (length tmps))")
      case None
      then have "strip_loop io dir paths (tmps @ [name]) (fs(name \<mapsto> up_section content)) = (out, fs')"
        using assms read new fs1 by (simp add: Let_def)
      then show thesis using read None name by (intro copied) (simp_all add: ReadFile_Inr)
    next
      case (Some en)
      then show thesis using assms read new fs1 name by (cases en) (rule write_failed, auto simp: Let_def)
    qed
  qed
qed

text \<open>What the loop adds to the files when it succeeds.\<close>

lemma strip_loop_Inr:
  assumes "strip_loop io dir paths tmps fs = (Inr out, fs')" and "set paths \<subseteq> dom fs"
  shows "\<exists>new. out = tmps @ new \<and> distinct new \<and> set new \<inter> dom fs = {} \<and> (\<forall>f. f \<notin> set new \<longrightarrow> fs' f = fs f) \<and>
    list_all2 (\<lambda>path name. copy_of dir path name \<and> fs' name = map_option up_section (fs path)) paths new"
  using assms
proof (induction paths arbitrary: tmps fs)
  case (Cons path paths)
  from Cons.prems(1) show ?case
  proof (cases rule: strip_loop_Cons)
    case (copied content name)
    let ?fs = "fs(name \<mapsto> up_section content)"
    have "set paths \<subseteq> dom ?fs" using Cons.prems(2) by auto
    from Cons.IH [OF copied(5) this] obtain new where
      new: "out = (tmps @ [name]) @ new" "distinct new" "set new \<inter> dom ?fs = {}" "\<forall>f. f \<notin> set new \<longrightarrow> fs' f = ?fs f"
      and all: "list_all2 (\<lambda>path name. copy_of dir path name \<and> fs' name = map_option up_section (?fs path)) paths new"
      by blast
    have "\<forall>p \<in> set paths. ?fs p = fs p" using copied(3) Cons.prems(2) by auto
    with all have "list_all2 (\<lambda>path name. copy_of dir path name \<and> fs' name = map_option up_section (fs path)) paths new"
      by (auto simp: list_all2_conv_all_nth)
    with new copied show ?thesis by (intro exI [of _ "name # new"]) auto
  qed simp_all
qed simp

lemma strip_loop_Inl:
  assumes "strip_loop io dir paths tmps fs = (Inl e, fs')" and "\<And>n. ti_write (io n) = None"
  shows "fs' = remove_files tmps fs"
  using assms(1)
proof (induction paths arbitrary: tmps fs)
  case (Cons path paths)
  from Cons.prems show ?case
  proof (cases rule: strip_loop_Cons)
    case (copied content name)
    show ?thesis using Cons.IH [OF copied(5)] remove_files_snoc [OF copied(3)] by (rule trans)
  qed (simp_all add: assms(2))
qed simp

text \<open>A failure to read or to create a file leaves no copy behind.\<close>

lemma strip_failure_clean:
  assumes "stripGooseDown io dir paths fs = (Inl e, fs')" and "\<And>n. ti_write (io n) = None"
  shows "fs' = fs"
  using strip_loop_Inl [OF assms [unfolded stripGooseDown_def]] by (simp add: remove_files_def)

text \<open>The copies stand in the order of the migrations' numbers.\<close>

lemma less_append_same: "(xs :: string) < ys \<Longrightarrow> zs @ xs < zs @ ys"
  by (induction zs) simp_all

lemma less_append_left: "length xs = length ys \<Longrightarrow> (xs :: string) < ys \<Longrightarrow> xs @ us < ys @ vs"
  by (induction xs ys rule: list_induct2) auto

lemma copies_in_order:
  assumes "copy_of dir p n" and "copy_of dir q m" and "script_prefix p < script_prefix q"
    and "length (script_prefix p) = length (script_prefix q)"
  shows "n < m"
  using assms by (auto simp: copy_of_def temp_name_def intro!: less_append_same less_append_left)

lemma str_index_first:
  assumes "str_index sub s = Some i" and "k < i + length sub"
  shows "\<not> sublist sub (take k s)"
  using assms
proof (induction s arbitrary: i k)
  case (Cons c s)
  show ?case
  proof (cases "prefix sub (c # s)")
    case True
    then have "k < length sub" using Cons.prems by simp
    then show ?thesis by (auto dest: sublist_length_le)
  next
    case False
    then obtain j where j: "i = Suc j" "str_index sub s = Some j" using Cons.prems(1) by auto
    have "sub \<noteq> []" using False by auto
    show ?thesis
    proof (cases k)
      case (Suc n)
      have "\<not> prefix sub (c # take n s)"
        using False prefix_order.trans [OF _ take_is_prefix [of k "c # s"]] Suc by auto
      then show ?thesis using Cons.IH [OF j(2), of n] Cons.prems(2) j(1) Suc by (simp add: sublist_Cons_right)
    qed (simp add: \<open>sub \<noteq> []\<close>)
  qed
qed (auto split: if_splits)

lemma str_index_Some: "str_index sub s = Some i \<Longrightarrow> sublist sub s"
  by (induction s arbitrary: i) (auto simp: sublist_Cons_right split: if_splits)

lemma str_index_None: "str_index sub s = None \<Longrightarrow> \<not> sublist sub s"
  by (induction s) (auto simp: sublist_Cons_right split: if_splits)

lemma up_section: "prefix (up_section c) c \<and> \<not> sublist goose_down (up_section c)"
  using str_index_first [of goose_down c] str_index_None [of goose_down c]
  by (auto simp: up_section_def take_is_prefix goose_down_def split: option.splits)

lemma NewTestDB_Inr:
  assumes "NewTestDB te scripts w = (Inr cleaned, w')"
  obtains fs where "stripGooseDown (te_io te) (te_dir te) scripts (tw_files w) = (Inr cleaned, fs)"
    "w' = w\<lparr>tw_files := fs, tw_container := True, tw_pool := True\<rparr>"
  using assms by (auto simp: NewTestDB_def Let_def split: prod.splits sum.splits option.splits)

text \<open>
  A test database that comes up has run one copy of each migration, which ends before its
  \<^verbatim>\<open>Down\<close> section; when the migrations are numbered with the same number of digits and given in
  order, the names of the copies are in that order too. Its clean-up removes exactly the copies, closes
  the pool and stops the container.
\<close>

theorem test_database_runs_migrations:
  assumes "NewTestDB te scripts w = (Inr cleaned, w')" and "set scripts \<subseteq> dom (tw_files w)"
    and "te_terminate te = None"
    and "sorted_wrt (\<lambda>p q. length (script_prefix p) = length (script_prefix q) \<and> script_prefix p < script_prefix q) scripts"
  shows "list_all2 (\<lambda>path name. \<exists>up rest. tw_files w path = Some (up @ rest) \<and> tw_files w' name = Some up \<and>
      \<not> sublist goose_down up \<and> (sublist goose_down (up @ rest) \<or> rest = [])) scripts cleaned \<and>
    sorted_wrt (<) cleaned \<and> test_cleanup te cleaned w' = w\<lparr>tw_container := False, tw_pool := False\<rparr>"
proof -
  obtain fs where strip: "strip_loop (te_io te) (te_dir te) scripts [] (tw_files w) = (Inr cleaned, fs)"
    and w': "w' = w\<lparr>tw_files := fs, tw_container := True, tw_pool := True\<rparr>"
    using NewTestDB_Inr [OF assms(1)] unfolding stripGooseDown_def by blast
  from strip_loop_Inr [OF strip assms(2)] have
    new: "set cleaned \<inter> dom (tw_files w) = {}" "\<forall>f. f \<notin> set cleaned \<longrightarrow> fs f = tw_files w f"
    and all: "list_all2 (\<lambda>path name. copy_of (te_dir te) path name \<and> fs name = map_option up_section (tw_files w path)) scripts cleaned"
    by auto
  have copy: "\<exists>up rest. tw_files w path = Some (up @ rest) \<and> tw_files w' name = Some up \<and>
      \<not> sublist goose_down up \<and> (sublist goose_down (up @ rest) \<or> rest = [])"
    if "path \<in> set scripts" "fs name = map_option up_section (tw_files w path)" for path name
  proof -
    from that(1) assms(2) obtain c where c: "tw_files w path = Some c" by auto
    obtain rest where rest: "c = up_section c @ rest" using up_section [of c] by (auto simp: prefix_def)
    have "sublist goose_down c \<or> rest = []"
    proof (rule disjCI)
      assume "rest \<noteq> []"
      then obtain i where "str_index goose_down c = Some i" using rest by (cases "str_index goose_down c") (auto simp: up_section_def)
      then show "sublist goose_down c" by (rule str_index_Some)
    qed
    with that(2) c rest up_section [of c] w' show ?thesis by (intro exI [of _ "up_section c"] exI [of _ rest]) auto
  qed
  have "sorted_wrt (<) cleaned"
    unfolding sorted_wrt_iff_nth_less
  proof (intro allI impI)
    fix i j assume ij: "i < j" "j < length cleaned"
    then have len: "i < length scripts" "j < length scripts" using list_all2_lengthD [OF all] by simp_all
    note c = list_all2_nthD [OF all len(1), THEN conjunct1] list_all2_nthD [OF all len(2), THEN conjunct1]
    note o = sorted_wrt_nth_less [OF assms(4) ij(1) len(2)]
    show "cleaned ! i < cleaned ! j" by (rule copies_in_order [OF c conjunct2 [OF o] conjunct1 [OF o]])
  qed
  moreover have "test_cleanup te cleaned w' = w\<lparr>tw_container := False, tw_pool := False\<rparr>"
  proof -
    have "tw_files w f = None" if "f \<in> set cleaned" for f using new(1) that by (auto simp: domIff)
    then have "remove_files cleaned fs = tw_files w" using new(2) by (intro ext) (simp add: remove_files_apply)
    then show ?thesis using assms(3) by (simp add: test_cleanup_def Terminate_def w')
  qed
  moreover have "list_all2 (\<lambda>path name. \<exists>up rest. tw_files w path = Some (up @ rest) \<and> tw_files w' name = Some up \<and>
      \<not> sublist goose_down up \<and> (sublist goose_down (up @ rest) \<or> rest = [])) scripts cleaned"
    by (rule list.rel_mono_strong [OF all]) (rule copy, simp_all)
  ultimately show ?thesis by simp
qed

definition sample_test_env :: "unit test_env" where
  "sample_test_env =
     \<lparr>te_io = (\<lambda>n. \<lparr>ti_read = None, ti_create = None, ti_random = ''7'', ti_write = None\<rparr>), te_dir = ''/tmp'',
      te_run = (\<lambda>scripts. (True, None)), te_conn = Inr ''postgres://'', te_parse = (\<lambda>s. Inr ()), te_pool = (\<lambda>cfg n. None),
      te_terminate = None, te_terminate_again = None\<rparr>"

definition sample_migrations :: test_world where
  "sample_migrations =
     \<lparr>tw_files = [''m/01_a.sql'' \<mapsto> ''CREATE;'' @ goose_down @ '' DROP;'', ''m/02_b.sql'' \<mapsto> ''ALTER;''],
      tw_container = False, tw_pool = False\<rparr>"

theorem test_database_runs_migrations_witness:
  "case NewTestDB sample_test_env [''m/01_a.sql'', ''m/02_b.sql''] sample_migrations of
     (Inr cleaned, w') \<Rightarrow> length cleaned = 2 \<and> sorted_wrt (<) cleaned \<and> test_cleanup sample_test_env cleaned w' = sample_migrations
   | _ \<Rightarrow> False"
proof -
  have p: "script_prefix ''m/01_a.sql'' = ''01''" "script_prefix ''m/02_b.sql'' = ''02''" by code_simp+
  have o: "''01'' < ''02''" by (simp add: less_char_def)
  obtain cleaned w' where n: "NewTestDB sample_test_env [''m/01_a.sql'', ''m/02_b.sql''] sample_migrations = (Inr cleaned, w')"
    by (simp add: NewTestDB_def stripGooseDown_def sample_test_env_def sample_migrations_def ReadFile_def CreateTemp_def
        temp_name_def p Let_def)
  have "sample_migrations\<lparr>tw_container := False, tw_pool := False\<rparr> = sample_migrations" by (simp add: sample_migrations_def)
  moreover have "te_terminate sample_test_env = None" by (simp add: sample_test_env_def)
  moreover have "set [''m/01_a.sql'', ''m/02_b.sql''] \<subseteq> dom (tw_files sample_migrations)" by (simp add: sample_migrations_def)
  moreover have "sorted_wrt (\<lambda>p q. length (script_prefix p) = length (script_prefix q) \<and> script_prefix p < script_prefix q)
      [''m/01_a.sql'', ''m/02_b.sql'']" using o by (simp add: p)
  ultimately show ?thesis using test_database_runs_migrations [OF n] by (simp add: n) (auto dest: list_all2_lengthD)
qed

text \<open>
  When a step after the start of the container fails, the container is stopped but the copies stay.
\<close>

lemma late_failure_leaves_copies:
  assumes "stripGooseDown (te_io te) (te_dir te) scripts (tw_files w) = (Inr cleaned, fs)"
    and "te_run te (map (\<lambda>f. (f, fs f)) cleaned) = (left, None)" and "te_terminate te = None"
    and "NewTestDB te scripts w = (Inl e, w')"
  shows "w' = w\<lparr>tw_files := fs, tw_container := False\<rparr>"
  using assms by (auto simp: NewTestDB_def Terminate_def Let_def split: sum.splits option.splits)

end
