(* ===== verification/Spec2Isabelle.thy ===== *)
theory Spec2Isabelle
  imports Startup Delivery Relay MockReceiver TestDB
begin

text \<open>
  Verification of \<^bold>\<open>vaulthook\<close>, a gateway for webhooks written in Go.

  \<^bold>\<open>The program.\<close> Three HTTP endpoints receive webhooks of GitHub, Shopify and Stripe. A handler reads
  the body, checks the sender's signature with the secret configured for the provider, stores the
  event in PostgreSQL, hands it to the live feed and wakes a worker. Workers claim batches of stored
  events (\<^verbatim>\<open>FOR UPDATE SKIP LOCKED\<close>), forward each to the provider's destination within a rate limit
  kept in Redis, and write the outcomes back; others retry what failed, replay what a user asks for
  and remove what is old. A user signs in with one configured account, lists and searches events,
  watches the live feed over server-sent events, and configures the providers, whose settings are
  kept in a table and in a cache in Redis.

  \<^bold>\<open>How it is modelled.\<close> Go's multi-value returns are the type \<open>res\<close> (a value, an error, a run-time
  panic); strings and byte slices are HOL's strings of bytes; \<^verbatim>\<open>int\<close> is \<^typ>\<open>int\<close>, brought back into 64
  bits by \<open>wrap64\<close> wherever the code computes with it. A table is the list of its rows in insertion
  order and a statement is a function on the database, which PostgreSQL runs atomically; a call to
  the database or to Redis takes a \<open>fault\<close> that says whether it fails before or after it took effect.
  Time, random bytes, schedules of goroutines, tickers and the answers of destinations are arguments,
  so that a statement about a function is a statement about all that can happen around it.

  \<^bold>\<open>The theories,\<close> with what they model under \<^verbatim>\<open>src/internal\<close> and what they show:

  \<^item> \<open>Prelude\<close>: results, faults, 64-bit arithmetic, time, SQL's order of nullable columns, the list lemmas
    behind \<^verbatim>\<open>UPDATE ... WHERE\<close>, \<^verbatim>\<open>ORDER BY ... LIMIT\<close>, and \<open>invariant_system\<close>, the locale of a step
    relation with an invariant. \<open>GoStd\<close>: trimming, hexadecimal and base 64 text, headers, decimal
    numbers. \<open>GoTime\<close>: the calendar and the text of points in time, which parses back. \<open>GoJson\<close>: \<^verbatim>\<open>encoding/json\<close>'s
    texts and its parser, which inverts them. \<open>StdCrypto\<close>: SHA-256, HMAC, AES and GCM, computable, and the locale \<open>aead\<close>. \<open>Channel\<close>: Go's
    buffered channels, as an interpretation of \<open>bounded_queue\<close>. \<open>Http\<close>: requests, cookies, responses, and
    \<^verbatim>\<open>helpers/helpers.go\<close>.
  \<^item> \<open>Model\<close> (\<^verbatim>\<open>model/*.go\<close> and the schema of \<^verbatim>\<open>migrations/\<close>): rows, constraints (\<open>schema_ok\<close>), and the
    validation of searches. \<open>Crypto\<close> (\<^verbatim>\<open>crypto/crypto.go\<close>): secrets decrypt to themselves, and nothing
    but what was sealed under the key is decrypted.
  \<^item> \<open>EventsRepo\<close>, \<open>EventsService\<close> (\<^verbatim>\<open>events/*.go\<close>): the statements on events; the hub as a function over its
    critical sections, whose accepted events are taken in order and none is lost uncounted; searches
    equal their reference definition. The locale \<open>dedup_store\<close> is the contract that a key is stored at
    most once; the repository and, in \<open>Ingest\<close>, the handlers are interpretations of it.
  \<^item> \<open>Providers\<close> (\<^verbatim>\<open>providers/*.go\<close>, \<^verbatim>\<open>cache/cache.go\<close>): table and cache of the providers and their
    coherence. \<open>ProviderHooks\<close> (\<^verbatim>\<open>providers/{github,shopify,stripe}/service.go\<close>): signatures (the locale
    \<open>mac_check\<close>) and the headers that are passed on. \<open>Codec\<close>: the JSON forms of headers and providers, field by
    field, with which the cache gives back every provider of the table.
  \<^item> \<open>Ingest\<close> (\<^verbatim>\<open>api/handler/{github,shopify,stripe}.go\<close>): the three handlers on every branch. What is
    answered 200 is stored; an event is queued at most once; what is not signed has no effect.
  \<^item> \<open>Limiter\<close>, \<open>WorkerRepo\<close>, \<open>Pool\<close>, \<open>WorkerService\<close>, \<open>Workers\<close>, \<open>Delivery\<close> (\<^verbatim>\<open>worker/*.go\<close>): the leaky bucket
    and the bound on the rate; claims, which are exclusive and take the earliest events; atomic
    write-back; the outcome of every attempt; the loops and the pool; and a whole round, which settles
    every event it could claim. \<open>Relay\<close> follows a webhook from the handler through the database to the
    request of a worker: allowlisted headers arrive as they were sent, and the body in its stored form,
    so that the sender's signature fits only if \<^verbatim>\<open>jsonb\<close> kept the text.
  \<^item> \<open>Auth\<close>, \<open>AuthHandler\<close> (\<^verbatim>\<open>auth/*.go\<close>, \<^verbatim>\<open>api/handler/auth.go\<close>): sessions. A login opens a session that the
    middleware accepts when the cookies come back, and a refresh token serves once.
  \<^item> \<open>EventsHandler\<close>, \<open>ProviderHandler\<close>, \<open>Health\<close>, \<open>Config\<close> (the other files of \<^verbatim>\<open>api/handler\<close>, \<^verbatim>\<open>health/*.go\<close>,
    \<^verbatim>\<open>config/*.go\<close>): the live stream, which passes on the batches of its subscription in order; listing,
    search, replay, configuration; the health report; sizes computed from the number of CPUs; settings.
  \<^item> \<open>App\<close>, \<open>System\<close>, \<open>Startup\<close> (\<^verbatim>\<open>app/app.go\<close>, the \<^verbatim>\<open>RegisterRoutes\<close> of the handlers, \<^verbatim>\<open>config/logger.go\<close>,
    \<^verbatim>\<open>cmd/api/main.go\<close>): the router, the routes and what stands behind the middleware; the whole program as a step relation over the shared state, with its invariant by
    rule induction, and every route and every loop as a sequence of its steps; and \<open>New\<close>, after which
    the state is an initial one, with \<open>Run\<close> and \<open>main\<close>. \<open>MockReceiver\<close> (\<^verbatim>\<open>cmd/api-mock/main.go\<close>): the
    destination for load tests. \<open>TestDB\<close> (\<^verbatim>\<open>testutil/pgcontainer.go\<close>): the database of the tests, whose
    migrations are copied without their \<^verbatim>\<open>Down\<close> sections, in order, and removed again.

  \<^bold>\<open>Parameters.\<close> Code outside the repository is an argument: the JWT library (\<open>jwt_lib\<close> with the laws
  \<open>jwt_laws\<close>: a signed token yields its claims until it expires, and signing keeps whole numbers apart), the
  check of the Stripe library, the text of UUIDs (\<open>uuid_laws\<close>), \<^verbatim>\<open>jsonb\<close>, which keeps an object of lists of
  texts but not the order of its members (\<open>jsonb_headers\<close>), the order of Go's maps (\<open>order_ok\<close>), the
  parsers of connection strings, PostgreSQL's \<^verbatim>\<open>ILIKE\<close> and UUID text, the rounding of Lua's numbers, and
  Docker. The handlers and the workers take the JSON encoders and decoders as arguments (\<open>codec_ok\<close>
  where a round trip is relied on); for headers and providers \<open>Codec\<close> defines them and proves what is
  relied on, the decoders of request bodies and the encoders of the other answers stay arguments. The
  parser of times is the fast path of \<^verbatim>\<open>time.UnmarshalJSON\<close>, which all texts that the program writes take. Every law
  has a concrete instance, in the witness of the property that uses it.

  \<^bold>\<open>Loops.\<close> The worker's loop, the waiting loops and the stream take the list of what happens in each
  turn (rounds, wake-ups, ready cases) and say whether they have returned within it, so that no bound is
  chosen: a statement holds for lists of any length, and one about a loop that does not end
  (\<open>idle_worker_spins\<close>) says so for all of them. Every other function is total.

  \<^bold>\<open>Not modelled.\<close> chi's matching of paths, its throttle and its timeout (which can only answer earlier or
  make a call fail, and faults of calls are modelled); the HTTP server below \<^verbatim>\<open>ListenAndServe\<close>, whose return
  is an argument of \<open>Run\<close>; log output and response headers other than cookies; the sleeps of the mock
  receiver; constructors that only store their arguments; and the browser client under \<^verbatim>\<open>frontend\<close>.
\<close>

end
